(* ===== verification/Prelude.thy ===== *)
theory Prelude
  imports
    Complex_Main
    "HOL-Library.Word"
    "HOL-Library.Multiset"
    "HOL-Library.Sublist"
    "HOL-Library.Option_ord"
    "HOL-Library.Product_Lexorder"
    "HOL-Library.Char_ord"
    "HOL-Library.List_Lexorder"
    "HOL-Library.AList"
begin

text \<open>
  Shared vocabulary of the development: the machine integers of the code, the functions of
  Rust's \<open>str\<close>, \<open>slice\<close> and integer parsing that the code calls, hash maps as association
  lists, and the generic facts about them. A Rust \<open>String\<close> is the list of its UTF-8 bytes,
  one \<open>char\<close> per byte, which is also how Rust orders, slices and measures it.
\<close>

section \<open>Machine integers and bytes\<close>

type_synonym u8 = "8 word"
type_synonym u32 = "32 word"
type_synonym u64 = "64 word"

definition u64_max :: nat where
  "u64_max = 18446744073709551615"

definition u32_max :: nat where
  "u32_max = 4294967295"

definition byte_of_char :: "char \<Rightarrow> u8" where
  "byte_of_char c = word_of_nat (of_char c)"

definition char_of_byte :: "u8 \<Rightarrow> char" where
  "char_of_byte b = char_of (unat b)"

abbreviation bytes_of_str :: "string \<Rightarrow> u8 list" where
  "bytes_of_str s \<equiv> map byte_of_char s"

abbreviation str_of_bytes :: "u8 list \<Rightarrow> string" where
  "str_of_bytes bs \<equiv> map char_of_byte bs"

lemma of_char_less_256: "(of_char c :: nat) < 256"
  by (cases c) (simp split: bool.split add: of_char_def)

lemma char_of_byte_of_char [simp]: "char_of_byte (byte_of_char c) = c"
proof -
  have "unat (word_of_nat (of_char c) :: u8) = of_char c"
    using of_char_less_256 [of c] by (simp add: unat_of_nat take_bit_eq_mod)
  then show ?thesis
    by (simp add: char_of_byte_def byte_of_char_def)
qed

lemma byte_of_char_inj [simp]: "byte_of_char c = byte_of_char d \<longleftrightarrow> c = d"
  by (metis char_of_byte_of_char)

lemma str_of_bytes_of_str [simp]: "str_of_bytes (bytes_of_str s) = s"
  by (simp add: comp_def)

section \<open>Strings\<close>

text \<open>
  Strings are UTF-8; a character starts at every byte that does not continue one. A string slice
  \<open>&s[..n]\<close> panics unless \<open>n\<close> is the boundary of a character.
\<close>

definition char_start :: "char \<Rightarrow> bool" where
  "char_start c = (let n = (of_char c :: nat) in n < 128 \<or> 191 < n)"

definition is_char_boundary :: "string \<Rightarrow> nat \<Rightarrow> bool" where
  "is_char_boundary s n \<longleftrightarrow> n = 0 \<or> n = length s \<or> n < length s \<and> char_start (s ! n)"

definition slice_panic :: string where
  "slice_panic = ''byte index is not a char boundary''"

text \<open>\<open>str::split_once\<close>: the text before and after the first occurrence of a character.\<close>

fun split_once :: "char \<Rightarrow> string \<Rightarrow> (string \<times> string) option" where
  "split_once c [] = None"
| "split_once c (x # xs) =
     (if x = c then Some ([], xs) else map_option (apfst (Cons x)) (split_once c xs))"

lemma split_once_Some_iff:
  "split_once c s = Some (a, b) \<longleftrightarrow> s = a @ c # b \<and> c \<notin> set a"
proof (induction s arbitrary: a)
  case Nil
  then show ?case by simp
next
  case (Cons x s)
  show ?case
  proof (cases "x = c")
    case True
    then show ?thesis by (auto simp: Cons_eq_append_conv)
  next
    case False
    then show ?thesis
      by (cases a) (auto simp: Cons.IH)
  qed
qed

lemma split_once_None_iff: "split_once c s = None \<longleftrightarrow> c \<notin> set s"
  by (induction s) auto

lemma split_once_absent [simp]: "c \<notin> set s \<Longrightarrow> split_once c s = None"
  by (simp add: split_once_None_iff)

lemma split_once_append [simp]: "c \<notin> set a \<Longrightarrow> split_once c (a @ c # b) = Some (a, b)"
  by (simp add: split_once_Some_iff)

text \<open>\<open>str::strip_prefix\<close>.\<close>

definition strip_prefix :: "string \<Rightarrow> string \<Rightarrow> string option" where
  "strip_prefix p s = (if prefix p s then Some (drop (length p) s) else None)"

lemma strip_prefix_Some_iff: "strip_prefix p s = Some r \<longleftrightarrow> s = p @ r"
  by (auto simp: strip_prefix_def prefix_def)

lemma strip_prefix_append [simp]: "strip_prefix p (p @ r) = Some r"
  by (simp add: strip_prefix_Some_iff)

text \<open>\<open>str::split\<close> on a character: always at least one piece.\<close>

fun split_char :: "char \<Rightarrow> string \<Rightarrow> string list" where
  "split_char c [] = [[]]"
| "split_char c (x # xs) =
     (if x = c then [] # split_char c xs
      else (case split_char c xs of [] \<Rightarrow> [[x]] | y # ys \<Rightarrow> (x # y) # ys))"

lemma split_char_not_Nil [simp]: "split_char c s \<noteq> []"
  by (induction s) (auto split: list.splits)

lemma length_split_char: "length (split_char c s) = Suc (count_list s c)"
  by (induction s) (auto split: list.splits)

lemma split_char_absent: "c \<notin> set s \<Longrightarrow> split_char c s = [s]"
  by (induction s) auto

lemma split_char_parts: "split_char c (a @ c # b) = split_char c a @ split_char c b"
  by (induction a) (auto split: list.splits simp: append_eq_Cons_conv)

lemma split_char_append: "c \<notin> set a \<Longrightarrow> split_char c (a @ c # b) = a # split_char c b"
  by (simp add: split_char_parts split_char_absent)

text \<open>\<open>str::splitn\<close>: at most \<open>n\<close> pieces, the last one unsplit.\<close>

fun splitn :: "nat \<Rightarrow> char \<Rightarrow> string \<Rightarrow> string list" where
  "splitn 0 c s = []"
| "splitn (Suc 0) c s = [s]"
| "splitn (Suc (Suc n)) c s =
     (case split_once c s of None \<Rightarrow> [s] | Some (a, b) \<Rightarrow> a # splitn (Suc n) c b)"

lemma splitn_3:
  "splitn 3 c s =
     (case split_once c s of None \<Rightarrow> [s]
      | Some (a, b) \<Rightarrow> (case split_once c b of None \<Rightarrow> [a, b] | Some (b1, b2) \<Rightarrow> [a, b1, b2]))"
  by (auto simp: numeral_3_eq_3 split: option.split)

abbreviation newline :: char where "newline \<equiv> CHR 0x0A"
abbreviation tab :: char where "tab \<equiv> CHR 0x09"

text \<open>
  \<open>str::lines\<close>: pieces ended by a newline, a carriage return before that newline dropped;
  the unterminated rest counts when it is not empty.
\<close>

definition strip_cr :: "string \<Rightarrow> string" where
  "strip_cr s = (if s \<noteq> [] \<and> last s = CHR 0x0D then butlast s else s)"

function lines :: "string \<Rightarrow> string list" where
  "lines s =
     (case split_once newline s of
        None \<Rightarrow> (if s = [] then [] else [s])
      | Some (a, b) \<Rightarrow> strip_cr a # lines b)"
  by pat_completeness auto
termination
  by (relation "measure length") (auto simp: split_once_Some_iff)

declare lines.simps [simp del]

lemma lines_Nil [simp]: "lines [] = []"
  by (simp add: lines.simps [of "[]"])

lemma lines_newline [simp]: "newline \<notin> set a \<Longrightarrow> lines (a @ newline # b) = strip_cr a # lines b"
  by (simp add: lines.simps [of "a @ newline # b"])

text \<open>
  \<open>str::trim\<close>: the UTF-8 encodings of the characters with the Unicode property White\_Space,
  removed from both ends.
\<close>

definition ws_seqs :: "string list" where
  "ws_seqs =
     [[CHR 0x09], [CHR 0x0A], [CHR 0x0B], [CHR 0x0C], [CHR 0x0D], [CHR 0x20],
      [CHR 0xC2, CHR 0x85], [CHR 0xC2, CHR 0xA0], [CHR 0xE1, CHR 0x9A, CHR 0x80]] @
     map (\<lambda>c. [CHR 0xE2, CHR 0x80, c])
       [CHR 0x80, CHR 0x81, CHR 0x82, CHR 0x83, CHR 0x84, CHR 0x85, CHR 0x86, CHR 0x87,
        CHR 0x88, CHR 0x89, CHR 0x8A, CHR 0xA8, CHR 0xA9, CHR 0xAF] @
     [[CHR 0xE2, CHR 0x81, CHR 0x9F], [CHR 0xE3, CHR 0x80, CHR 0x80]]"

fun trim_seqs :: "string list \<Rightarrow> string \<Rightarrow> string" where
  "trim_seqs ws s =
     (case find (\<lambda>w. w \<noteq> [] \<and> prefix w s) ws of
        None \<Rightarrow> s
      | Some w \<Rightarrow> (if w = [] \<or> s = [] then s else trim_seqs ws (drop (length w) s)))"

declare trim_seqs.simps [simp del]

definition trim_start :: "string \<Rightarrow> string" where
  "trim_start s = trim_seqs ws_seqs s"

definition trim_end :: "string \<Rightarrow> string" where
  "trim_end s = rev (trim_seqs (map rev ws_seqs) (rev s))"

definition trim :: "string \<Rightarrow> string" where
  "trim s = trim_end (trim_start s)"

text \<open>\<open>str::trim_end_matches\<close> on a character.\<close>

definition trim_end_char :: "char \<Rightarrow> string \<Rightarrow> string" where
  "trim_end_char c s = rev (dropWhile (\<lambda>x. x = c) (rev s))"

lemma trim_end_char_append [simp]:
  "c \<notin> set s \<Longrightarrow> trim_end_char c (s @ [c]) = s"
  by (cases s rule: rev_cases) (auto simp: trim_end_char_def)

text \<open>\<open>to_ascii_lowercase\<close>, byte by byte.\<close>

definition ascii_lower_char :: "char \<Rightarrow> char" where
  "ascii_lower_char c =
     (let n = (of_char c :: nat) in if 65 \<le> n \<and> n \<le> 90 then char_of (n + 32) else c)"

abbreviation ascii_lower :: "string \<Rightarrow> string" where
  "ascii_lower s \<equiv> map ascii_lower_char s"

section \<open>Integers and text\<close>

definition digit_val :: "char \<Rightarrow> nat option" where
  "digit_val c = (let n = (of_char c :: nat) in if 48 \<le> n \<and> n \<le> 57 then Some (n - 48) else None)"

fun digits_val :: "nat \<Rightarrow> string \<Rightarrow> nat option" where
  "digits_val acc [] = Some acc"
| "digits_val acc (c # cs) =
     (case digit_val c of None \<Rightarrow> None | Some d \<Rightarrow> digits_val (10 * acc + d) cs)"

text \<open>
  \<open>str::parse\<close> for an unsigned type with the given largest value: an optional plus sign, then
  at least one digit; anything else, and a value that does not fit, is an error.
\<close>

definition parse_uint :: "nat \<Rightarrow> string \<Rightarrow> nat option" where
  "parse_uint bound s =
     (let ds = (case s of c # cs \<Rightarrow> if c = CHR ''+'' then cs else s | [] \<Rightarrow> [])
      in if ds = [] then None
         else case digits_val 0 ds of None \<Rightarrow> None
              | Some n \<Rightarrow> if n \<le> bound then Some n else None)"

lemma parse_uint_bound: "parse_uint bound s = Some n \<Longrightarrow> n \<le> bound"
  by (auto simp: parse_uint_def Let_def split: option.splits if_splits)

definition digit_char :: "nat \<Rightarrow> char" where
  "digit_char d = ''0123456789'' ! d"

fun nat_str :: "nat \<Rightarrow> string" where
  "nat_str n = (if n < 10 then [digit_char n] else nat_str (n div 10) @ [digit_char (n mod 10)])"

declare nat_str.simps [simp del]

lemma digit_val_digit_char [simp]:
  assumes "d < 10"
  shows "digit_val (digit_char d) = Some d"
proof -
  from assms have "d \<in> {0, 1, 2, 3, 4, 5, 6, 7, 8, 9}" by auto
  then show ?thesis by (auto simp: digit_val_def digit_char_def)
qed

lemma digits_val_append:
  "digits_val acc (xs @ ys) = Option.bind (digits_val acc xs) (\<lambda>n. digits_val n ys)"
  by (induction xs arbitrary: acc) (auto split: option.splits)

lemma nat_str_not_Nil [simp]: "nat_str n \<noteq> []"
  by (subst nat_str.simps) simp

lemma digits_val_nat_str: "digits_val 0 (nat_str n) = Some n"
proof (induction n rule: nat_str.induct)
  case (1 n)
  show ?case
  proof (cases "n < 10")
    case True
    then show ?thesis by (simp add: nat_str.simps [of n])
  next
    case False
    with 1 show ?thesis by (simp add: nat_str.simps [of n] digits_val_append)
  qed
qed

lemma digit_char_in: "d < 10 \<Longrightarrow> digit_char d \<in> set ''0123456789''"
  unfolding digit_char_def by (rule nth_mem) simp

lemma set_nat_str: "set (nat_str n) \<subseteq> set ''0123456789''"
proof (induction n rule: nat_str.induct)
  case (1 n)
  have one: "set [digit_char d] \<subseteq> set ''0123456789''" if "d < 10" for d
    using digit_char_in [OF that] by simp
  show ?case
  proof (cases "n < 10")
    case True
    then show ?thesis using one [OF True] by (simp add: nat_str.simps [of n] del: list.set)
  next
    case False
    then show ?thesis
      using 1 one [of "n mod 10"] by (simp add: nat_str.simps [of n] del: list.set)
  qed
qed

lemma nat_str_snoc: obtains ds d where "nat_str n = ds @ [d]" "d \<in> set ''0123456789''"
  using set_nat_str [of n] nat_str_not_Nil [of n] by (cases "nat_str n" rule: rev_cases) auto

lemma nat_str_Cons: obtains d ds where "nat_str n = d # ds" "d \<in> set ''0123456789''"
  using set_nat_str [of n] nat_str_not_Nil [of n] by (cases "nat_str n") auto

text \<open>A text that neither begins nor ends with a byte of a white space character is not trimmed.\<close>

definition solid :: "char \<Rightarrow> bool" where
  "solid c \<longleftrightarrow> c \<notin> hd ` set ws_seqs \<and> c \<notin> last ` set ws_seqs"

lemma trim_seqs_solid: "(\<And>w. w \<in> set ws \<Longrightarrow> w = [] \<or> hd w \<noteq> c) \<Longrightarrow> trim_seqs ws (c # s) = c # s"
proof -
  assume h: "\<And>w. w \<in> set ws \<Longrightarrow> w = [] \<or> hd w \<noteq> c"
  have "find (\<lambda>w. w \<noteq> [] \<and> prefix w (c # s)) ws = None"
    unfolding find_None_iff using h by (fastforce simp: prefix_Cons)
  then show ?thesis by (subst trim_seqs.simps) simp
qed

lemma trim_solid:
  assumes "solid (hd s)" "solid (last s)" "s \<noteq> []"
  shows "trim s = s"
proof -
  obtain c cs where s: "s = c # cs" using assms(3) by (cases s) auto
  have "trim_start s = s"
    unfolding trim_start_def s using assms(1) by (intro trim_seqs_solid) (auto simp: s solid_def)
  moreover obtain ds d where s': "s = ds @ [d]" using assms(3) by (cases s rule: rev_cases) auto
  have "trim_seqs (map rev ws_seqs) (d # rev ds) = d # rev ds"
    using assms(2) by (intro trim_seqs_solid) (auto simp: s' solid_def hd_rev)
  then have "trim_end s = s" by (simp add: trim_end_def s')
  ultimately show ?thesis by (simp add: trim_def)
qed

section \<open>Hash maps\<close>

text \<open>
  A \<open>HashMap\<close> is an association list with distinct keys. Its order is the order in which the
  map happens to be iterated; a lookup is \<open>map_of\<close>, an insertion \<open>AList.update\<close>.
\<close>

type_synonym ('k, 'v) hmap = "('k \<times> 'v) list"

definition hmap_ok :: "('k, 'v) hmap \<Rightarrow> bool" where
  "hmap_ok m \<longleftrightarrow> distinct (map fst m)"

lemma hmap_ok_update: "hmap_ok m \<Longrightarrow> hmap_ok (AList.update k v m)"
  unfolding hmap_ok_def by (rule distinct_update)

lemma map_of_mset_eq:
  assumes "hmap_ok m" "mset m = mset m'"
  shows "map_of m = map_of m'"
proof -
  have "distinct (map fst m')"
    using assms unfolding hmap_ok_def by (metis mset_eq_imp_distinct_iff mset_map)
  moreover have "set m = set m'"
    using assms(2) by (rule mset_eq_setD)
  ultimately show ?thesis
    using assms(1) unfolding hmap_ok_def by (simp add: map_of_inject_set)
qed

section \<open>Lists\<close>

lemma mset_sort_key [simp]: "mset (sort_key f xs) = mset xs"
  by (induction xs) simp_all

lemma sorted_sort_key: "sorted (map f (sort_key f xs))"
  by simp

text \<open>\<open>Vec::dedup\<close>: of equal neighbours the first is kept.\<close>

abbreviation dedup :: "'a list \<Rightarrow> 'a list" where
  "dedup \<equiv> remdups_adj"

lemma distinct_dedup: "sorted xs \<Longrightarrow> distinct (dedup xs)"
  by (induction xs rule: remdups_adj.induct) (auto simp: less_le)

lemma dedup_sort_facts:
  "sorted (dedup (sort xs))" "distinct (dedup (sort xs))" "set (dedup (sort xs)) = set xs"
  by (simp_all add: sorted_remdups_adj distinct_dedup)

lemma dedup_sort_eq_sorted_list_of_set: "dedup (sort xs) = sorted_list_of_set (set xs)"
  by (rule sorted_distinct_set_unique) (simp_all add: dedup_sort_facts)

lemma set_map_filter: "set (List.map_filter f xs) = {y. \<exists>x \<in> set xs. f x = Some y}"
  by (induction xs) (auto simp: List.map_filter_simps split: option.splits)

end
