(* ===== verification/F64.thy ===== *)
theory F64
  imports Prelude
begin

text \<open>
  The IEEE 754 double-precision numbers (Rust's \<open>f64\<close>), as far as the code computes with them:
  conversion from \<open>u64\<close>, sums, products, quotients, comparison, the saturating cast back to
  \<open>u64\<close>, \<open>str::parse\<close> and fixed-point formatting. A finite number is the exact rational it
  denotes, and every operation rounds its exact result to nearest, ties to even. The two zeros
  are one value: the code never divides by a negative zero.
\<close>

datatype f64 = NaN | Inf bool | Fin rat

section \<open>Rounding\<close>

fun bit_count :: "nat \<Rightarrow> nat" where
  "bit_count n = (if n = 0 then 0 else Suc (bit_count (n div 2)))"

declare bit_count.simps [simp del]

definition pow2 :: "int \<Rightarrow> rat" where
  "pow2 e = (if 0 \<le> e then 2 ^ nat e else 1 / 2 ^ nat (- e))"

text \<open>The exponent of the leading bit of a positive rational.\<close>

definition ilog2 :: "rat \<Rightarrow> int" where
  "ilog2 q =
     (let (n, d) = quotient_of q;
          e = int (bit_count (nat n)) - int (bit_count (nat d))
      in if pow2 e \<le> q then e else e - 1)"

definition round_half_even :: "rat \<Rightarrow> int" where
  "round_half_even q =
     (let f = \<lfloor>q\<rfloor>; r = q - of_int f
      in if r < 1 / 2 then f else if 1 / 2 < r then f + 1 else if even f then f else f + 1)"

definition round_f64 :: "rat \<Rightarrow> f64" where
  "round_f64 q =
     (if q = 0 then Fin 0
      else let a = \<bar>q\<bar>;
               e = max (ilog2 a - 52) (- 1074);
               v = of_int (round_half_even (a / pow2 e)) * pow2 e
           in if 2 ^ 1024 \<le> v then Inf (q < 0) else Fin (if q < 0 then - v else v))"

section \<open>Arithmetic, comparison and casts\<close>

definition f64_of_u64 :: "u64 \<Rightarrow> f64" where
  "f64_of_u64 w = round_f64 (of_nat (unat w))"

fun f64_neg :: "f64 \<Rightarrow> bool" where
  "f64_neg NaN = False"
| "f64_neg (Inf s) = s"
| "f64_neg (Fin q) = (q < 0)"

fun f64_mul :: "f64 \<Rightarrow> f64 \<Rightarrow> f64" where
  "f64_mul (Fin a) (Fin b) = round_f64 (a * b)"
| "f64_mul NaN b = NaN"
| "f64_mul a NaN = NaN"
| "f64_mul a b = (if a = Fin 0 \<or> b = Fin 0 then NaN else Inf (f64_neg a \<noteq> f64_neg b))"

fun f64_div :: "f64 \<Rightarrow> f64 \<Rightarrow> f64" where
  "f64_div (Fin a) (Fin b) =
     (if b = 0 then (if a = 0 then NaN else Inf (a < 0)) else round_f64 (a / b))"
| "f64_div NaN b = NaN"
| "f64_div a NaN = NaN"
| "f64_div (Inf s) (Inf t) = NaN"
| "f64_div (Inf s) (Fin b) = Inf (s \<noteq> (b < 0))"
| "f64_div (Fin a) (Inf t) = Fin 0"

fun f64_add :: "f64 \<Rightarrow> f64 \<Rightarrow> f64" where
  "f64_add (Fin a) (Fin b) = round_f64 (a + b)"
| "f64_add NaN b = NaN"
| "f64_add a NaN = NaN"
| "f64_add (Inf s) (Inf t) = (if s = t then Inf s else NaN)"
| "f64_add (Inf s) b = Inf s"
| "f64_add a (Inf t) = Inf t"

fun f64_less :: "f64 \<Rightarrow> f64 \<Rightarrow> bool" where
  "f64_less NaN b = False"
| "f64_less a NaN = False"
| "f64_less (Fin a) (Fin b) = (a < b)"
| "f64_less (Inf s) (Inf t) = (s \<and> \<not> t)"
| "f64_less (Inf s) (Fin b) = s"
| "f64_less (Fin a) (Inf t) = (\<not> t)"

text \<open>\<open>a >= b\<close> of two doubles: false as soon as one is not a number.\<close>

definition f64_ge :: "f64 \<Rightarrow> f64 \<Rightarrow> bool" where
  "f64_ge a b \<longleftrightarrow> f64_less b a \<or> (a = b \<and> a \<noteq> NaN)"

text \<open>\<open>f64::max\<close> ignores a NaN operand.\<close>

definition f64_max :: "f64 \<Rightarrow> f64 \<Rightarrow> f64" where
  "f64_max a b = (if a = NaN then b else if b = NaN then a else if f64_less a b then b else a)"

text \<open>\<open>as u64\<close> truncates and saturates; NaN becomes 0.\<close>

fun f64_to_u64 :: "f64 \<Rightarrow> u64" where
  "f64_to_u64 NaN = 0"
| "f64_to_u64 (Inf s) = (if s then 0 else - 1)"
| "f64_to_u64 (Fin q) =
     (if q \<le> 0 then 0
      else if of_nat u64_max \<le> q then - 1 else word_of_int \<lfloor>q\<rfloor>)"

text \<open>\<open>Duration::from_secs_f64\<close> panics unless the value is finite, not negative and below 2^64.\<close>

fun duration_secs_ok :: "f64 \<Rightarrow> bool" where
  "duration_secs_ok (Fin q) = (0 \<le> q \<and> q < 18446744073709551616)"
| "duration_secs_ok x = False"

section \<open>Text\<close>

definition is_digit :: "char \<Rightarrow> bool" where
  "is_digit c = (digit_val c \<noteq> None)"

definition split_digits :: "string \<Rightarrow> string \<times> string" where
  "split_digits s = (takeWhile is_digit s, dropWhile is_digit s)"

fun take_sign :: "string \<Rightarrow> bool \<times> string" where
  "take_sign (c # cs) =
     (if c = CHR ''-'' then (True, cs) else if c = CHR ''+'' then (False, cs) else (False, c # cs))"
| "take_sign [] = (False, [])"

fun parse_exp :: "string \<Rightarrow> int option" where
  "parse_exp [] = Some 0"
| "parse_exp (c # cs) =
     (if c = CHR ''e'' \<or> c = CHR ''E''
      then let (neg, ds) = take_sign cs
           in if ds = [] then None
              else map_option (\<lambda>n. if neg then - int n else int n) (digits_val 0 ds)
      else None)"

definition pow10 :: "int \<Rightarrow> rat" where
  "pow10 e = (if 0 \<le> e then 10 ^ nat e else 1 / 10 ^ nat (- e))"

definition parse_decimal :: "string \<Rightarrow> rat option" where
  "parse_decimal s =
     (let (ip, r1) = split_digits s;
          (fp, r2) = (case r1 of c # cs \<Rightarrow> if c = CHR ''.'' then split_digits cs else ([], r1)
                      | [] \<Rightarrow> ([], []))
      in if ip = [] \<and> fp = [] then None
         else case (digits_val 0 (ip @ fp), parse_exp r2) of
                (Some n, Some e) \<Rightarrow> Some (of_nat n * pow10 (e - int (length fp)))
              | _ \<Rightarrow> None)"

definition parse_f64 :: "string \<Rightarrow> f64 option" where
  "parse_f64 s =
     (let (neg, body) = take_sign s
      in if ascii_lower body = ''inf'' \<or> ascii_lower body = ''infinity'' then Some (Inf neg)
         else if ascii_lower body = ''nan'' then Some NaN
         else map_option (\<lambda>q. round_f64 (if neg then - q else q)) (parse_decimal body))"

text \<open>\<open>{:.p}\<close> of a double: the exact value rounded to \<open>p\<close> decimals, ties to even.\<close>

definition pad_left :: "nat \<Rightarrow> char \<Rightarrow> string \<Rightarrow> string" where
  "pad_left n c s = replicate (n - length s) c @ s"

fun fmt_fixed :: "nat \<Rightarrow> f64 \<Rightarrow> string" where
  "fmt_fixed p NaN = ''NaN''"
| "fmt_fixed p (Inf s) = (if s then ''-inf'' else ''inf'')"
| "fmt_fixed p (Fin q) =
     (let n = nat (round_half_even (\<bar>q\<bar> * 10 ^ p)); sgn = (if q < 0 then ''-'' else [])
      in sgn @ nat_str (n div 10 ^ p) @
         (if p = 0 then [] else ''.'' @ pad_left p (CHR ''0'') (nat_str (n mod 10 ^ p))))"

section \<open>Facts\<close>

lemma f64_to_u64_Fin_nat: "f64_to_u64 (Fin (of_nat n)) = (if n \<le> u64_max then word_of_nat n else - 1)"
proof -
  have m: "(- 1 :: u64) = word_of_nat u64_max"
    by (simp add: u64_max_def)
  show ?thesis
    by (cases "n = u64_max") (auto simp: m of_nat_le_0_iff)
qed

lemma duration_secs_ok_div_0: "\<not> duration_secs_ok (f64_div x (Fin 0))"
  by (cases x) auto

section \<open>Exact values and bounds\<close>

lemma bit_count_bounds: "0 < n \<Longrightarrow> 2 ^ (bit_count n - 1) \<le> n \<and> n < 2 ^ bit_count n \<and> 0 < bit_count n"
proof (induction n rule: bit_count.induct)
  case (1 n)
  show ?case
  proof (cases "n = 1")
    case True
    then show ?thesis by (simp add: bit_count.simps)
  next
    case False
    then have pos: "0 < n div 2" using 1 by simp
    then have IH: "2 ^ (bit_count (n div 2) - 1) \<le> n div 2" "n div 2 < 2 ^ bit_count (n div 2)"
      "0 < bit_count (n div 2)"
      using 1 by auto
    then obtain k where k: "bit_count (n div 2) = Suc k" by (metis gr0_implies_Suc)
    have "bit_count n = Suc (Suc k)"
      using 1 k by (simp add: bit_count.simps [of n])
    moreover have "2 ^ k \<le> n div 2" "n div 2 < 2 * 2 ^ k" using IH by (simp_all add: k)
    then have "2 * 2 ^ k \<le> n" "n < 4 * 2 ^ k" by linarith+
    ultimately show ?thesis by simp
  qed
qed

lemma pow2_pos [simp]: "0 < pow2 e"
  by (simp add: pow2_def)

lemma pow2_add: "pow2 (a + b) = pow2 a * pow2 b"
proof -
  have eq: "pow2 e = 2 powi e" for e
    by (simp add: pow2_def power_int_def field_simps)
  show ?thesis by (simp add: eq power_int_add)
qed

lemma pow2_of_nat [simp]: "pow2 (int n) = 2 ^ n"
  by (simp add: pow2_def)

lemma pow2_strict_mono: "a < b \<Longrightarrow> pow2 a < pow2 b"
proof -
  assume "a < b"
  then obtain n where "b = a + int (Suc n)" by (metis zless_iff_Suc_zadd)
  then have "pow2 b = pow2 a * 2 ^ Suc n" by (simp only: pow2_add pow2_of_nat)
  moreover have "pow2 a * 1 < pow2 a * 2 ^ Suc n"
    by (rule mult_strict_left_mono) (simp_all del: power_Suc)
  ultimately show ?thesis by simp
qed

lemma pow2_less_iff: "pow2 a < pow2 b \<longleftrightarrow> a < b"
  using pow2_strict_mono [of a b] pow2_strict_mono [of b a] by (cases a b rule: linorder_cases) auto

lemma pow2_minus: "pow2 (- a) = 1 / pow2 a"
  using pow2_add [of a "- a"] pow2_pos [of a] by (simp add: pow2_def field_simps split: if_splits)

lemma ilog2_le:
  assumes "0 < q"
  shows "pow2 (ilog2 q) \<le> q"
proof -
  obtain n d where nd: "quotient_of q = (n, d)" by fastforce
  have d: "0 < d" and q: "q = of_int n / of_int d"
    using quotient_of_denom_pos [OF nd] quotient_of_div [OF nd] by simp_all
  then have n: "0 < n" using assms by (simp add: zero_less_divide_iff)
  let ?a = "bit_count (nat n)" and ?b = "bit_count (nat d)"
  have bn: "2 ^ (?a - 1) \<le> nat n" "0 < ?a" and bd: "nat d < 2 ^ ?b"
    using bit_count_bounds [of "nat n"] bit_count_bounds [of "nat d"] n d by simp_all
  have "(2::rat) ^ (?a - 1) \<le> of_int n"
    using bn(1) n by (metis (mono_tags, opaque_lifting) of_int_of_nat_eq of_nat_le_iff of_nat_nat of_nat_numeral of_nat_power less_le)
  moreover have "of_int d \<le> (2::rat) ^ ?b"
    using bd d by (metis (mono_tags, opaque_lifting) of_int_of_nat_eq of_nat_le_iff of_nat_nat of_nat_numeral of_nat_power less_le)
  ultimately have "2 ^ (?a - 1) / 2 ^ ?b \<le> q"
    unfolding q using n d by (intro frac_le) simp_all
  moreover have "pow2 (int ?a - int ?b - 1) = 2 ^ (?a - 1) / 2 ^ ?b"
  proof -
    have "int ?a - int ?b - 1 = int (?a - 1) + - int ?b" using bn(2) by simp
    then show ?thesis by (simp only: pow2_add pow2_minus pow2_of_nat) simp
  qed
  ultimately show ?thesis by (simp add: ilog2_def nd Let_def)
qed

lemma round_half_even_of_int [simp]: "round_half_even (of_int m) = m"
  by (simp add: round_half_even_def Let_def)

lemma round_half_even_bound: "of_int (round_half_even q) \<le> q + 1"
  by (auto simp: round_half_even_def Let_def) (use of_int_floor_le [of q] in linarith)+

lemma round_half_even_nonneg: "0 \<le> q \<Longrightarrow> 0 \<le> round_half_even q"
  by (auto simp: round_half_even_def Let_def)

text \<open>Every multiple of a negative power of two with at most 53 significant bits is a double.\<close>

lemma round_f64_exact:
  assumes "m < 2 ^ 53" "k \<le> 1074"
  shows "round_f64 (of_nat m / 2 ^ k) = Fin (of_nat m / 2 ^ k)"
proof (cases "m = 0")
  case True
  then show ?thesis by (simp add: round_f64_def)
next
  case False
  let ?q = "of_nat m / 2 ^ k :: rat"
  define e where "e = max (ilog2 ?q - 52) (- 1074)"
  have q: "0 < ?q" using False by simp
  have "of_nat m < (2::rat) ^ 53"
    using assms(1) by (metis (mono_tags, lifting) of_nat_less_iff of_nat_numeral of_nat_power)
  then have "?q < 2 ^ 53 / 2 ^ k" by (intro divide_strict_right_mono) simp_all
  moreover have "pow2 (53 + - int k) = 2 ^ 53 / 2 ^ k"
    unfolding pow2_add pow2_minus by (simp add: pow2_def)
  ultimately have lt: "?q < pow2 (53 - int k)" by simp
  then have "ilog2 ?q < 53 - int k"
    using ilog2_le [OF q] pow2_less_iff by (meson le_less_trans)
  then have e: "e \<le> - int k" "- 1074 \<le> e"
    using assms(2) by (auto simp: e_def)
  then obtain j where j: "e = - int (j + k)"
    by (metis add_diff_cancel_right' minus_diff_eq minus_equation_iff nonneg_int_cases of_nat_add
        diff_add_cancel add.commute diff_ge_0_iff_ge uminus_add_conv_diff)
  have "?q / pow2 e = of_int (int m * 2 ^ j)"
    unfolding j pow2_minus pow2_of_nat by (simp add: power_add)
  then have "of_int (round_half_even (?q / pow2 e)) * pow2 e = ?q"
    by (metis round_half_even_of_int nonzero_divide_eq_eq pow2_pos less_irrefl)
  moreover have "?q < 2 ^ 1024"
  proof -
    have "pow2 (53 - int k) \<le> pow2 53" using pow2_less_iff [of 53 "53 - int k"] by linarith
    also have "\<dots> < 2 ^ 1024" by (simp add: pow2_def)
    finally show ?thesis using lt by simp
  qed
  ultimately show ?thesis
    using q False by (simp add: round_f64_def Let_def e_def [symmetric] divide_less_0_iff)
qed

lemma round_f64_nat: "m < 2 ^ 53 \<Longrightarrow> round_f64 (of_nat m) = Fin (of_nat m)"
  using round_f64_exact [of m 0] by simp

lemma f64_of_u64_exact: "unat w < 2 ^ 53 \<Longrightarrow> f64_of_u64 w = Fin (of_nat (unat w))"
  unfolding f64_of_u64_def by (rule round_f64_nat)

text \<open>Rounding at most doubles a number (and adds less than one to a tiny one).\<close>

lemma round_f64_duration_ok:
  assumes "0 \<le> q" "q \<le> 2 ^ 53"
  shows "duration_secs_ok (round_f64 q)"
proof (cases "q = 0")
  case True
  then show ?thesis by (simp add: round_f64_def)
next
  case False
  with assms have q: "0 < q" by simp
  define e where "e = max (ilog2 q - 52) (- 1074)"
  define v where "v = of_int (round_half_even (q / pow2 e)) * pow2 e"
  have "pow2 e \<le> q + 1"
  proof (cases "e = - 1074")
    case True
    then have "pow2 e \<le> 1" by (simp add: pow2_def)
    then show ?thesis using q by simp
  next
    case False
    then have "e < ilog2 q" by (auto simp: e_def)
    then have "pow2 e < pow2 (ilog2 q)" by (simp add: pow2_less_iff)
    then show ?thesis using ilog2_le [OF q] by linarith
  qed
  moreover have "v \<le> (q / pow2 e + 1) * pow2 e"
    unfolding v_def by (intro mult_right_mono round_half_even_bound) (simp add: less_imp_le)
  then have "v \<le> q + pow2 e" using pow2_pos [of e] by (simp add: distrib_right)
  moreover have "0 \<le> v"
    unfolding v_def using q by (intro mult_nonneg_nonneg) (simp_all add: round_half_even_nonneg less_imp_le)
  ultimately have "0 \<le> v" "v \<le> 18014398509481985"
    using assms(2) by simp_all
  then show ?thesis
    using q by (simp add: round_f64_def Let_def e_def [symmetric] v_def [symmetric])
qed

end
