(* ===== verification/World.thy ===== *)
theory World
  imports F64
begin

text \<open>
  What every operation of the program acts on: errors and panics as values, the state record
  that is threaded through the code, the outside world as a parameter (the \<open>zfs\<close> command, the
  clock, the JSON library), and the sequencing combinators. The last section states what it
  means that an operation starts only \<open>zfs\<close> processes of a given kind, with the rules that
  carry this through sequencing.
\<close>

section \<open>Time\<close>

text \<open>
  \<open>DateTime<Utc>\<close> and its differences: an instant, ordered chronologically, here in
  nanoseconds since the Unix epoch; a \<open>chrono::Duration\<close> is an integer number of nanoseconds.
\<close>

datatype datetime = DateTime (nanos: int)

instantiation datetime :: linorder
begin

definition less_eq_datetime :: "datetime \<Rightarrow> datetime \<Rightarrow> bool" where
  "a \<le> b \<longleftrightarrow> nanos a \<le> nanos b"

definition less_datetime :: "datetime \<Rightarrow> datetime \<Rightarrow> bool" where
  "a < b \<longleftrightarrow> nanos a < nanos b"

instance
  by standard (auto simp: less_eq_datetime_def less_datetime_def datetime.expand)

end

type_synonym duration = int

definition day_nanos :: duration where
  "day_nanos = 86400000000000"

definition signed_duration_since :: "datetime \<Rightarrow> datetime \<Rightarrow> duration" where
  "signed_duration_since a b = nanos a - nanos b"

section \<open>Errors\<close>

text \<open>
  The error values of the crate: \<open>ClientError\<close> (\<open>Spawn\<close>, \<open>CommandFailed\<close>, \<open>JsonParse\<close>),
  \<open>CodecError\<close> (\<open>Io\<close>, \<open>Json\<close>, \<open>Cancelled\<close>), \<open>TransportError\<close> (\<open>SshSpawn\<close>), \<open>ConfigError\<close>
  (\<open>ConfigIo\<close>, \<open>ConfigToml\<close>, \<open>UnknownRemote\<close>), and the two ways \<open>anyhow\<close> makes errors: a
  message, and a context around another error. Texts that come from outside (an \<open>io::Error\<close>, a
  parser's message) are strings.
\<close>

datatype err =
    Spawn string
  | CommandFailed string
  | JsonParse string
  | Io string
  | Json string
  | Cancelled
  | SshSpawn string string
  | ConfigIo string
  | ConfigToml string
  | UnknownRemote string string
  | Message string
  | WithContext string err

text \<open>The \<open>Display\<close> of an error, as \<open>to_string()\<close> gives it: the outermost message.\<close>

fun display_err :: "err \<Rightarrow> string" where
  "display_err (Spawn e) = ''failed to spawn zfs process: '' @ e"
| "display_err (CommandFailed e) = ''zfs command failed: '' @ e"
| "display_err (JsonParse e) = ''zfs output could not be parsed as JSON: '' @ e"
| "display_err (Io e) = ''I/O error: '' @ e"
| "display_err (Json e) = ''JSON error: '' @ e"
| "display_err Cancelled = ''transfer cancelled by user''"
| "display_err (SshSpawn d e) = ''SSH connect to '' @ d @ '': '' @ e"
| "display_err (ConfigIo e) = ''cannot read config file: '' @ e"
| "display_err (ConfigToml e) = ''cannot parse config: '' @ e"
| "display_err (UnknownRemote d r) =
     ''dataset '' @ [CHR 0x27] @ d @ [CHR 0x27] @ '' references unknown remote '' @ [CHR 0x27] @ r @
     [CHR 0x27]"
| "display_err (Message m) = m"
| "display_err (WithContext m e) = m"

text \<open>The outcome of a fallible operation; a panic unwinds and is never caught as an error.\<close>

datatype 'a res = Ok 'a | Err err | Panic string

section \<open>The outside world\<close>

text \<open>
  Output of a finished \<open>zfs\<close> process: it could not be started, or it exited (successfully or
  not) with what it wrote to standard output and standard error.
\<close>

datatype proc_out = SpawnFailed string | Exited bool string string

text \<open>
  A byte source: its remaining bytes, then end of file or an I/O error; the next calls of
  \<open>read\<close> return at most \<open>rsizes\<close> bytes each (as many as asked for when the list is used up).
\<close>

record rstream =
  rbytes :: "u8 list"
  rerr :: "string option"
  rsizes :: "nat list"

text \<open>A byte sink: what was written, and after how many more bytes writing fails (None: never).\<close>

record wstream =
  wbytes :: "u8 list"
  wcap :: "nat option"

text \<open>The JSON documents of \<open>zfs --json\<close> as \<open>src/zfs/schema.rs\<close> declares them.\<close>

record property_value =
  pv_value :: string

record dataset_info =
  di_properties :: "(string, property_value) hmap"

record zfs_json =
  zo_datasets :: "(string, dataset_info) hmap"

text \<open>
  The parameters of the model. \<open>zfs_output argv\<close> runs \<open>zfs\<close> with these arguments to its end;
  \<open>zfs_spawn_send argv\<close> starts it with a piped standard output; \<open>zfs_receive_spawn\<close> says
  whether a receiving process could be started and after how many bytes it stops reading, and
  \<open>zfs_receive_finish argv bs\<close> is its exit after reading the bytes \<open>bs\<close>; \<open>utc_now\<close> reads the
  clock; \<open>parse_zfs_json\<close> is \<open>serde_json::from_str::<ZfsOutput>\<close>; \<open>ssh_spawn argv\<close> starts
  \<open>ssh\<close> with piped standard input and output; \<open>elapsed_secs\<close> is what
  \<open>start.elapsed().as_secs_f64()\<close> says. They all may change the outside state, of type \<open>'w\<close>.
  \<open>trace_logged\<close> says whether the logger takes trace records (\<open>RUST_LOG\<close>): only then are the
  arguments of \<open>log::trace!\<close> evaluated.
\<close>

record 'w os =
  zfs_output :: "string list \<Rightarrow> 'w \<Rightarrow> proc_out \<times> 'w"
  zfs_spawn_send :: "string list \<Rightarrow> 'w \<Rightarrow> (string + rstream) \<times> 'w"
  zfs_receive_spawn :: "string list \<Rightarrow> 'w \<Rightarrow> (string + nat option) \<times> 'w"
  zfs_receive_finish :: "string list \<Rightarrow> u8 list \<Rightarrow> 'w \<Rightarrow> proc_out \<times> 'w"
  utc_now :: "'w \<Rightarrow> datetime \<times> 'w"
  parse_zfs_json :: "string \<Rightarrow> string + zfs_json"
  ssh_spawn :: "string list \<Rightarrow> 'w \<Rightarrow> (string + rstream \<times> wstream) \<times> 'w"
  elapsed_secs :: "'w \<Rightarrow> f64 \<times> 'w"
  trace_logged :: bool

section \<open>Transfer events\<close>

text \<open>\<open>SendEvent\<close> of \<open>src/tui.rs\<close>.\<close>

datatype send_event =
    CountdownTick u8
  | CountdownAborted
  | RemoteStarted string u64
  | RemoteProgress string u64
  | RemoteCompleted string f64 u64
  | RemoteFailed string string
  | RemoteSkipped string
  | RemoteUpToDate string
  | AllDone
  | SummaryTick

section \<open>The program's state\<close>

text \<open>
  \<open>env\<close> is the outside state; \<open>cmds\<close> the argument vectors of all \<open>zfs\<close> processes started so
  far, oldest first; \<open>inp\<close> and \<open>outp\<close> the two halves of the protocol connection; \<open>notices\<close> the
  calls made to the \<open>SendProgress\<close> observer, oldest first.
\<close>

record 'w st =
  env :: 'w
  cmds :: "string list list"
  inp :: rstream
  outp :: wstream
  notices :: "send_event list"

type_synonym ('w, 'a) io = "'w st \<Rightarrow> 'a res \<times> 'w st"

definition io_return :: "'a \<Rightarrow> ('w, 'a) io" where
  "io_return a s = (Ok a, s)"

definition io_fail :: "err \<Rightarrow> ('w, 'a) io" where
  "io_fail e s = (Err e, s)"

definition io_panic :: "string \<Rightarrow> ('w, 'a) io" where
  "io_panic m s = (Panic m, s)"

text \<open>Sequencing: the \<open>?\<close> operator; an error or a panic ends the operation.\<close>

definition io_bind :: "('w, 'a) io \<Rightarrow> ('a \<Rightarrow> ('w, 'b) io) \<Rightarrow> ('w, 'b) io" where
  "io_bind m f s =
     (case m s of
        (Ok a, s') \<Rightarrow> f a s'
      | (Err e, s') \<Rightarrow> (Err e, s')
      | (Panic p, s') \<Rightarrow> (Panic p, s'))"

text \<open>Looking at the \<open>Result\<close> of an operation with \<open>match\<close>; a panic still unwinds.\<close>

definition io_match :: "('w, 'a) io \<Rightarrow> ('a \<Rightarrow> ('w, 'b) io) \<Rightarrow> (err \<Rightarrow> ('w, 'b) io) \<Rightarrow> ('w, 'b) io" where
  "io_match m f g s =
     (case m s of
        (Ok a, s') \<Rightarrow> f a s'
      | (Err e, s') \<Rightarrow> g e s'
      | (Panic p, s') \<Rightarrow> (Panic p, s'))"

text \<open>\<open>anyhow::Context::context\<close>.\<close>

definition io_context :: "string \<Rightarrow> ('w, 'a) io \<Rightarrow> ('w, 'a) io" where
  "io_context msg m = io_match m io_return (\<lambda>e. io_fail (WithContext msg e))"

text \<open>A \<open>for\<close> loop whose body only has effects.\<close>

fun io_for :: "'a list \<Rightarrow> ('a \<Rightarrow> ('w, unit) io) \<Rightarrow> ('w, unit) io" where
  "io_for [] f = io_return ()"
| "io_for (x # xs) f = io_bind (f x) (\<lambda>_. io_for xs f)"

text \<open>\<open>map\<close> into a \<open>Result\<close> collected with \<open>collect()\<close>: stops at the first error.\<close>

fun io_map :: "('a \<Rightarrow> ('w, 'b) io) \<Rightarrow> 'a list \<Rightarrow> ('w, 'b list) io" where
  "io_map f [] = io_return []"
| "io_map f (x # xs) = io_bind (f x) (\<lambda>y. io_bind (io_map f xs) (\<lambda>ys. io_return (y # ys)))"

text \<open>The outcome of a pure function that may fail.\<close>

definition io_res :: "'a res \<Rightarrow> ('w, 'a) io" where
  "io_res r s = (r, s)"

lemma io_bind_res_Ok: "io_bind (io_res (Ok a)) f = f a"
  by (simp add: io_res_def io_bind_def fun_eq_iff)

definition io_now :: "'w os \<Rightarrow> ('w, datetime) io" where
  "io_now S s = (let (t, w) = utc_now S (env s) in (Ok t, s\<lparr>env := w\<rparr>))"

definition io_elapsed :: "'w os \<Rightarrow> ('w, f64) io" where
  "io_elapsed S s = (let (t, w) = elapsed_secs S (env s) in (Ok t, s\<lparr>env := w\<rparr>))"

text \<open>The \<open>Result\<close> of an operation as a value, and the one with panics that a task ends with.\<close>

definition io_catch :: "('w, 'a) io \<Rightarrow> ('w, err + 'a) io" where
  "io_catch m = io_match m (\<lambda>a. io_return (Inr a)) (\<lambda>e. io_return (Inl e))"

definition io_join :: "('w, 'a) io \<Rightarrow> ('w, 'a res) io" where
  "io_join m s = (case m s of (r, s') \<Rightarrow> (Ok r, s'))"

definition io_notice :: "send_event \<Rightarrow> ('w, unit) io" where
  "io_notice e s = (Ok (), s\<lparr>notices := notices s @ [e]\<rparr>)"

lemmas io_defs = io_return_def io_fail_def io_panic_def io_bind_def io_match_def

lemma io_bind_return [simp]: "io_bind (io_return a) f = f a"
  by (simp add: fun_eq_iff io_defs)

lemma io_bind_return_right [simp]: "io_bind m io_return = m"
  by (simp add: fun_eq_iff io_defs split: prod.split res.split)

lemma io_bind_fail [simp]: "io_bind (io_fail e) f = io_fail e"
  by (simp add: fun_eq_iff io_defs)

lemma io_bind_panic [simp]: "io_bind (io_panic p) f = io_panic p"
  by (simp add: fun_eq_iff io_defs)

lemma io_bind_assoc [simp]: "io_bind (io_bind m f) g = io_bind m (\<lambda>x. io_bind (f x) g)"
  by (simp add: fun_eq_iff io_defs split: prod.split res.split)

lemma io_match_return [simp]: "io_match (io_return a) f g = f a"
  by (simp add: fun_eq_iff io_defs)

lemma io_match_fail [simp]: "io_match (io_fail e) f g = g e"
  by (simp add: fun_eq_iff io_defs)

lemma io_bind_Ok_iff:
  "io_bind m f s = (Ok b, s'') \<longleftrightarrow> (\<exists>a s'. m s = (Ok a, s') \<and> f a s' = (Ok b, s''))"
  by (auto simp: io_bind_def split: prod.splits res.splits)

text \<open>A step whose result is known.\<close>

lemma io_bind_run: "m s = (Ok a, s') \<Longrightarrow> io_bind m f s = f a s'"
  by (simp add: io_bind_def)

lemma io_match_run: "m s = (Ok a, s') \<Longrightarrow> io_match m f g s = f a s'"
  by (simp add: io_match_def)

lemma io_match_run_Err: "m s = (Err e, s') \<Longrightarrow> io_match m f g s = g e s'"
  by (simp add: io_match_def)

lemma io_context_run: "m s = (Ok a, s') \<Longrightarrow> io_context msg m s = (Ok a, s')"
  by (simp add: io_context_def io_match_run io_return_def)

lemma io_catch_run: "m s = (Ok a, s') \<Longrightarrow> io_catch m s = (Ok (Inr a), s')"
  by (simp add: io_catch_def io_match_run io_return_def)

section \<open>Which processes an operation starts\<close>

text \<open>
  \<open>emits P m\<close>: whatever the outside world does, all processes that \<open>m\<close> starts have argument
  vectors that satisfy \<open>P\<close>, and none is forgotten.
\<close>

definition emits :: "(string list \<Rightarrow> bool) \<Rightarrow> ('w, 'a) io \<Rightarrow> bool" where
  "emits P m \<longleftrightarrow> (\<forall>s. \<exists>cs. cmds (snd (m s)) = cmds s @ cs \<and> list_all P cs)"

named_theorems emits_intro "how sequencing and the operations preserve emits"

lemma emitsI: "(\<And>s. \<exists>cs. cmds (snd (m s)) = cmds s @ cs \<and> list_all P cs) \<Longrightarrow> emits P m"
  by (simp add: emits_def)

lemma emitsD: "emits P m \<Longrightarrow> m s = (r, s') \<Longrightarrow> \<exists>cs. cmds s' = cmds s @ cs \<and> list_all P cs"
  unfolding emits_def by (metis snd_conv)

lemma emitsE:
  assumes "emits P m"
  obtains cs where "cmds (snd (m s)) = cmds s @ cs" "list_all P cs"
  using assms unfolding emits_def by metis

lemma emits_mono: "emits P m \<Longrightarrow> (\<And>c. P c \<Longrightarrow> Q c) \<Longrightarrow> emits Q m"
  unfolding emits_def by (metis list_all_iff)

lemma emits_same_cmds: "(\<And>s. cmds (snd (m s)) = cmds s) \<Longrightarrow> emits P m"
  by (auto simp: emits_def)

lemma emits_return [emits_intro]: "emits P (io_return a)"
  by (simp add: emits_same_cmds io_return_def)

lemma emits_fail [emits_intro]: "emits P (io_fail e)"
  by (simp add: emits_same_cmds io_fail_def)

lemma emits_panic [emits_intro]: "emits P (io_panic p)"
  by (simp add: emits_same_cmds io_panic_def)

lemma emits_notice [emits_intro]: "emits P (io_notice e)"
  by (simp add: emits_same_cmds io_notice_def)

lemma emits_res [emits_intro]: "emits P (io_res r)"
  by (simp add: emits_same_cmds io_res_def)

lemma emits_now [emits_intro]: "emits P (io_now S)"
  by (simp add: emits_same_cmds io_now_def split: prod.split)

lemma emits_elapsed [emits_intro]: "emits P (io_elapsed S)"
  by (simp add: emits_same_cmds io_elapsed_def split: prod.split)

lemma emits_join [emits_intro]: "emits P m \<Longrightarrow> emits P (io_join m)"
  by (simp add: emits_def io_join_def case_prod_beta)

lemma emits_match_result:
  fixes m :: "('w, 'a) io" and f :: "'a \<Rightarrow> ('w, 'b) io"
  assumes "emits P m" "\<And>a s s'. m s = (Ok a, s') \<Longrightarrow> emits P (f a)" "\<And>e. emits P (g e)"
  shows "emits P (io_match m f g)"
proof (rule emitsI)
  fix s
  obtain r s' where r: "m s = (r, s')" by fastforce
  obtain cs where cs: "cmds s' = cmds s @ cs" "list_all P cs"
    using emitsD [OF assms(1) r] by blast
  have step: "\<exists>ds. cmds (snd (k s')) = cmds s @ ds \<and> list_all P ds" if em: "emits P k" for k :: "('w, 'b) io"
  proof -
    obtain ds where "cmds (snd (k s')) = cmds s' @ ds" "list_all P ds"
      using em by (rule emitsE)
    then show ?thesis using cs by (intro exI [of _ "cs @ ds"]) simp
  qed
  show "\<exists>cs. cmds (snd (io_match m f g s)) = cmds s @ cs \<and> list_all P cs"
    using step [OF assms(2)] step [OF assms(3)] r cs
    by (cases r) (auto simp: io_match_def)
qed

lemma emits_match [emits_intro]:
  "emits P m \<Longrightarrow> (\<And>a. emits P (f a)) \<Longrightarrow> (\<And>e. emits P (g e)) \<Longrightarrow> emits P (io_match m f g)"
  by (rule emits_match_result)

lemma io_bind_match: "io_bind m f = io_match m f io_fail"
  by (simp add: fun_eq_iff io_defs split: prod.split res.split)

lemma emits_bind [emits_intro]:
  "emits P m \<Longrightarrow> (\<And>a. emits P (f a)) \<Longrightarrow> emits P (io_bind m f)"
  by (auto simp: io_bind_match intro: emits_intro)

lemma emits_bind_result:
  "emits P m \<Longrightarrow> (\<And>a s s'. m s = (Ok a, s') \<Longrightarrow> emits P (f a)) \<Longrightarrow> emits P (io_bind m f)"
  unfolding io_bind_match by (rule emits_match_result) (auto intro: emits_intro)

lemma emits_context [emits_intro]: "emits P m \<Longrightarrow> emits P (io_context msg m)"
  by (auto simp: io_context_def intro: emits_intro)

lemma emits_for [emits_intro]:
  "(\<And>x. x \<in> set xs \<Longrightarrow> emits P (f x)) \<Longrightarrow> emits P (io_for xs f)"
  by (induction xs) (auto intro: emits_intro)

lemma emits_map [emits_intro]:
  "(\<And>x. x \<in> set xs \<Longrightarrow> emits P (f x)) \<Longrightarrow> emits P (io_map f xs)"
  by (induction xs) (auto intro: emits_intro)

lemma emits_if [emits_intro]:
  "(b \<Longrightarrow> emits P m) \<Longrightarrow> (\<not> b \<Longrightarrow> emits P n) \<Longrightarrow> emits P (if b then m else n)"
  by simp

lemma emits_case_option [emits_intro]:
  "(v = None \<Longrightarrow> emits P m) \<Longrightarrow> (\<And>x. v = Some x \<Longrightarrow> emits P (f x)) \<Longrightarrow>
   emits P (case v of None \<Rightarrow> m | Some x \<Rightarrow> f x)"
  by (cases v) simp_all

lemma emits_case_prod [emits_intro]:
  "(\<And>x y. emits P (f x y)) \<Longrightarrow> emits P (case v of (x, y) \<Rightarrow> f x y)"
  by (cases v) simp

lemma emits_case_sum [emits_intro]:
  "(\<And>x. emits P (f x)) \<Longrightarrow> (\<And>y. emits P (g y)) \<Longrightarrow> emits P (case v of Inl x \<Rightarrow> f x | Inr y \<Rightarrow> g y)"
  by (cases v) simp_all

section \<open>How an operation can panic\<close>

text \<open>\<open>panics_in Q m\<close>: whatever the outside world does, a panic of \<open>m\<close> satisfies \<open>Q\<close>.\<close>

definition panics_in :: "(string \<Rightarrow> bool) \<Rightarrow> ('w, 'a) io \<Rightarrow> bool" where
  "panics_in Q m \<longleftrightarrow> (\<forall>s p s'. m s = (Panic p, s') \<longrightarrow> Q p)"

named_theorems panics_intro "how sequencing and the operations preserve panics_in"

lemma panics_inD: "panics_in Q m \<Longrightarrow> m s = (Panic p, s') \<Longrightarrow> Q p"
  unfolding panics_in_def by blast

lemma panics_return [panics_intro]: "panics_in Q (io_return a)"
  by (simp add: panics_in_def io_return_def)

lemma panics_fail [panics_intro]: "panics_in Q (io_fail e)"
  by (simp add: panics_in_def io_fail_def)

lemma panics_panic [panics_intro]: "Q p \<Longrightarrow> panics_in Q (io_panic p)"
  by (simp add: panics_in_def io_panic_def)

lemma panics_notice [panics_intro]: "panics_in Q (io_notice e)"
  by (simp add: panics_in_def io_notice_def)

lemma panics_now [panics_intro]: "panics_in Q (io_now S)"
  by (simp add: panics_in_def io_now_def split: prod.split)

lemma panics_elapsed [panics_intro]: "panics_in Q (io_elapsed S)"
  by (simp add: panics_in_def io_elapsed_def split: prod.split)

lemma panics_join [panics_intro]: "panics_in Q (io_join m)"
  by (simp add: panics_in_def io_join_def split: prod.split)

lemma panics_match [panics_intro]:
  assumes "panics_in Q m" "\<And>a. panics_in Q (f a)" "\<And>e. panics_in Q (g e)"
  shows "panics_in Q (io_match m f g)"
  using assms unfolding panics_in_def io_match_def by (auto split: prod.splits res.splits)

lemma panics_bind [panics_intro]:
  "panics_in Q m \<Longrightarrow> (\<And>a. panics_in Q (f a)) \<Longrightarrow> panics_in Q (io_bind m f)"
  by (auto simp: io_bind_match intro: panics_intro)

lemma panics_bind_result:
  assumes "panics_in Q m" "\<And>a s s'. m s = (Ok a, s') \<Longrightarrow> panics_in Q (f a)"
  shows "panics_in Q (io_bind m f)"
  unfolding panics_in_def
proof (intro allI impI)
  fix s p s' assume run: "io_bind m f s = (Panic p, s')"
  obtain r s1 where r: "m s = (r, s1)" by fastforce
  show "Q p"
    using run r assms(2) [of s _ s1]
    by (cases r) (auto simp: io_bind_def dest: panics_inD panics_inD [OF assms(1)])
qed

lemma panics_res: "(\<And>p. r = Panic p \<Longrightarrow> Q p) \<Longrightarrow> panics_in Q (io_res r)"
  by (simp add: panics_in_def io_res_def)

lemma panics_context [panics_intro]: "panics_in Q m \<Longrightarrow> panics_in Q (io_context msg m)"
  by (auto simp: io_context_def intro: panics_intro)

lemma panics_for [panics_intro]:
  "(\<And>x. x \<in> set xs \<Longrightarrow> panics_in Q (f x)) \<Longrightarrow> panics_in Q (io_for xs f)"
  by (induction xs) (auto intro: panics_intro)

lemma panics_map [panics_intro]:
  "(\<And>x. x \<in> set xs \<Longrightarrow> panics_in Q (f x)) \<Longrightarrow> panics_in Q (io_map f xs)"
  by (induction xs) (auto intro: panics_intro)

lemma panics_if [panics_intro]:
  "(b \<Longrightarrow> panics_in Q m) \<Longrightarrow> (\<not> b \<Longrightarrow> panics_in Q n) \<Longrightarrow> panics_in Q (if b then m else n)"
  by simp

lemma panics_case_option [panics_intro]:
  "panics_in Q m \<Longrightarrow> (\<And>x. panics_in Q (f x)) \<Longrightarrow> panics_in Q (case v of None \<Rightarrow> m | Some x \<Rightarrow> f x)"
  by (cases v) simp_all

section \<open>What an operation returns\<close>

text \<open>\<open>returns Q m\<close>: whatever the outside world does, a value that \<open>m\<close> returns satisfies \<open>Q\<close>.\<close>

definition returns :: "('a \<Rightarrow> bool) \<Rightarrow> ('w, 'a) io \<Rightarrow> bool" where
  "returns Q m \<longleftrightarrow> (\<forall>s a s'. m s = (Ok a, s') \<longrightarrow> Q a)"

named_theorems returns_intro "how a returned value comes about"

lemma returnsD: "returns Q m \<Longrightarrow> m s = (Ok a, s') \<Longrightarrow> Q a"
  unfolding returns_def by blast

lemma returns_return [returns_intro]: "Q a \<Longrightarrow> returns Q (io_return a)"
  by (simp add: returns_def io_return_def)

lemma returns_stop [returns_intro]: "returns Q (io_fail e)" "returns Q (io_panic p)"
  by (simp_all add: returns_def io_fail_def io_panic_def)

lemma returns_bind [returns_intro]: "(\<And>a. returns Q (f a)) \<Longrightarrow> returns Q (io_bind m f)"
  unfolding returns_def io_bind_Ok_iff by blast

lemma returns_match [returns_intro]:
  "(\<And>a. returns Q (f a)) \<Longrightarrow> (\<And>e. returns Q (g e)) \<Longrightarrow> returns Q (io_match m f g)"
  unfolding returns_def io_match_def by (auto split: prod.splits res.splits)

lemma returns_if [returns_intro]:
  "(b \<Longrightarrow> returns Q m) \<Longrightarrow> (\<not> b \<Longrightarrow> returns Q n) \<Longrightarrow> returns Q (if b then m else n)"
  by simp

lemma returns_case_option [returns_intro]:
  "(v = None \<Longrightarrow> returns Q m) \<Longrightarrow> (\<And>x. v = Some x \<Longrightarrow> returns Q (f x)) \<Longrightarrow>
   returns Q (case v of None \<Rightarrow> m | Some x \<Rightarrow> f x)"
  by (cases v) simp_all

section \<open>What an operation leaves alone\<close>

text \<open>\<open>preserves f m\<close>: the component \<open>f\<close> of the state is the same after \<open>m\<close> as before.\<close>

definition preserves :: "('w st \<Rightarrow> 'b) \<Rightarrow> ('w, 'a) io \<Rightarrow> bool" where
  "preserves f m \<longleftrightarrow> (\<forall>s. f (snd (m s)) = f s)"

named_theorems preserves_intro "how sequencing and the operations preserve a component of the state"

lemma preservesD: "preserves f m \<Longrightarrow> m s = (r, s') \<Longrightarrow> f s' = f s"
  unfolding preserves_def by (metis snd_conv)

lemma preserves_simple [preserves_intro]:
  "preserves f (io_return a)" "preserves f (io_fail e)" "preserves f (io_panic p)"
  "preserves f (io_res r)"
  by (simp_all add: preserves_def io_return_def io_fail_def io_panic_def io_res_def)

lemma preserves_match [preserves_intro]:
  assumes "preserves f m" "\<And>a. preserves f (g a)" "\<And>e. preserves f (h e)"
  shows "preserves f (io_match m g h)"
  unfolding preserves_def
proof
  fix s
  obtain r s' where "m s = (r, s')" by fastforce
  with assms show "f (snd (io_match m g h s)) = f s"
    by (cases r) (auto simp: io_match_def preserves_def dest: preservesD [OF assms(1)])
qed

lemma preserves_bind [preserves_intro]:
  "preserves f m \<Longrightarrow> (\<And>a. preserves f (g a)) \<Longrightarrow> preserves f (io_bind m g)"
  by (auto simp: io_bind_match intro: preserves_intro)

lemma preserves_context [preserves_intro]: "preserves f m \<Longrightarrow> preserves f (io_context msg m)"
  by (auto simp: io_context_def intro: preserves_intro)

lemma preserves_for [preserves_intro]:
  "(\<And>x. preserves f (g x)) \<Longrightarrow> preserves f (io_for xs g)"
  by (induction xs) (auto intro: preserves_intro)

lemma preserves_if [preserves_intro]:
  "preserves f m \<Longrightarrow> preserves f n \<Longrightarrow> preserves f (if b then m else n)"
  by simp

lemma preserves_case_option [preserves_intro]:
  "preserves f m \<Longrightarrow> (\<And>x. preserves f (g x)) \<Longrightarrow> preserves f (case v of None \<Rightarrow> m | Some x \<Rightarrow> g x)"
  by (cases v) simp_all

text \<open>The components that belong to the connection and its observer, not to the pool.\<close>

definition comms :: "'w st \<Rightarrow> rstream \<times> wstream \<times> send_event list" where
  "comms s = (inp s, outp s, notices s)"

lemma comms_update [simp]: "comms (s\<lparr>env := w, cmds := cs\<rparr>) = comms s" "comms (s\<lparr>env := w\<rparr>) = comms s"
  by (simp_all add: comms_def)

lemma preserves_elapsed [preserves_intro]: "preserves comms (io_elapsed S)"
  by (simp add: preserves_def io_elapsed_def comms_def split: prod.split)

lemma preserves_notices_comms: "preserves comms m \<Longrightarrow> preserves notices m"
  by (simp add: preserves_def comms_def)

lemma comms_now [preserves_intro]: "preserves comms (io_now S)"
  by (simp add: preserves_def io_now_def split: prod.split)

section \<open>Operations that do not look at the connection\<close>

text \<open>
  \<open>offline m\<close>: \<open>m\<close> does the same whatever the connection and the observer are, and leaves them
  alone. The commands on the pool are of this kind.
\<close>

definition online :: "rstream \<Rightarrow> wstream \<Rightarrow> send_event list \<Rightarrow> 'w st \<Rightarrow> 'w st" where
  "online i o' n s = s\<lparr>inp := i, outp := o', notices := n\<rparr>"

lemma online_sel [simp]:
  "env (online i o' n s) = env s" "cmds (online i o' n s) = cmds s" "inp (online i o' n s) = i"
  "outp (online i o' n s) = o'" "notices (online i o' n s) = n"
  by (simp_all add: online_def)

lemma online_update [simp]:
  "online i o' n (online i2 o2 n2 s) = online i o' n s"
  "(online i o' n s)\<lparr>env := w\<rparr> = online i o' n (s\<lparr>env := w\<rparr>)"
  "(online i o' n s)\<lparr>cmds := c\<rparr> = online i o' n (s\<lparr>cmds := c\<rparr>)"
  "(online i o' n s)\<lparr>inp := i2\<rparr> = online i2 o' n s"
  "(online i o' n s)\<lparr>outp := o2\<rparr> = online i o2 n s"
  "(online i o' n s)\<lparr>notices := n2\<rparr> = online i o' n2 s"
  by (simp_all add: online_def)

lemma online_id: "online (inp s) (outp s) (notices s) s = s"
  by (simp add: online_def)

definition offline :: "('w, 'a) io \<Rightarrow> bool" where
  "offline m \<longleftrightarrow> (\<forall>i o' n s. m (online i o' n s) = apsnd (online i o' n) (m s))"

named_theorems offline_intro "which operations do not look at the connection"

lemma offlineD: "offline m \<Longrightarrow> m s = (r, s') \<Longrightarrow> m (online i o' n s) = (r, online i o' n s')"
  by (simp add: offline_def)

lemma offline_simple [offline_intro]:
  "offline (io_return a)" "offline (io_fail e)" "offline (io_panic p)" "offline (io_res r)"
  "offline (io_now S)" "offline (io_elapsed S)"
  by (simp_all add: offline_def io_return_def io_fail_def io_panic_def io_res_def io_now_def
      io_elapsed_def split: prod.split)

lemma offline_match [offline_intro]:
  assumes "offline m" "\<And>a. offline (f a)" "\<And>e. offline (g e)"
  shows "offline (io_match m f g)"
  unfolding offline_def
proof (intro allI)
  fix i o' n s
  obtain r s' where r: "m s = (r, s')" by fastforce
  then show "io_match m f g (online i o' n s) = apsnd (online i o' n) (io_match m f g s)"
    using assms(2,3) offlineD [OF assms(1) r] by (cases r) (simp_all add: io_match_def offline_def)
qed

lemma offline_bind [offline_intro]: "offline m \<Longrightarrow> (\<And>a. offline (f a)) \<Longrightarrow> offline (io_bind m f)"
  unfolding io_bind_match by (intro offline_intro)

lemma offline_context [offline_intro]: "offline m \<Longrightarrow> offline (io_context msg m)"
  unfolding io_context_def by (intro offline_intro)

lemma offline_for [offline_intro]: "(\<And>x. offline (f x)) \<Longrightarrow> offline (io_for xs f)"
  by (induction xs) (auto intro!: offline_intro)

lemma offline_if [offline_intro]: "offline m \<Longrightarrow> offline n \<Longrightarrow> offline (if b then m else n)"
  by simp

lemma offline_case_option [offline_intro]:
  "offline m \<Longrightarrow> (\<And>x. offline (g x)) \<Longrightarrow> offline (case v of None \<Rightarrow> m | Some x \<Rightarrow> g x)"
  by (cases v) simp_all

section \<open>What the observer is told\<close>

text \<open>\<open>reports Q m\<close>: the events that \<open>m\<close> reports, in this order, satisfy \<open>Q\<close>.\<close>

definition reports :: "(send_event list \<Rightarrow> bool) \<Rightarrow> ('w, 'a) io \<Rightarrow> bool" where
  "reports Q m \<longleftrightarrow> (\<forall>s. \<exists>evs. notices (snd (m s)) = notices s @ evs \<and> Q evs)"

named_theorems reports_intro "how a silent first step is skipped"

lemma reportsD: "reports Q m \<Longrightarrow> m s = (r, s') \<Longrightarrow> \<exists>evs. notices s' = notices s @ evs \<and> Q evs"
  unfolding reports_def by (metis snd_conv)

lemma reports_silent: "preserves notices m \<Longrightarrow> Q [] \<Longrightarrow> reports Q m"
  by (simp add: preserves_def reports_def)

lemma reports_match [reports_intro]:
  assumes "preserves notices m" "\<And>a. reports Q (f a)" "\<And>e. reports Q (g e)" "Q []"
  shows "reports Q (io_match m f g)"
  unfolding reports_def
proof
  fix s
  obtain r s' where r: "m s = (r, s')" by fastforce
  show "\<exists>evs. notices (snd (io_match m f g s)) = notices s @ evs \<and> Q evs"
    using assms(2-3) [unfolded reports_def, THEN spec, of _ s'] assms(4) preservesD [OF assms(1) r]
    by (cases r) (simp_all add: io_match_def r)
qed

lemma reports_bind [reports_intro]:
  "preserves notices m \<Longrightarrow> (\<And>a. reports Q (f a)) \<Longrightarrow> Q [] \<Longrightarrow> reports Q (io_bind m f)"
  unfolding io_bind_match by (rule reports_match) (auto intro: reports_silent preserves_intro)

lemma reports_if [reports_intro]:
  "reports Q m \<Longrightarrow> reports Q n \<Longrightarrow> reports Q (if b then m else n)"
  by simp

section \<open>A concrete world\<close>

text \<open>
  For witnesses: an outside world without state that answers every \<open>zfs\<close> command line with a
  fixed output, and a state of the program with nothing received and nothing sent.
\<close>

definition static_os :: "(string list \<Rightarrow> proc_out) \<Rightarrow> (string \<Rightarrow> string + zfs_json) \<Rightarrow> datetime \<Rightarrow> unit os" where
  "static_os answer json now =
     \<lparr>zfs_output = (\<lambda>argv w. (answer argv, w)),
      zfs_spawn_send = (\<lambda>argv w. (Inr \<lparr>rbytes = [1, 2, 3], rerr = None, rsizes = []\<rparr>, w)),
      zfs_receive_spawn = (\<lambda>argv w. (Inr None, w)),
      zfs_receive_finish = (\<lambda>argv bs w. (answer argv, w)),
      utc_now = (\<lambda>w. (now, w)),
      parse_zfs_json = json,
      ssh_spawn = (\<lambda>argv w. (Inr (\<lparr>rbytes = [], rerr = None, rsizes = []\<rparr>, \<lparr>wbytes = [], wcap = None\<rparr>), w)),
      elapsed_secs = (\<lambda>w. (Fin 1, w)),
      trace_logged = False\<rparr>"

lemma static_os_sel [simp]:
  "zfs_output (static_os answer json now) argv w = (answer argv, w)"
  "zfs_spawn_send (static_os answer json now) argv w =
     (Inr \<lparr>rbytes = [1, 2, 3], rerr = None, rsizes = []\<rparr>, w)"
  "zfs_receive_spawn (static_os answer json now) argv w = (Inr None, w)"
  "zfs_receive_finish (static_os answer json now) argv bs w = (answer argv, w)"
  "utc_now (static_os answer json now) w = (now, w)"
  "parse_zfs_json (static_os answer json now) = json"
  "ssh_spawn (static_os answer json now) argv w =
     (Inr (\<lparr>rbytes = [], rerr = None, rsizes = []\<rparr>, \<lparr>wbytes = [], wcap = None\<rparr>), w)"
  "elapsed_secs (static_os answer json now) w = (Fin 1, w)"
  "\<not> trace_logged (static_os answer json now)"
  by (simp_all add: static_os_def)

definition st0 :: "unit st" where
  "st0 = \<lparr>env = (), cmds = [], inp = \<lparr>rbytes = [], rerr = None, rsizes = []\<rparr>,
          outp = \<lparr>wbytes = [], wcap = None\<rparr>, notices = []\<rparr>"

end
