(* ===== verification/Streams.thy ===== *)
theory Streams
  imports World
begin

text \<open>
  Byte streams: the operations of \<open>AsyncRead\<close>, \<open>AsyncBufRead\<close> and \<open>AsyncWrite\<close> that the code
  uses (\<open>read\<close>, \<open>read_exact\<close>, \<open>read_line\<close>, \<open>write_all\<close>) on the sources and sinks of theory
  \<open>World\<close>, UTF-8 validity, and the lifting of stream operations to the two halves of the
  protocol connection.
\<close>

section \<open>Reading\<close>

definition early_eof :: string where
  "early_eof = ''early eof''"

text \<open>\<open>read\<close> into a buffer of \<open>n\<close> bytes: nothing at the end of file, else at least one byte.\<close>

definition read_some :: "nat \<Rightarrow> rstream \<Rightarrow> (string + u8 list) \<times> rstream" where
  "read_some n r =
     (if n = 0 then (Inr [], r)
      else if rbytes r = [] then (case rerr r of Some e \<Rightarrow> (Inl e, r) | None \<Rightarrow> (Inr [], r))
      else let k = (case rsizes r of [] \<Rightarrow> n | m # ms \<Rightarrow> max 1 (min n m))
           in (Inr (take k (rbytes r)), r\<lparr>rbytes := drop k (rbytes r), rsizes := tl (rsizes r)\<rparr>))"

lemma read_some_less: "read_some n r = (Inr bs, r') \<Longrightarrow> bs \<noteq> [] \<Longrightarrow> length (rbytes r') < length (rbytes r)"
  by (auto simp: read_some_def Let_def split: if_splits option.splits list.splits)

lemma read_some_Inr:
  assumes "read_some n r = (Inr bs, r')"
  shows "rbytes r = bs @ rbytes r'" "rerr r' = rerr r" "length bs \<le> n"
    "bs = [] \<longleftrightarrow> n = 0 \<or> rbytes r = [] \<and> rerr r = None"
  using assms
  by (auto simp: read_some_def Let_def split: if_splits option.splits list.splits)

lemma read_some_Inl:
  assumes "read_some n r = (Inl e, r')"
  shows "r' = r" "rbytes r = []" "rerr r = Some e" "0 < n"
  using assms
  by (auto simp: read_some_def Let_def split: if_splits option.splits list.splits)

text \<open>\<open>read_exact\<close>: all bytes or an error; what was read before the error is gone.\<close>

definition read_exact :: "nat \<Rightarrow> rstream \<Rightarrow> (string + u8 list) \<times> rstream" where
  "read_exact n r =
     (if n \<le> length (rbytes r)
      then (Inr (take n (rbytes r)), r\<lparr>rbytes := drop n (rbytes r)\<rparr>)
      else (Inl (case rerr r of Some e \<Rightarrow> e | None \<Rightarrow> early_eof), r\<lparr>rbytes := []\<rparr>))"

section \<open>UTF-8\<close>

definition cont_byte :: "nat \<Rightarrow> bool" where
  "cont_byte b \<longleftrightarrow> 128 \<le> b \<and> b \<le> 191"

text \<open>
  Well-formed UTF-8 (Unicode, Table 3-7), on the byte values: how many bytes the first
  character has, if it is well formed.
\<close>

definition utf8_len :: "nat list \<Rightarrow> nat option" where
  "utf8_len xs =
     (case xs of
        [] \<Rightarrow> None
      | a # r \<Rightarrow>
          if a < 128 then Some 1
          else if 194 \<le> a \<and> a \<le> 223
          then (case r of b # _ \<Rightarrow> if cont_byte b then Some 2 else None | _ \<Rightarrow> None)
          else if 224 \<le> a \<and> a \<le> 239
          then (case r of
                  b # c # _ \<Rightarrow>
                    if (if a = 224 then 160 \<le> b \<and> b \<le> 191
                        else if a = 237 then 128 \<le> b \<and> b \<le> 159 else cont_byte b) \<and> cont_byte c
                    then Some 3 else None
                | _ \<Rightarrow> None)
          else if 240 \<le> a \<and> a \<le> 244
          then (case r of
                  b # c # d # _ \<Rightarrow>
                    if (if a = 240 then 144 \<le> b \<and> b \<le> 191
                        else if a = 244 then 128 \<le> b \<and> b \<le> 143 else cont_byte b) \<and>
                       cont_byte c \<and> cont_byte d
                    then Some 4 else None
                | _ \<Rightarrow> None)
          else None)"

lemma utf8_len_bounds: "utf8_len xs = Some n \<Longrightarrow> 0 < n \<and> n \<le> length xs"
  by (auto simp: utf8_len_def split: list.splits if_splits)

lemma utf8_len_append: "utf8_len xs = Some n \<Longrightarrow> utf8_len (xs @ ys) = Some n"
  by (cases xs; cases "tl xs"; cases "tl (tl xs)"; cases "tl (tl (tl xs))")
    (simp_all add: utf8_len_def split: if_split_asm)

function utf8_ok :: "nat list \<Rightarrow> bool" where
  "utf8_ok xs =
     (xs = [] \<or> (case utf8_len xs of None \<Rightarrow> False | Some n \<Rightarrow> utf8_ok (drop n xs)))"
  by pat_completeness auto
termination
  by (relation "measure length") (auto dest: utf8_len_bounds)

declare utf8_ok.simps [simp del]

definition utf8_valid :: "string \<Rightarrow> bool" where
  "utf8_valid s = utf8_ok (map of_char s)"

lemma utf8_ok_Nil [simp]: "utf8_ok []"
  by (simp add: utf8_ok.simps)

lemma utf8_ok_ascii [simp]: "x < 128 \<Longrightarrow> utf8_ok (x # xs) = utf8_ok xs"
  by (simp add: utf8_ok.simps [of "x # xs"] utf8_len_def)

lemma utf8_ok_append: "utf8_ok xs \<Longrightarrow> utf8_ok (xs @ ys) = utf8_ok ys"
proof (induction xs rule: utf8_ok.induct)
  case (1 xs)
  show ?case
  proof (cases "xs = []")
    case False
    with 1 obtain n where n: "utf8_len xs = Some n" "utf8_ok (drop n xs)"
      using utf8_ok.simps [of xs] by (auto split: option.splits)
    then have "utf8_ok (drop n xs @ ys) = utf8_ok ys"
      using 1 False by simp
    then show ?thesis
      using utf8_ok.simps [of "xs @ ys"] utf8_len_append [OF n(1)] utf8_len_bounds [OF n(1)] False by simp
  qed simp
qed

lemma utf8_valid_ascii:
  assumes "\<And>c. c \<in> set s \<Longrightarrow> of_char c < (128::nat)"
  shows "utf8_valid s"
  using assms unfolding utf8_valid_def by (induction s) simp_all

lemma utf8_valid_append: "utf8_valid s \<Longrightarrow> utf8_valid (s @ t) = utf8_valid t"
  by (simp add: utf8_valid_def utf8_ok_append)

lemma utf8_valid_Nil [simp]: "utf8_valid []"
  by (simp add: utf8_valid_def)

lemma utf8_valid_newline [simp]: "utf8_valid [newline]"
  by (simp add: utf8_valid_def)

section \<open>Lines\<close>

text \<open>
  \<open>read_line\<close>: up to and including the next newline, or to the end of file; an error when the
  source fails before that or the bytes are not UTF-8. Nothing at all at the end of file.
\<close>

definition newline_byte :: u8 where
  "newline_byte = byte_of_char newline"

definition read_line :: "rstream \<Rightarrow> (string + string) \<times> rstream" where
  "read_line r =
     (let body = takeWhile (\<lambda>b. b \<noteq> newline_byte) (rbytes r);
          rest = dropWhile (\<lambda>b. b \<noteq> newline_byte) (rbytes r);
          finish = (\<lambda>bs r'. if utf8_valid (str_of_bytes bs) then (Inr (str_of_bytes bs), r')
                            else (Inl ''stream did not contain valid UTF-8'', r'))
      in case rest of
           b # rest' \<Rightarrow> finish (body @ [b]) (r\<lparr>rbytes := rest'\<rparr>)
         | [] \<Rightarrow> (case rerr r of
                   Some e \<Rightarrow> (Inl e, r\<lparr>rbytes := []\<rparr>)
                 | None \<Rightarrow> finish body (r\<lparr>rbytes := []\<rparr>)))"

lemma char_of_byte_newline [simp]: "char_of_byte newline_byte = newline"
  by (simp add: newline_byte_def)

lemma read_line_message:
  assumes "newline \<notin> set s" "utf8_valid s" "rbytes r = bytes_of_str s @ newline_byte # rest"
  shows "read_line r = (Inr (s @ [newline]), r\<lparr>rbytes := rest\<rparr>)"
proof -
  let ?p = "\<lambda>b. b \<noteq> newline_byte"
  have all: "\<And>b. b \<in> set (bytes_of_str s) \<Longrightarrow> ?p b"
    using assms(1) by (auto simp: newline_byte_def)
  have "takeWhile ?p (rbytes r) = bytes_of_str s" "dropWhile ?p (rbytes r) = newline_byte # rest"
    using takeWhile_append2 [of "bytes_of_str s" ?p, OF all]
      dropWhile_append2 [of "bytes_of_str s" ?p, OF all] by (simp_all add: assms(3))
  moreover have "utf8_valid (s @ [newline])"
    using assms(2) by (simp add: utf8_valid_append)
  ultimately show ?thesis
    by (simp add: read_line_def Let_def comp_def)
qed

section \<open>Writing\<close>

definition broken_pipe :: string where
  "broken_pipe = ''Broken pipe (os error 32)''"

text \<open>\<open>write_all\<close>: the error, if any, and the sink afterwards.\<close>

definition write_all :: "u8 list \<Rightarrow> wstream \<Rightarrow> string option \<times> wstream" where
  "write_all bs w =
     (case wcap w of
        None \<Rightarrow> (None, w\<lparr>wbytes := wbytes w @ bs\<rparr>)
      | Some c \<Rightarrow>
          if length bs \<le> c
          then (None, w\<lparr>wbytes := wbytes w @ bs, wcap := Some (c - length bs)\<rparr>)
          else (Some broken_pipe, w\<lparr>wbytes := wbytes w @ take c bs, wcap := Some 0\<rparr>))"

lemma write_all_unlimited [simp]:
  "wcap w = None \<Longrightarrow> write_all bs w = (None, w\<lparr>wbytes := wbytes w @ bs\<rparr>)"
  by (simp add: write_all_def)

lemma write_all_prefix:
  "write_all bs w = (e, w') \<Longrightarrow> \<exists>cs. wbytes w' = wbytes w @ cs \<and> prefix cs bs \<and> (e = None \<longrightarrow> cs = bs)"
  by (auto simp: write_all_def take_is_prefix split: option.splits if_splits)

section \<open>The connection\<close>

definition io_recv :: "(rstream \<Rightarrow> 'a res \<times> rstream) \<Rightarrow> ('w, 'a) io" where
  "io_recv f s = (let (x, r) = f (inp s) in (x, s\<lparr>inp := r\<rparr>))"


definition io_xmit :: "(wstream \<Rightarrow> 'a res \<times> wstream) \<Rightarrow> ('w, 'a) io" where
  "io_xmit f s = (let (x, w) = f (outp s) in (x, s\<lparr>outp := w\<rparr>))"

lemma notices_connection [preserves_intro]:
  "preserves notices (io_recv f)" "preserves notices (io_xmit g)"
  by (simp_all add: preserves_def io_recv_def io_xmit_def split: prod.split)

text \<open>\<open>appends m\<close>: what was written to the connection stays, \<open>m\<close> only writes behind it.\<close>

definition appends :: "('w, 'a) io \<Rightarrow> bool" where
  "appends m \<longleftrightarrow> (\<forall>s. prefix (wbytes (outp s)) (wbytes (outp (snd (m s)))))"

named_theorems appends_intro "which operations only append to the connection"

lemma appendsD: "appends m \<Longrightarrow> m s = (r, s') \<Longrightarrow> prefix (wbytes (outp s)) (wbytes (outp s'))"
  unfolding appends_def by (metis snd_conv)

lemma appends_same: "preserves outp m \<Longrightarrow> appends m"
  by (simp add: appends_def preserves_def)

lemma appends_offline:
  assumes "offline m"
  shows "appends m"
  unfolding appends_def
proof
  fix s
  obtain r s' where r: "m s = (r, s')" by fastforce
  have "m (online (inp s) (outp s) (notices s) s) = (r, online (inp s) (outp s) (notices s) s')"
    by (rule offlineD [OF assms r])
  with r have "s' = online (inp s) (outp s) (notices s) s'" by (simp add: online_id)
  then have "outp s' = outp s" by (metis online_sel(4))
  with r show "prefix (wbytes (outp s)) (wbytes (outp (snd (m s))))" by simp
qed

lemma appends_match [appends_intro]:
  assumes "appends m" "\<And>a. appends (f a)" "\<And>e. appends (g e)"
  shows "appends (io_match m f g)"
  unfolding appends_def
proof
  fix s
  obtain r s' where r: "m s = (r, s')" by fastforce
  then show "prefix (wbytes (outp s)) (wbytes (outp (snd (io_match m f g s))))"
    using appendsD [OF assms(1) r] assms(2,3) [unfolded appends_def]
    by (cases r) (auto simp: io_match_def intro: prefix_order.trans)
qed

lemma appends_simple [appends_intro]:
  "appends (io_return a)" "appends (io_fail e)" "appends (io_panic p)" "appends (io_res r)"
  "appends (io_recv f)" "appends (io_notice ev)" "appends (io_elapsed S)"
  by (simp_all add: appends_def io_return_def io_fail_def io_panic_def io_res_def io_recv_def
      io_notice_def io_elapsed_def split: prod.split)

lemma appends_bind [appends_intro]: "appends m \<Longrightarrow> (\<And>a. appends (f a)) \<Longrightarrow> appends (io_bind m f)"
  unfolding io_bind_match by (intro appends_intro)

lemma appends_context [appends_intro]: "appends m \<Longrightarrow> appends (io_context msg m)"
  unfolding io_context_def by (intro appends_intro)

lemma appends_if [appends_intro]: "appends m \<Longrightarrow> appends n \<Longrightarrow> appends (if b then m else n)"
  by simp

lemma appends_case_option [appends_intro]:
  "appends m \<Longrightarrow> (\<And>x. appends (g x)) \<Longrightarrow> appends (case v of None \<Rightarrow> m | Some x \<Rightarrow> g x)"
  by (cases v) simp_all

lemma appends_xmit:
  "(\<And>w. prefix (wbytes w) (wbytes (snd (f w)))) \<Longrightarrow> appends (io_xmit f)"
  by (simp add: appends_def io_xmit_def split: prod.split) (metis snd_conv)

lemma emits_recv [emits_intro]: "emits P (io_recv f)"
  by (simp add: emits_same_cmds io_recv_def split: prod.split)

lemma emits_xmit [emits_intro]: "emits P (io_xmit f)"
  by (simp add: emits_same_cmds io_xmit_def split: prod.split)

end
