(* ===== verification/Chrono.thy ===== *)
theory Chrono
  imports Streams
begin

text \<open>
  The date and time functions of the \<open>chrono\<close> crate, which are not part of the repository: a
  record of functions that every definition using them takes as an argument. The theorems hold
  for every such record, or under hypotheses that name the documented behaviour they need. The
  second part is one concrete calendar, the proleptic Gregorian one with timestamps of the form
  \<open>YYYY-MM-DDThh:mm:ssZ\<close>; it only serves to instantiate the parameter in witnesses.
\<close>

section \<open>The interface\<close>

text \<open>
  \<open>parse_rfc3339\<close> is \<open>DateTime::parse_from_rfc3339\<close> followed by \<open>to_utc\<close>; \<open>format_utc\<close> is
  \<open>DateTime<Utc>::format\<close> with a format string; \<open>to_rfc3339\<close>, \<open>year\<close>, \<open>month\<close> and \<open>iso_week\<close>
  (ISO year and week number) are the methods of these names. \<open>duration_days\<close> is
  \<open>Duration::days\<close> and \<open>minus_duration\<close> is subtraction; both panic outside chrono's range,
  which is \<open>None\<close> here.
\<close>

record chrono =
  parse_rfc3339 :: "string \<Rightarrow> datetime option"
  format_utc :: "string \<Rightarrow> datetime \<Rightarrow> string"
  to_rfc3339 :: "datetime \<Rightarrow> string"
  year :: "datetime \<Rightarrow> int"
  month :: "datetime \<Rightarrow> nat"
  iso_week :: "datetime \<Rightarrow> int \<times> nat"
  duration_days :: "int \<Rightarrow> duration option"
  minus_duration :: "datetime \<Rightarrow> duration \<Rightarrow> datetime option"

section \<open>A concrete calendar\<close>

definition civil_month_day :: "int \<Rightarrow> int \<Rightarrow> int \<Rightarrow> int \<times> int \<times> int" where
  "civil_month_day y doy mp =
     (if mp < 10 then y else y + 1, if mp < 10 then mp + 3 else mp - 9,
      doy - (153 * mp + 2) div 5 + 1)"

definition civil_of_doy :: "int \<Rightarrow> int \<Rightarrow> int \<times> int \<times> int" where
  "civil_of_doy y doy = civil_month_day y doy ((5 * doy + 2) div 153)"

definition civil_of_yoe :: "int \<Rightarrow> int \<Rightarrow> int \<Rightarrow> int \<times> int \<times> int" where
  "civil_of_yoe era doe yoe =
     civil_of_doy (yoe + era * 400) (doe - (365 * yoe + yoe div 4 - yoe div 100))"

definition civil_of_doe :: "int \<Rightarrow> int \<Rightarrow> int \<times> int \<times> int" where
  "civil_of_doe era doe =
     civil_of_yoe era doe ((doe - doe div 1460 + doe div 36524 - doe div 146096) div 365)"

definition civil_from_days :: "int \<Rightarrow> int \<times> int \<times> int" where
  "civil_from_days z = civil_of_doe ((z + 719468) div 146097) ((z + 719468) mod 146097)"

definition days_of_march_year :: "int \<Rightarrow> int \<Rightarrow> int \<Rightarrow> int" where
  "days_of_march_year y yoe doy =
     (y div 400) * 146097 + yoe * 365 + yoe div 4 - yoe div 100 + doy - 719468"

definition days_from_civil :: "int \<Rightarrow> int \<Rightarrow> int \<Rightarrow> int" where
  "days_from_civil y m d =
     days_of_march_year (if m \<le> 2 then y - 1 else y) ((if m \<le> 2 then y - 1 else y) mod 400)
       ((153 * ((m + 9) mod 12) + 2) div 5 + d - 1)"

definition day_number :: "datetime \<Rightarrow> int" where
  "day_number t = nanos t div day_nanos"

definition iso_week_of_thursday :: "int \<Rightarrow> int \<Rightarrow> int \<times> nat" where
  "iso_week_of_thursday thursday y = (y, nat ((thursday - days_from_civil y 1 1) div 7 + 1))"

definition iso_week_of_day :: "int \<Rightarrow> int \<times> nat" where
  "iso_week_of_day z =
     iso_week_of_thursday (z - (z + 3) mod 7 + 3) (fst (civil_from_days (z - (z + 3) mod 7 + 3)))"

definition greg_iso_week :: "datetime \<Rightarrow> int \<times> nat" where
  "greg_iso_week t = iso_week_of_day (day_number t)"

definition pad2 :: "int \<Rightarrow> string" where
  "pad2 n = pad_left 2 (CHR ''0'') (nat_str (nat n))"

definition format_date :: "int \<times> int \<times> int \<Rightarrow> string" where
  "format_date ymd =
     (case ymd of (y, m, d) \<Rightarrow>
        pad_left 4 (CHR ''0'') (nat_str (nat y)) @ ''-'' @ pad2 m @ ''-'' @ pad2 d)"

definition format_time :: "int \<Rightarrow> string" where
  "format_time s = pad2 (s div 3600) @ '':'' @ pad2 (s div 60 mod 60) @ '':'' @ pad2 (s mod 60)"

definition greg_format :: "datetime \<Rightarrow> string" where
  "greg_format t =
     format_date (civil_from_days (day_number t)) @ ''T'' @
     format_time ((nanos t mod day_nanos) div 1000000000) @ ''Z''"

definition field :: "nat \<Rightarrow> nat \<Rightarrow> string \<Rightarrow> int option" where
  "field from len s = map_option int (digits_val 0 (take len (drop from s)))"

definition greg_parse :: "string \<Rightarrow> datetime option" where
  "greg_parse s =
     (if length s = 20 \<and> s ! 4 = CHR ''-'' \<and> s ! 7 = CHR ''-'' \<and> s ! 10 = CHR ''T'' \<and>
         s ! 13 = CHR '':'' \<and> s ! 16 = CHR '':'' \<and> s ! 19 = CHR ''Z''
      then (case (field 0 4 s, field 5 2 s, field 8 2 s, field 11 2 s, field 14 2 s, field 17 2 s) of
              (Some y, Some m, Some d, Some h, Some i, Some c) \<Rightarrow>
                if 1 \<le> m \<and> m \<le> 12 \<and> 1 \<le> d \<and> d \<le> 31 \<and> h < 24 \<and> i < 60 \<and> c < 60
                then Some (DateTime (days_from_civil y m d * day_nanos +
                       (h * 3600 + i * 60 + c) * 1000000000))
                else None
            | _ \<Rightarrow> None)
      else None)"

definition gregorian :: chrono where
  "gregorian =
     \<lparr>parse_rfc3339 = greg_parse,
      format_utc = (\<lambda>fmt. greg_format),
      to_rfc3339 = greg_format,
      year = (\<lambda>t. fst (civil_from_days (day_number t))),
      month = (\<lambda>t. nat (fst (snd (civil_from_days (day_number t))))),
      iso_week = greg_iso_week,
      duration_days = (\<lambda>d. if \<bar>d\<bar> \<le> 106751991167 then Some (d * day_nanos) else None),
      minus_duration = (\<lambda>t d.
        if \<bar>nanos t - d\<bar> \<le> 95000000 * day_nanos then Some (DateTime (nanos t - d)) else None)\<rparr>"

lemma gregorian_sel [simp]:
  "parse_rfc3339 gregorian = greg_parse"
  "format_utc gregorian fmt = greg_format"
  "to_rfc3339 gregorian = greg_format"
  "year gregorian t = fst (civil_from_days (day_number t))"
  "month gregorian t = nat (fst (snd (civil_from_days (day_number t))))"
  "iso_week gregorian = greg_iso_week"
  "duration_days gregorian d = (if \<bar>d\<bar> \<le> 106751991167 then Some (d * day_nanos) else None)"
  "minus_duration gregorian t e =
     (if \<bar>nanos t - e\<bar> \<le> 95000000 * day_nanos then Some (DateTime (nanos t - e)) else None)"
  by (simp_all add: gregorian_def)

text \<open>What the simplifier needs to compute with the calendar on literals.\<close>

lemmas calendar_eval =
  greg_parse_def greg_format_def format_date_def format_time_def greg_iso_week_def
  iso_week_of_day_def iso_week_of_thursday_def civil_from_days_def civil_of_doe_def
  civil_of_yoe_def civil_of_doy_def civil_month_day_def days_from_civil_def
  days_of_march_year_def day_number_def day_nanos_def pad2_def pad_left_def field_def
  nat_str.simps digit_char_def digit_val_def

end
