(* ===== verification/Naming.thy ===== *)
theory Naming
  imports Chrono
begin

text \<open>
  Snapshot names (\<open>src/snapshot/naming.rs\<close>): \<open><dataset>@zrb-<timestamp>\<close>. The date and time
  functions of the \<open>chrono\<close> crate are a parameter, the record of theory \<open>Chrono\<close>.
\<close>

section \<open>The functions of the module\<close>

definition PREFIX :: string where
  "PREFIX = ''zrb-''"

definition TIMESTAMP_FMT :: string where
  "TIMESTAMP_FMT = ''%Y-%m-%dT%H:%M:%SZ''"

definition new_name :: "chrono \<Rightarrow> string \<Rightarrow> datetime \<Rightarrow> string" where
  "new_name C dataset now = dataset @ ''@'' @ PREFIX @ format_utc C TIMESTAMP_FMT now"

definition parse :: "chrono \<Rightarrow> string \<Rightarrow> datetime option" where
  "parse C name =
     (case split_once (CHR ''@'') name of
        None \<Rightarrow> None
      | Some (dataset, snap) \<Rightarrow>
          (case strip_prefix PREFIX snap of
             None \<Rightarrow> None
           | Some ts_str \<Rightarrow> parse_rfc3339 C ts_str))"

definition is_zrb :: "chrono \<Rightarrow> string \<Rightarrow> bool" where
  "is_zrb C name = (parse C name \<noteq> None)"

definition filter_zrb :: "chrono \<Rightarrow> string list \<Rightarrow> string list" where
  "filter_zrb C names = filter (is_zrb C) names"

text \<open>\<open>sort_by_key\<close> is a stable sort; \<open>None\<close> sorts before every timestamp.\<close>

definition sort_chronological :: "chrono \<Rightarrow> string list \<Rightarrow> string list" where
  "sort_chronological C names = sort_key (parse C) names"

section \<open>What a parsed name looks like\<close>

lemma parse_Some_iff:
  "parse C name = Some t \<longleftrightarrow>
     (\<exists>ds ts. name = ds @ ''@'' @ PREFIX @ ts \<and> CHR ''@'' \<notin> set ds \<and> parse_rfc3339 C ts = Some t)"
proof
  assume "parse C name = Some t"
  then show "\<exists>ds ts. name = ds @ ''@'' @ PREFIX @ ts \<and> CHR ''@'' \<notin> set ds \<and>
      parse_rfc3339 C ts = Some t"
    by (auto simp: parse_def split_once_Some_iff strip_prefix_Some_iff split: option.splits) blast
next
  assume "\<exists>ds ts. name = ds @ ''@'' @ PREFIX @ ts \<and> CHR ''@'' \<notin> set ds \<and>
      parse_rfc3339 C ts = Some t"
  then show "parse C name = Some t" by (auto simp: parse_def)
qed

lemma parse_SomeE:
  assumes "parse C name = Some t"
  obtains ds ts where "name = ds @ ''@'' @ PREFIX @ ts" "CHR ''@'' \<notin> set ds"
    "parse_rfc3339 C ts = Some t"
  using assms by (auto simp: parse_Some_iff)

lemma parse_new_name_gen:
  assumes "CHR ''@'' \<notin> set ds"
  shows "parse C (new_name C ds t) = parse_rfc3339 C (format_utc C TIMESTAMP_FMT t)"
  using assms by (simp add: parse_def new_name_def)

lemma set_filter_zrb [simp]: "set (filter_zrb C xs) = {x \<in> set xs. is_zrb C x}"
  by (auto simp: filter_zrb_def)

section \<open>The interface its clients use\<close>

text \<open>
  What \<open>ops::list\<close>, the handshake and the Transfer Hold code rely on: \<open>managed\<close> selects the
  names with a timestamp, and \<open>chrono_sort\<close> only reorders, by timestamp.
\<close>

locale snapshot_order =
  fixes stamp :: "string \<Rightarrow> datetime option"
    and managed :: "string list \<Rightarrow> string list"
    and chrono_sort :: "string list \<Rightarrow> string list"
  assumes managed_eq: "managed xs = filter (\<lambda>x. stamp x \<noteq> None) xs"
    and sort_perm: "mset (chrono_sort xs) = mset xs"
    and sort_sorted: "sorted (map stamp (chrono_sort xs))"
    and sort_stable: "filter (\<lambda>x. stamp x = k) (chrono_sort xs) = filter (\<lambda>x. stamp x = k) xs"
begin

lemma sort_set: "set (chrono_sort xs) = set xs"
  by (metis sort_perm set_mset_mset)

lemma sort_Nil_iff: "chrono_sort xs = [] \<longleftrightarrow> xs = []"
  by (metis sort_set set_empty)

lemma last_in: "xs \<noteq> [] \<Longrightarrow> last (chrono_sort xs) \<in> set xs"
  by (metis last_in_set sort_set sort_Nil_iff)

lemma last_newest:
  assumes "x \<in> set xs"
  shows "stamp x \<le> stamp (last (chrono_sort xs))"
proof -
  let ?ys = "chrono_sort xs"
  from assms have "x \<in> set ?ys" by (simp add: sort_set)
  then obtain i where i: "i < length ?ys" "?ys ! i = x" by (auto simp: in_set_conv_nth)
  then have "map stamp ?ys ! i \<le> map stamp ?ys ! (length ?ys - 1)"
    by (intro sorted_nth_mono sort_sorted) auto
  moreover have "last ?ys = ?ys ! (length ?ys - 1)"
    using i by (intro last_conv_nth) auto
  ultimately show ?thesis using i by simp
qed

lemma newest_managed:
  assumes "managed xs \<noteq> []"
  shows "last (chrono_sort (managed xs)) \<in> set xs"
    and "stamp (last (chrono_sort (managed xs))) \<noteq> None"
    and "x \<in> set xs \<Longrightarrow> stamp x \<le> stamp (last (chrono_sort (managed xs)))"
proof -
  have "last (chrono_sort (managed xs)) \<in> set (managed xs)"
    using assms by (rule last_in)
  then show "last (chrono_sort (managed xs)) \<in> set xs"
    and "stamp (last (chrono_sort (managed xs))) \<noteq> None"
    by (simp_all add: managed_eq)
  show "stamp x \<le> stamp (last (chrono_sort (managed xs)))" if "x \<in> set xs"
  proof (cases "stamp x = None")
    case True
    then show ?thesis by simp
  next
    case False
    with that have "x \<in> set (managed xs)" by (simp add: managed_eq)
    then show ?thesis by (rule last_newest)
  qed
qed

end

lemma stable_sort_key_parse:
  "filter (\<lambda>x. parse C x = k) (sort_chronological C xs) = filter (\<lambda>x. parse C x = k) xs"
  using sort_key_stable [of "parse C" k xs] by (simp add: sort_chronological_def)

interpretation naming: snapshot_order "parse C" "filter_zrb C" "sort_chronological C" for C
proof unfold_locales
  show "filter_zrb C xs = filter (\<lambda>x. parse C x \<noteq> None) xs" for xs
    unfolding filter_zrb_def is_zrb_def ..
  show "mset (sort_chronological C xs) = mset xs" for xs
    by (simp add: sort_chronological_def)
  show "sorted (map (parse C) (sort_chronological C xs))" for xs
    by (simp add: sort_chronological_def)
qed (rule stable_sort_key_parse)

section \<open>Properties\<close>



end
