(* ===== verification/Zfs.thy ===== *)
theory Zfs
  imports Naming
begin

text \<open>
  The ZFS client (\<open>src/zfs/client.rs\<close>, \<open>src/zfs/schema.rs\<close>): every function builds the
  argument vector of one \<open>zfs\<close> process, runs it and interprets its output. The \<open>zfs\<close> program is
  the parameter \<open>S\<close>; its output is the text that \<open>from_utf8_lossy\<close> makes of it. Which commands
  each function can start is a lemma in the collection \<open>emits_intro\<close>.
\<close>

section \<open>Running a command\<close>

text \<open>\<open>str::contains\<close>.\<close>

fun str_contains :: "string \<Rightarrow> string \<Rightarrow> bool" where
  "str_contains p [] = (p = [])"
| "str_contains p (c # cs) = (prefix p (c # cs) \<or> str_contains p cs)"

definition is_dataset_not_found :: "err \<Rightarrow> bool" where
  "is_dataset_not_found e =
     (case e of CommandFailed stderr \<Rightarrow> str_contains ''dataset does not exist'' stderr | _ \<Rightarrow> False)"

definition run :: "'w os \<Rightarrow> string list \<Rightarrow> ('w, string) io" where
  "run S argv s =
     (let (out, w) = zfs_output S argv (env s);
          s' = s\<lparr>env := w, cmds := cmds s @ [argv]\<rparr>
      in case out of
           SpawnFailed e \<Rightarrow> (Err (Spawn e), s')
         | Exited success stdout stderr \<Rightarrow>
             if success then (Ok stdout, s') else (Err (CommandFailed stderr), s'))"

text \<open>\<open>run(cmd).map(|_| ())\<close>.\<close>

definition run_unit :: "'w os \<Rightarrow> string list \<Rightarrow> ('w, unit) io" where
  "run_unit S argv = io_bind (run S argv) (\<lambda>_. io_return ())"

definition io_result :: "err + 'a \<Rightarrow> ('w, 'a) io" where
  "io_result r = (case r of Inl e \<Rightarrow> io_fail e | Inr a \<Rightarrow> io_return a)"

section \<open>Decoding\<close>

definition parse_json :: "'w os \<Rightarrow> string \<Rightarrow> err + zfs_json" where
  "parse_json S stdout = map_sum JsonParse id (parse_zfs_json S stdout)"

definition decode_list_json :: "'w os \<Rightarrow> string \<Rightarrow> err + string list" where
  "decode_list_json S stdout = map_sum id (\<lambda>out. map fst (zo_datasets out)) (parse_json S stdout)"

definition decode_property_json ::
    "'w os \<Rightarrow> string \<Rightarrow> string \<Rightarrow> string \<Rightarrow> err + string option" where
  "decode_property_json S stdout property dataset =
     map_sum id
       (\<lambda>out. map_option pv_value
          (Option.bind (map_of (zo_datasets out) dataset) (\<lambda>d. map_of (di_properties d) property)))
       (parse_json S stdout)"

definition discover_key :: "string \<Rightarrow> string option" where
  "discover_key key =
     (case split_once (CHR ''@'') key of
        None \<Rightarrow> None
      | Some (dataset, snap) \<Rightarrow> if prefix ''zrb-'' snap then Some dataset else None)"

definition decode_discover_json :: "'w os \<Rightarrow> string \<Rightarrow> err + string list" where
  "decode_discover_json S stdout =
     map_sum id (\<lambda>out. dedup (sort (List.map_filter discover_key (map fst (zo_datasets out)))))
       (parse_json S stdout)"

definition map_token_value :: "string option \<Rightarrow> string option" where
  "map_token_value raw =
     (case raw of None \<Rightarrow> None | Some v \<Rightarrow> if v \<noteq> ''-'' \<and> v \<noteq> ''none'' then Some v else None)"

definition map_since_value :: "chrono \<Rightarrow> string option \<Rightarrow> datetime option" where
  "map_since_value C raw =
     (case raw of None \<Rightarrow> None | Some v \<Rightarrow> if v \<noteq> ''-'' then parse_rfc3339 C v else None)"

text \<open>Lines of \<open>zfs holds -H\<close>: snapshot, tag and time, separated by tabs.\<close>

definition parse_holds_output :: "string \<Rightarrow> string list" where
  "parse_holds_output output =
     List.map_filter
       (\<lambda>line. case splitn 3 tab line of _ # tag # _ \<Rightarrow> Some tag | _ \<Rightarrow> None) (lines output)"

definition parse_held_snapshots_for_tag :: "string \<Rightarrow> string \<Rightarrow> string list" where
  "parse_held_snapshots_for_tag output tag =
     List.map_filter
       (\<lambda>line. case splitn 3 tab line of
                 snap_name # hold_tag # _ \<Rightarrow> if hold_tag = tag then Some snap_name else None
               | _ \<Rightarrow> None)
       (lines output)"

text \<open>\<open>map.entry(k).or_default().push(v)\<close>.\<close>

definition push_entry :: "'k \<Rightarrow> 'v \<Rightarrow> ('k, 'v list) hmap \<Rightarrow> ('k, 'v list) hmap" where
  "push_entry k v m =
     AList.update k ((case map_of m k of None \<Rightarrow> [] | Some vs \<Rightarrow> vs) @ [v]) m"

definition holds_line :: "string \<Rightarrow> (string, string list) hmap \<Rightarrow> (string, string list) hmap" where
  "holds_line line m =
     (case splitn 3 tab line of
        snap_name # hold_tag # _ \<Rightarrow> push_entry snap_name hold_tag m
      | _ \<Rightarrow> m)"

definition read_holds :: "string \<Rightarrow> (string, string list) hmap" where
  "read_holds output = fold holds_line (lines output) []"

section \<open>The commands\<close>

definition create_snapshot :: "'w os \<Rightarrow> string \<Rightarrow> string \<Rightarrow> ('w, unit) io" where
  "create_snapshot S dataset snapshot_name =
     run_unit S [''snapshot'', dataset @ ''@'' @ snapshot_name]"

definition list_snapshots :: "'w os \<Rightarrow> string \<Rightarrow> ('w, string list) io" where
  "list_snapshots S dataset =
     io_match (run S [''list'', ''-t'', ''snapshot'', ''--json'', dataset])
       (\<lambda>stdout. io_result (decode_list_json S stdout))
       (\<lambda>e. if is_dataset_not_found e then io_return [] else io_fail e)"

definition guardrail :: "string \<Rightarrow> bool" where
  "guardrail snapshot \<longleftrightarrow>
     (case split_once (CHR ''@'') snapshot of
        None \<Rightarrow> False
      | Some (_, name) \<Rightarrow> prefix ''zrb-'' name) \<and>
     length (split_char (CHR ''@'') snapshot) = 2"

definition destroy_snapshot :: "'w os \<Rightarrow> string \<Rightarrow> ('w, unit) io" where
  "destroy_snapshot S snapshot =
     (if guardrail snapshot then run_unit S [''destroy'', snapshot]
      else io_panic (''Guardrail tripped: not a zrb snapshot: '' @ snapshot))"

text \<open>Starting \<open>zfs send\<close> with a piped standard output, which is the result.\<close>

definition spawn_send :: "'w os \<Rightarrow> string list \<Rightarrow> ('w, rstream) io" where
  "spawn_send S argv s =
     (let (out, w) = zfs_spawn_send S argv (env s);
          s' = s\<lparr>env := w, cmds := cmds s @ [argv]\<rparr>
      in case out of Inl e \<Rightarrow> (Err (Spawn e), s') | Inr r \<Rightarrow> (Ok r, s'))"

definition send_incremental ::
    "'w os \<Rightarrow> string option \<Rightarrow> string \<Rightarrow> string list \<Rightarrow> ('w, rstream) io" where
  "send_incremental S base snapshot opts =
     spawn_send S
       ([''send''] @ (case base of None \<Rightarrow> [] | Some b \<Rightarrow> [''-i'', b]) @ [snapshot] @ opts)"

text \<open>With trace logging the first 16 bytes of the token are logged before the process is started.\<close>

definition send_resume :: "'w os \<Rightarrow> string \<Rightarrow> string list \<Rightarrow> ('w, rstream) io" where
  "send_resume S token opts =
     (if trace_logged S \<and> \<not> is_char_boundary token (min (length token) 16) then io_panic slice_panic
      else spawn_send S ([''send'', ''-t'', token] @ opts))"

text \<open>A running \<open>zfs receive\<close>: its arguments, and its standard input.\<close>

record zfs_receive =
  zr_argv :: "string list"
  zr_stdin :: wstream

definition receive :: "'w os \<Rightarrow> string \<Rightarrow> string list \<Rightarrow> ('w, zfs_receive) io" where
  "receive S dataset opts s =
     (let argv = [''receive'', ''-s'', dataset] @ opts;
          (out, w) = zfs_receive_spawn S argv (env s);
          s' = s\<lparr>env := w, cmds := cmds s @ [argv]\<rparr>
      in case out of
           Inl e \<Rightarrow> (Err (Spawn e), s')
         | Inr cap \<Rightarrow> (Ok \<lparr>zr_argv = argv, zr_stdin = \<lparr>wbytes = [], wcap = cap\<rparr>\<rparr>, s'))"

definition finish :: "'w os \<Rightarrow> zfs_receive \<Rightarrow> ('w, unit) io" where
  "finish S zr s =
     (let (out, w) = zfs_receive_finish S (zr_argv zr) (wbytes (zr_stdin zr)) (env s);
          s' = s\<lparr>env := w\<rparr>
      in case out of
           SpawnFailed e \<Rightarrow> (Err (Spawn e), s')
         | Exited success stdout stderr \<Rightarrow>
             if success then (Ok (), s') else (Err (CommandFailed stderr), s'))"

definition abort_resume :: "'w os \<Rightarrow> string \<Rightarrow> ('w, unit) io" where
  "abort_resume S dataset = run_unit S [''receive'', ''-A'', dataset]"

definition get_resume_token :: "'w os \<Rightarrow> string \<Rightarrow> ('w, string option) io" where
  "get_resume_token S dataset =
     io_match (run S [''get'', ''--json'', ''receive_resume_token'', dataset])
       (\<lambda>stdout. io_bind (io_result (decode_property_json S stdout ''receive_resume_token'' dataset))
          (\<lambda>raw. io_return (map_token_value raw)))
       (\<lambda>e. if is_dataset_not_found e then io_return None else io_fail e)"

definition discover_datasets :: "'w os \<Rightarrow> ('w, string list) io" where
  "discover_datasets S =
     io_bind (run S [''list'', ''-t'', ''snapshot'', ''--json''])
       (\<lambda>output. io_result (decode_discover_json S output))"

definition get_resume_since :: "'w os \<Rightarrow> chrono \<Rightarrow> string \<Rightarrow> ('w, datetime option) io" where
  "get_resume_since S C dataset =
     io_match (run S [''get'', ''--json'', ''zrb:resume-since'', dataset])
       (\<lambda>stdout. io_bind (io_result (decode_property_json S stdout ''zrb:resume-since'' dataset))
          (\<lambda>raw. io_return (map_since_value C raw)))
       (\<lambda>e. if is_dataset_not_found e then io_return None else io_fail e)"

definition set_resume_since :: "'w os \<Rightarrow> chrono \<Rightarrow> string \<Rightarrow> datetime \<Rightarrow> ('w, unit) io" where
  "set_resume_since S C dataset ts =
     run_unit S [''set'', ''zrb:resume-since='' @ to_rfc3339 C ts, dataset]"

definition clear_resume_since :: "'w os \<Rightarrow> string \<Rightarrow> ('w, unit) io" where
  "clear_resume_since S dataset = run_unit S [''inherit'', ''zrb:resume-since'', dataset]"

definition hold_snapshot :: "'w os \<Rightarrow> string \<Rightarrow> string \<Rightarrow> ('w, unit) io" where
  "hold_snapshot S snapshot tag = run_unit S [''hold'', tag, snapshot]"

definition release_hold :: "'w os \<Rightarrow> string \<Rightarrow> string \<Rightarrow> ('w, unit) io" where
  "release_hold S snapshot tag =
     io_match (run S [''release'', tag, snapshot])
       (\<lambda>_. io_return ())
       (\<lambda>e. case e of
              CommandFailed stderr \<Rightarrow>
                if str_contains ''no such tag'' stderr then io_return () else io_fail e
            | _ \<Rightarrow> io_fail e)"

definition snapshot_holds :: "'w os \<Rightarrow> string \<Rightarrow> ('w, string list) io" where
  "snapshot_holds S snapshot =
     io_bind (run S [''holds'', ''-H'', snapshot]) (\<lambda>output. io_return (parse_holds_output output))"

definition find_held_snapshots_in :: "'w os \<Rightarrow> string list \<Rightarrow> string \<Rightarrow> ('w, string list) io" where
  "find_held_snapshots_in S snapshots tag =
     (if snapshots = [] then io_return []
      else io_bind (run S ([''holds'', ''-H''] @ snapshots))
             (\<lambda>output. io_return (parse_held_snapshots_for_tag output tag)))"

definition find_held_snapshots :: "'w os \<Rightarrow> string \<Rightarrow> string \<Rightarrow> ('w, string list) io" where
  "find_held_snapshots S dataset tag =
     io_bind (list_snapshots S dataset) (\<lambda>snapshots. find_held_snapshots_in S snapshots tag)"

text \<open>\<open>v.into_iter().next()\<close>.\<close>

definition first_of :: "'a list \<Rightarrow> 'a option" where
  "first_of xs = (case xs of [] \<Rightarrow> None | x # _ \<Rightarrow> Some x)"

definition find_held_snapshot :: "'w os \<Rightarrow> string \<Rightarrow> string \<Rightarrow> ('w, string option) io" where
  "find_held_snapshot S dataset tag =
     io_bind (find_held_snapshots S dataset tag) (\<lambda>v. io_return (first_of v))"

definition find_held_snapshot_in :: "'w os \<Rightarrow> string list \<Rightarrow> string \<Rightarrow> ('w, string option) io" where
  "find_held_snapshot_in S snapshots tag =
     io_bind (find_held_snapshots_in S snapshots tag) (\<lambda>v. io_return (first_of v))"

definition batch_snapshot_holds :: "'w os \<Rightarrow> string list \<Rightarrow> ('w, (string, string list) hmap) io" where
  "batch_snapshot_holds S snapshots =
     (if snapshots = [] then io_return []
      else io_bind (run S ([''holds'', ''-H''] @ snapshots))
             (\<lambda>output. io_return (read_holds output)))"

section \<open>Which processes the commands start\<close>

text \<open>Commands that only report.\<close>

definition read_only :: "string list \<Rightarrow> bool" where
  "read_only argv = (case argv of [] \<Rightarrow> False | c # _ \<Rightarrow> c \<in> {''list'', ''get'', ''holds''})"

lemma read_only_Cons [simp]: "read_only (c # cs) \<longleftrightarrow> c \<in> {''list'', ''get'', ''holds''}"
  by (simp add: read_only_def)

lemma emits_run [emits_intro]:
  assumes "P argv"
  shows "emits P (run S argv)"
proof (rule emitsI)
  fix s
  show "\<exists>cs. cmds (snd (run S argv s)) = cmds s @ cs \<and> list_all P cs"
    using assms by (intro exI [of _ "[argv]"])
      (simp add: run_def Let_def split: prod.split proc_out.split)
qed

lemma emits_spawn_send [emits_intro]:
  assumes "P argv"
  shows "emits P (spawn_send S argv)"
proof (rule emitsI)
  fix s
  show "\<exists>cs. cmds (snd (spawn_send S argv s)) = cmds s @ cs \<and> list_all P cs"
    using assms by (intro exI [of _ "[argv]"])
      (simp add: spawn_send_def Let_def split: prod.split sum.split)
qed

lemma emits_receive [emits_intro]:
  assumes "P ([''receive'', ''-s'', dataset] @ opts)"
  shows "emits P (receive S dataset opts)"
proof (rule emitsI)
  fix s
  show "\<exists>cs. cmds (snd (receive S dataset opts s)) = cmds s @ cs \<and> list_all P cs"
    using assms by (intro exI [of _ "[[''receive'', ''-s'', dataset] @ opts]"])
      (simp add: receive_def Let_def split: prod.split sum.split)
qed

lemma emits_finish [emits_intro]: "emits P (finish S zr)"
  by (rule emits_same_cmds) (simp add: finish_def Let_def split: prod.split proc_out.split)

lemma emits_result [emits_intro]: "emits P (io_result r)"
  by (cases r) (simp_all add: io_result_def emits_intro)

lemma emits_run_unit [emits_intro]: "P argv \<Longrightarrow> emits P (run_unit S argv)"
  by (simp add: run_unit_def emits_intro)

lemma emits_commands [emits_intro]:
  "P [''snapshot'', ds @ ''@'' @ name] \<Longrightarrow> emits P (create_snapshot S ds name)"
  "P [''list'', ''-t'', ''snapshot'', ''--json'', ds] \<Longrightarrow> emits P (list_snapshots S ds)"
  "(guardrail snap \<Longrightarrow> P [''destroy'', snap]) \<Longrightarrow> emits P (destroy_snapshot S snap)"
  "P ([''send'', ''-t'', tok] @ opts) \<Longrightarrow> emits P (send_resume S tok opts)"
  "P ([''send''] @ (case base of None \<Rightarrow> [] | Some b \<Rightarrow> [''-i'', b]) @ [snap] @ opts) \<Longrightarrow>
     emits P (send_incremental S base snap opts)"
  "P [''receive'', ''-A'', ds] \<Longrightarrow> emits P (abort_resume S ds)"
  "P [''get'', ''--json'', ''receive_resume_token'', ds] \<Longrightarrow> emits P (get_resume_token S ds)"
  "P [''list'', ''-t'', ''snapshot'', ''--json''] \<Longrightarrow> emits P (discover_datasets S)"
  "P [''get'', ''--json'', ''zrb:resume-since'', ds] \<Longrightarrow> emits P (get_resume_since S C ds)"
  "P [''set'', ''zrb:resume-since='' @ to_rfc3339 C ts, ds] \<Longrightarrow> emits P (set_resume_since S C ds ts)"
  "P [''inherit'', ''zrb:resume-since'', ds] \<Longrightarrow> emits P (clear_resume_since S ds)"
  "P [''hold'', tag, snap] \<Longrightarrow> emits P (hold_snapshot S snap tag)"
  "P [''holds'', ''-H'', snap] \<Longrightarrow> emits P (snapshot_holds S snap)"
  "(snaps \<noteq> [] \<Longrightarrow> P ([''holds'', ''-H''] @ snaps)) \<Longrightarrow> emits P (find_held_snapshots_in S snaps tag)"
  "(snaps \<noteq> [] \<Longrightarrow> P ([''holds'', ''-H''] @ snaps)) \<Longrightarrow> emits P (find_held_snapshot_in S snaps tag)"
  "(snaps \<noteq> [] \<Longrightarrow> P ([''holds'', ''-H''] @ snaps)) \<Longrightarrow> emits P (batch_snapshot_holds S snaps)"
  by (auto simp: create_snapshot_def list_snapshots_def destroy_snapshot_def send_resume_def
      send_incremental_def abort_resume_def get_resume_token_def discover_datasets_def
      get_resume_since_def set_resume_since_def clear_resume_since_def hold_snapshot_def
      snapshot_holds_def find_held_snapshots_in_def find_held_snapshot_in_def
      batch_snapshot_holds_def intro!: emits_intro)

lemma emits_release [emits_intro]:
  "P [''release'', tag, snap] \<Longrightarrow> emits P (release_hold S snap tag)"
  by (auto simp: release_hold_def intro!: emits_intro split: err.split)

lemma emits_find_held [emits_intro]:
  assumes "P [''list'', ''-t'', ''snapshot'', ''--json'', ds]" and "\<And>xs. P ([''holds'', ''-H''] @ xs)"
  shows "emits P (find_held_snapshots S ds tag)" and "emits P (find_held_snapshot S ds tag)"
  unfolding find_held_snapshots_def find_held_snapshot_def using assms
  by (auto intro!: emits_intro)

section \<open>Only the guard of \<open>destroy_snapshot\<close> and the logged slice of a token panic\<close>

lemma panics_run [panics_intro]:
  "panics_in Q (run S argv)" "panics_in Q (spawn_send S argv)" "panics_in Q (receive S dataset opts)"
  "panics_in Q (finish S zr)"
  by (auto simp: panics_in_def run_def spawn_send_def receive_def finish_def Let_def
      split: prod.splits proc_out.splits sum.splits if_splits)

lemma panics_result [panics_intro]: "panics_in Q (io_result r)"
  by (cases r) (simp_all add: io_result_def panics_intro)

lemma panics_commands [panics_intro]:
  "panics_in Q (run_unit S argv)"
  "panics_in Q (create_snapshot S ds name)" "panics_in Q (list_snapshots S ds)"
  "panics_in Q (send_incremental S base snap opts)"
  "panics_in Q (abort_resume S ds)" "panics_in Q (get_resume_token S ds)"
  "panics_in Q (discover_datasets S)" "panics_in Q (get_resume_since S C ds)"
  "panics_in Q (set_resume_since S C ds ts)" "panics_in Q (clear_resume_since S ds)"
  "panics_in Q (hold_snapshot S snap tag)" "panics_in Q (snapshot_holds S snap)"
  "panics_in Q (find_held_snapshots_in S snaps tag)" "panics_in Q (find_held_snapshots S ds tag)"
  "panics_in Q (find_held_snapshot S ds tag)" "panics_in Q (find_held_snapshot_in S snaps tag)"
  "panics_in Q (batch_snapshot_holds S snaps)"
  by (auto simp: run_unit_def create_snapshot_def list_snapshots_def
      send_incremental_def abort_resume_def get_resume_token_def discover_datasets_def
      get_resume_since_def set_resume_since_def clear_resume_since_def hold_snapshot_def
      snapshot_holds_def find_held_snapshots_in_def find_held_snapshots_def find_held_snapshot_def
      find_held_snapshot_in_def batch_snapshot_holds_def intro!: panics_intro)

lemma panics_send_resume [panics_intro]: "Q slice_panic \<Longrightarrow> panics_in Q (send_resume S tok opts)"
  by (auto simp: send_resume_def intro!: panics_intro)

lemma panics_release [panics_intro]: "panics_in Q (release_hold S snap tag)"
  by (auto simp: release_hold_def intro!: panics_intro split: err.split)

lemma panics_destroy [panics_intro]: "guardrail snap \<Longrightarrow> panics_in Q (destroy_snapshot S snap)"
  by (auto simp: destroy_snapshot_def intro!: panics_intro)

section \<open>The commands leave the connection alone\<close>

lemma comms_run [preserves_intro]:
  "preserves comms (run S argv)" "preserves comms (spawn_send S argv)"
  "preserves comms (receive S dataset opts)" "preserves comms (finish S zr)"
  by (auto simp: preserves_def run_def spawn_send_def receive_def finish_def Let_def
      split: prod.split proc_out.split sum.split)

lemma comms_result [preserves_intro]: "preserves comms (io_result r)"
  by (cases r) (simp_all add: io_result_def preserves_intro)

lemma comms_commands [preserves_intro]:
  "preserves comms (run_unit S argv)"
  "preserves comms (create_snapshot S ds name)" "preserves comms (list_snapshots S ds)"
  "preserves comms (destroy_snapshot S snap)"
  "preserves comms (send_resume S tok opts)" "preserves comms (send_incremental S base snap opts)"
  "preserves comms (abort_resume S ds)" "preserves comms (get_resume_token S ds)"
  "preserves comms (discover_datasets S)" "preserves comms (get_resume_since S C ds)"
  "preserves comms (set_resume_since S C ds ts)" "preserves comms (clear_resume_since S ds)"
  "preserves comms (hold_snapshot S snap tag)" "preserves comms (snapshot_holds S snap)"
  "preserves comms (find_held_snapshots_in S snaps tag)" "preserves comms (find_held_snapshots S ds tag)"
  "preserves comms (find_held_snapshot S ds tag)" "preserves comms (find_held_snapshot_in S snaps tag)"
  "preserves comms (batch_snapshot_holds S snaps)"
  by (auto simp: run_unit_def create_snapshot_def list_snapshots_def destroy_snapshot_def send_resume_def
      send_incremental_def abort_resume_def get_resume_token_def discover_datasets_def
      get_resume_since_def set_resume_since_def clear_resume_since_def hold_snapshot_def
      snapshot_holds_def find_held_snapshots_in_def find_held_snapshots_def find_held_snapshot_def
      find_held_snapshot_in_def batch_snapshot_holds_def intro!: preserves_intro)

lemma comms_release [preserves_intro]: "preserves comms (release_hold S snap tag)"
  by (auto simp: release_hold_def intro!: preserves_intro split: err.split)

lemma offline_run [offline_intro]:
  "offline (run S argv)" "offline (spawn_send S argv)" "offline (receive S dataset opts)"
  "offline (finish S zr)"
  by (auto simp: offline_def run_def spawn_send_def receive_def finish_def Let_def
      split: prod.split proc_out.split sum.split)

lemma offline_result [offline_intro]: "offline (io_result r)"
  by (cases r) (simp_all add: io_result_def offline_intro)

lemma offline_commands [offline_intro]:
  "offline (run_unit S argv)"
  "offline (create_snapshot S ds name)" "offline (list_snapshots S ds)"
  "offline (destroy_snapshot S snap)"
  "offline (send_resume S tok opts)" "offline (send_incremental S base snap opts)"
  "offline (abort_resume S ds)" "offline (get_resume_token S ds)"
  "offline (discover_datasets S)" "offline (get_resume_since S C ds)"
  "offline (set_resume_since S C ds ts)" "offline (clear_resume_since S ds)"
  "offline (hold_snapshot S snap tag)" "offline (snapshot_holds S snap)"
  "offline (find_held_snapshots_in S snaps tag)" "offline (find_held_snapshots S ds tag)"
  "offline (batch_snapshot_holds S snaps)"
  by (auto simp: run_unit_def create_snapshot_def list_snapshots_def destroy_snapshot_def send_resume_def
      send_incremental_def abort_resume_def get_resume_token_def discover_datasets_def
      get_resume_since_def set_resume_since_def clear_resume_since_def hold_snapshot_def
      snapshot_holds_def find_held_snapshots_in_def find_held_snapshots_def
      batch_snapshot_holds_def intro!: offline_intro)

lemma offline_release [offline_intro]: "offline (release_hold S snap tag)"
  by (auto simp: release_hold_def intro!: offline_intro split: err.split)

section \<open>Properties\<close>

lemma guardrail_iff:
  "guardrail s \<longleftrightarrow> (\<exists>ds ts. s = ds @ ''@zrb-'' @ ts \<and> CHR ''@'' \<notin> set ds \<and> CHR ''@'' \<notin> set ts)"
proof -
  have len: "length (split_char (CHR ''@'') s) = 2 \<longleftrightarrow> count_list s (CHR ''@'') = 1"
    by (simp add: length_split_char)
  show ?thesis
  proof
    assume g: "guardrail s"
    then obtain ds r where so: "split_once (CHR ''@'') s = Some (ds, r)" and "prefix ''zrb-'' r"
      by (auto simp: guardrail_def split: option.splits)
    then obtain ts where s: "s = ds @ ''@zrb-'' @ ts" "CHR ''@'' \<notin> set ds"
      by (auto simp: split_once_Some_iff prefix_def)
    moreover have "CHR ''@'' \<notin> set ts"
      using g s len by (auto simp: guardrail_def count_list_0_iff)
    ultimately show "\<exists>ds ts. s = ds @ ''@zrb-'' @ ts \<and> CHR ''@'' \<notin> set ds \<and> CHR ''@'' \<notin> set ts"
      by blast
  next
    assume "\<exists>ds ts. s = ds @ ''@zrb-'' @ ts \<and> CHR ''@'' \<notin> set ds \<and> CHR ''@'' \<notin> set ts"
    then show "guardrail s"
      unfolding guardrail_def len by (auto simp: count_list_0_iff)
  qed
qed

text \<open>
  The guard of \<open>destroy_snapshot\<close>: the only process it can start is \<open>zfs destroy\<close> of a name
  of the form \<open>dataset@zrb-suffix\<close> with a single \<open>@\<close>; a dataset is never destroyed. For any
  other name it panics before a process is started.
\<close>

theorem destroy_snapshot_guarded:
  "emits (\<lambda>c. \<exists>ds ts. c = [''destroy'', ds @ ''@zrb-'' @ ts] \<and> CHR ''@'' \<notin> set ds \<and> CHR ''@'' \<notin> set ts)
     (destroy_snapshot S snap) \<and>
   ((\<nexists>ds ts. snap = ds @ ''@zrb-'' @ ts \<and> CHR ''@'' \<notin> set ds \<and> CHR ''@'' \<notin> set ts) \<longrightarrow>
     (\<exists>p. \<forall>s. destroy_snapshot S snap s = (Panic p, s)))"
proof (rule conjI, rule emits_intro)
  show "\<exists>ds ts. [''destroy'', snap] = [''destroy'', ds @ ''@zrb-'' @ ts] \<and>
      CHR ''@'' \<notin> set ds \<and> CHR ''@'' \<notin> set ts" if "guardrail snap"
    using that unfolding guardrail_iff by blast
qed (auto simp: destroy_snapshot_def io_panic_def guardrail_iff)

lemma holds_line_cases:
  obtains (entry) snap tag rest where "splitn 3 tab line = snap # tag # rest"
  | (none) "\<And>snap tag rest. splitn 3 tab line \<noteq> snap # tag # rest"
  by blast

lemma map_of_push_entry:
  "map_of (push_entry k v m) x =
     (if x = k then Some ((case map_of m k of None \<Rightarrow> [] | Some vs \<Rightarrow> vs) @ [v]) else map_of m x)"
  by (simp add: push_entry_def update_conv')

definition tags_of :: "(string, string list) hmap \<Rightarrow> string \<Rightarrow> string list" where
  "tags_of m snap = (case map_of m snap of None \<Rightarrow> [] | Some ts \<Rightarrow> ts)"

lemma tags_of_push_entry:
  "tags_of (push_entry k v m) x = (if x = k then tags_of m k @ [v] else tags_of m x)"
  by (simp add: tags_of_def map_of_push_entry)

text \<open>All pairs of a snapshot and a tag that the output of \<open>zfs holds -H\<close> lists, in order.\<close>

definition hold_pairs :: "string \<Rightarrow> (string \<times> string) list" where
  "hold_pairs output =
     List.map_filter
       (\<lambda>line. case splitn 3 tab line of snap # tag # _ \<Rightarrow> Some (snap, tag) | _ \<Rightarrow> None) (lines output)"

lemma holds_line_pairs:
  "holds_line line m =
     (case (case splitn 3 tab line of snap # tag # _ \<Rightarrow> Some (snap, tag) | _ \<Rightarrow> None) of
        None \<Rightarrow> m | Some p \<Rightarrow> (\<lambda>(snap, tag). push_entry snap tag) p m)"
  by (simp add: holds_line_def split: list.split)

lemma fold_map_filter:
  "fold (\<lambda>x m. case f x of None \<Rightarrow> m | Some y \<Rightarrow> g y m) xs m = fold g (List.map_filter f xs) m"
  by (induction xs arbitrary: m) (auto simp: List.map_filter_simps split: option.split)

lemma read_holds_pairs: "read_holds output = fold (\<lambda>(snap, tag). push_entry snap tag) (hold_pairs output) []"
  unfolding read_holds_def hold_pairs_def holds_line_pairs
  by (rule fold_map_filter)

lemma tags_of_fold_push:
  "tags_of (fold (\<lambda>(snap, tag). push_entry snap tag) ps m) snap =
     tags_of m snap @ map snd (filter (\<lambda>p. fst p = snap) ps)"
  by (induction ps arbitrary: m) (auto simp: tags_of_push_entry)

lemma tags_of_read_holds:
  "tags_of (read_holds output) snap = map snd (filter (\<lambda>p. fst p = snap) (hold_pairs output))"
  by (simp add: read_holds_pairs tags_of_fold_push) (simp add: tags_of_def)

lemma parse_held_pairs:
  "parse_held_snapshots_for_tag output tag =
     map fst (filter (\<lambda>p. snd p = tag) (hold_pairs output))"
proof -
  have "List.map_filter (\<lambda>line. case splitn 3 tab line of
          snap_name # hold_tag # _ \<Rightarrow> if hold_tag = tag then Some snap_name else None | _ \<Rightarrow> None) ls =
      map fst (filter (\<lambda>p. snd p = tag) (List.map_filter (\<lambda>line. case splitn 3 tab line of
          snap # tag # _ \<Rightarrow> Some (snap, tag) | _ \<Rightarrow> None) ls))" for ls
    by (induction ls) (auto simp: List.map_filter_simps split: list.split)
  then show ?thesis by (simp add: parse_held_snapshots_for_tag_def hold_pairs_def)
qed

lemma parse_holds_pairs: "parse_holds_output output = map snd (hold_pairs output)"
proof -
  have "List.map_filter (\<lambda>line. case splitn 3 tab line of _ # tag # _ \<Rightarrow> Some tag | _ \<Rightarrow> None) ls =
      map snd (List.map_filter (\<lambda>line. case splitn 3 tab line of
          snap # tag # _ \<Rightarrow> Some (snap, tag) | _ \<Rightarrow> None) ls)" for ls
    by (induction ls) (auto simp: List.map_filter_simps split: list.split)
  then show ?thesis by (simp add: parse_holds_output_def hold_pairs_def)
qed

text \<open>
  The two readers of \<open>zfs holds -H\<close> agree on every output, malformed ones included: the map
  of \<open>batch_snapshot_holds\<close> lists a tag for a snapshot exactly when the scan of
  \<open>find_held_snapshots_in\<close> for that tag finds the snapshot.
\<close>

theorem holds_readers_agree:
  "tag \<in> set (tags_of (read_holds output) snap) \<longleftrightarrow>
     snap \<in> set (parse_held_snapshots_for_tag output tag)"
  by (force simp: tags_of_read_holds parse_held_pairs)

text \<open>What \<open>zfs holds -H\<close> prints for a list of holds.\<close>

definition hold_lines :: "(string \<times> string \<times> string) list \<Rightarrow> string" where
  "hold_lines hs = concat (map (\<lambda>(snap, tag, time). snap @ [tab] @ tag @ [tab] @ time @ [newline]) hs)"

definition hold_ok :: "string \<times> string \<times> string \<Rightarrow> bool" where
  "hold_ok h = (case h of (snap, tag, time) \<Rightarrow>
     tab \<notin> set snap \<and> newline \<notin> set snap \<and> tab \<notin> set tag \<and> newline \<notin> set tag \<and>
     newline \<notin> set time \<and> CHR 0x0D \<notin> set time)"

lemma hold_pairs_lines:
  assumes "list_all hold_ok hs"
  shows "hold_pairs (hold_lines hs) = map (\<lambda>(snap, tag, time). (snap, tag)) hs"
  using assms
proof (induction hs)
  case Nil
  then show ?case by (simp add: hold_pairs_def hold_lines_def List.map_filter_simps)
next
  case (Cons h hs)
  obtain snap tag time where h: "h = (snap, tag, time)" by (cases h)
  let ?line = "snap @ tab # tag @ tab # time"
  have ok: "tab \<notin> set snap" "tab \<notin> set tag" "newline \<notin> set ?line"
    using Cons.prems by (auto simp: h hold_ok_def)
  have "strip_cr ?line = ?line"
    using Cons.prems by (auto simp: strip_cr_def h hold_ok_def dest: last_in_set)
  moreover have "hold_lines (h # hs) = ?line @ newline # hold_lines hs"
    by (simp add: hold_lines_def h)
  ultimately have "lines (hold_lines (h # hs)) = ?line # lines (hold_lines hs)"
    by (simp only: lines_newline [OF ok(3)])
  moreover have "splitn 3 tab ?line = [snap, tag, time]"
    using ok by (simp add: splitn_3)
  ultimately show ?case
    using Cons by (simp add: hold_pairs_def List.map_filter_simps h)
qed

text \<open>
  Reading the output of \<open>zfs holds -H\<close> gives back the holds it was printed for: the
  snapshots with a tag, in order, and for every snapshot its tags, in order.
\<close>

theorem holds_output_round_trip:
  assumes "list_all hold_ok hs"
  shows "parse_held_snapshots_for_tag (hold_lines hs) tag = [snap. (snap, tg, time) \<leftarrow> hs, tg = tag] \<and>
    tags_of (read_holds (hold_lines hs)) snap = [tg. (sn, tg, time) \<leftarrow> hs, sn = snap] \<and>
    parse_holds_output (hold_lines hs) = [tg. (sn, tg, time) \<leftarrow> hs]"
proof -
  have "map fst (filter (\<lambda>p. snd p = tag) (map (\<lambda>(sn, tg, time). (sn, tg)) hs)) =
      [snap. (snap, tg, time) \<leftarrow> hs, tg = tag]"
    by (induction hs) auto
  moreover have "map snd (filter (\<lambda>p. fst p = snap) (map (\<lambda>(sn, tg, time). (sn, tg)) hs)) =
      [tg. (sn, tg, time) \<leftarrow> hs, sn = snap]"
    by (induction hs) auto
  moreover have "map snd (map (\<lambda>(sn, tg, time). (sn, tg)) hs) = [tg. (sn, tg, time) \<leftarrow> hs]"
    by (induction hs) auto
  ultimately show ?thesis
    unfolding parse_held_pairs tags_of_read_holds parse_holds_pairs hold_pairs_lines [OF assms] by blast
qed

lemma discover_key_Some_iff:
  "discover_key key = Some ds \<longleftrightarrow> CHR ''@'' \<notin> set ds \<and> prefix (ds @ ''@zrb-'') key"
proof
  assume "discover_key key = Some ds"
  then show "CHR ''@'' \<notin> set ds \<and> prefix (ds @ ''@zrb-'') key"
    by (auto simp: discover_key_def split_once_Some_iff split: option.splits if_splits)
next
  assume "CHR ''@'' \<notin> set ds \<and> prefix (ds @ ''@zrb-'') key"
  then show "discover_key key = Some ds"
    by (auto simp: discover_key_def prefix_def)
qed

text \<open>
  \<open>discover_datasets\<close> reports exactly the datasets that have a snapshot with the \<open>zrb-\<close>
  prefix, in order and without repetition.
\<close>

theorem decode_discover_json_correct:
  assumes "parse_zfs_json S stdout = Inr out"
  shows "\<exists>dss. decode_discover_json S stdout = Inr dss \<and> sorted dss \<and> distinct dss \<and>
    set dss = {ds. CHR ''@'' \<notin> set ds \<and> (\<exists>key \<in> fst ` set (zo_datasets out). prefix (ds @ ''@zrb-'') key)}"
proof -
  have "set (List.map_filter discover_key ks) =
      {ds. CHR ''@'' \<notin> set ds \<and> (\<exists>key \<in> set ks. prefix (ds @ ''@zrb-'') key)}" for ks
    by (auto simp: set_map_filter discover_key_Some_iff)
  from this [of "map fst (zo_datasets out)"] show ?thesis
    using assms by (simp add: decode_discover_json_def parse_json_def dedup_sort_facts)
qed

lemma destroy_snapshot_guarded_witness:
  "\<exists>p. \<forall>s. destroy_snapshot (static_os (\<lambda>_. Exited True [] []) (\<lambda>_. Inl []) (DateTime 0))
     ''t@manual'' s = (Panic p, s)"
proof -
  have "\<not> guardrail ''t@manual''" by (simp add: guardrail_def)
  then have "\<nexists>ds ts. ''t@manual'' = ds @ ''@zrb-'' @ ts \<and> CHR ''@'' \<notin> set ds \<and> CHR ''@'' \<notin> set ts"
    unfolding guardrail_iff .
  then show ?thesis
    by (rule conjunct2 [OF destroy_snapshot_guarded, THEN mp])
qed

lemma holds_output_round_trip_witness:
  "parse_held_snapshots_for_tag
     (hold_lines [(''t@zrb-1'', ''zrb:a'', ''Fri''), (''t@zrb-2'', ''zrb:b'', ''Sat''), (''t@zrb-2'', ''zrb:a'', ''Sun'')])
     ''zrb:a'' = [''t@zrb-1'', ''t@zrb-2'']"
  using holds_output_round_trip
    [of "[(''t@zrb-1'', ''zrb:a'', ''Fri''), (''t@zrb-2'', ''zrb:b'', ''Sat''), (''t@zrb-2'', ''zrb:a'', ''Sun'')]"
      "''zrb:a''" "[]"]
  by (simp add: hold_ok_def)

definition example_zfs_json :: zfs_json where
  "example_zfs_json = \<lparr>zo_datasets =
     [(''t@zrb-1'', \<lparr>di_properties = []\<rparr>), (''t@manual'', \<lparr>di_properties = []\<rparr>)]\<rparr>"

lemma decode_discover_json_correct_witness:
  "\<exists>dss. decode_discover_json (static_os (\<lambda>_. Exited True [] []) (\<lambda>_. Inr example_zfs_json) (DateTime 0))
       ''{}'' = Inr dss \<and> sorted dss \<and> distinct dss \<and>
    set dss = {ds. CHR ''@'' \<notin> set ds \<and>
      (\<exists>key \<in> fst ` set (zo_datasets example_zfs_json). prefix (ds @ ''@zrb-'') key)}"
  by (rule decode_discover_json_correct) simp

end
