(* ===== verification/Listing.thy ===== *)
theory Listing
  imports Zfs
begin

text \<open>
  Listing snapshots (\<open>src/ops/list.rs\<close>) and taking one (\<open>src/ops/snapshot.rs\<close>). The facts about
  order and selection come from the interface \<open>snapshot_order\<close> of theory \<open>Naming\<close>.
\<close>

section \<open>The operations\<close>

definition list_zrb :: "'w os \<Rightarrow> chrono \<Rightarrow> string \<Rightarrow> ('w, string list) io" where
  "list_zrb S C dataset =
     io_bind (list_snapshots S dataset)
       (\<lambda>raw. io_return (sort_chronological C (filter_zrb C raw)))"

definition list_each :: "'w os \<Rightarrow> chrono \<Rightarrow> string list \<Rightarrow> ('w, (string \<times> string list) list) io" where
  "list_each S C datasets =
     io_map (\<lambda>ds. io_bind (list_zrb S C ds) (\<lambda>snaps. io_return (ds, snaps))) datasets"

definition list_all_zrb :: "'w os \<Rightarrow> chrono \<Rightarrow> ('w, (string \<times> string list) list) io" where
  "list_all_zrb S C = io_bind (discover_datasets S) (list_each S C)"

definition datasets_matching :: "string list \<Rightarrow> string \<Rightarrow> string list" where
  "datasets_matching datasets parent =
     filter (\<lambda>ds. ds = parent \<or> prefix (parent @ ''/'') ds) datasets"

definition list_recursive :: "'w os \<Rightarrow> chrono \<Rightarrow> string \<Rightarrow> ('w, (string \<times> string list) list) io" where
  "list_recursive S C dataset =
     io_bind (discover_datasets S) (\<lambda>dss. list_each S C (datasets_matching dss dataset))"

text \<open>\<open>Option::expect\<close>.\<close>

definition io_expect :: "string \<Rightarrow> 'a option \<Rightarrow> ('w, 'a) io" where
  "io_expect msg x = (case x of None \<Rightarrow> io_panic msg | Some a \<Rightarrow> io_return a)"

definition snapshot :: "'w os \<Rightarrow> chrono \<Rightarrow> string \<Rightarrow> ('w, string) io" where
  "snapshot S C dataset =
     io_bind (io_now S) (\<lambda>now.
       let full_name = new_name C dataset now
       in io_bind (io_expect ''new_name always contains @'' (split_once (CHR ''@'') full_name)) (\<lambda>parts.
            io_bind (create_snapshot S dataset (snd parts)) (\<lambda>_. io_return full_name)))"

section \<open>What they start and return\<close>

lemma emits_list_zrb [emits_intro]:
  "P [''list'', ''-t'', ''snapshot'', ''--json'', ds] \<Longrightarrow> emits P (list_zrb S C ds)"
  by (auto simp: list_zrb_def intro!: emits_intro)

lemma list_snapshots_Ok_raw:
  assumes "list_zrb S C ds s = (Ok snaps, s')"
  obtains raw where "list_snapshots S ds s = (Ok raw, s')"
    "snaps = sort_chronological C (filter_zrb C raw)"
  using assms by (auto simp: list_zrb_def io_bind_Ok_iff io_return_def)

lemma set_sort_filter_zrb [simp]:
  "set (sort_chronological C (filter_zrb C raw)) = {x \<in> set raw. is_zrb C x}"
  by (simp add: naming.sort_set)

text \<open>
  \<open>ops::list\<close> returns exactly the snapshots of the raw listing whose name carries a zrb
  timestamp, in chronological order, with equal timestamps in the order of the listing.
\<close>

theorem list_zrb_correct:
  assumes "list_zrb S C ds s = (Ok snaps, s')"
  shows "\<exists>raw. list_snapshots S ds s = (Ok raw, s') \<and> set snaps = {x \<in> set raw. is_zrb C x} \<and>
    sorted (map (parse C) snaps) \<and>
    (\<forall>t. filter (\<lambda>x. parse C x = Some t) snaps = filter (\<lambda>x. parse C x = Some t) raw)"
proof -
  obtain raw where raw: "list_snapshots S ds s = (Ok raw, s')"
    and snaps: "snaps = sort_chronological C (filter_zrb C raw)"
    using assms by (rule list_snapshots_Ok_raw)
  have "filter (\<lambda>x. parse C x = Some t) (filter_zrb C raw) = filter (\<lambda>x. parse C x = Some t) raw" for t
    unfolding filter_zrb_def is_zrb_def filter_filter by (rule filter_cong) auto
  then show ?thesis
    using raw by (simp add: snaps naming.sort_sorted naming.sort_stable)
qed

definition two_snapshots :: zfs_json where
  "two_snapshots = \<lparr>zo_datasets =
     [(''t@zrb-2026-05-06T00:00:00Z'', \<lparr>di_properties = []\<rparr>), (''t@manual'', \<lparr>di_properties = []\<rparr>),
      (''t@zrb-2026-05-05T00:00:00Z'', \<lparr>di_properties = []\<rparr>)]\<rparr>"

definition listing_os :: "unit os" where
  "listing_os = static_os (\<lambda>_. Exited True [] []) (\<lambda>_. Inr two_snapshots) (DateTime 0)"

lemma parse_example:
  "parse gregorian ''t@zrb-2026-05-06T00:00:00Z'' = Some (DateTime 1778025600000000000)"
  "parse gregorian ''t@zrb-2026-05-05T00:00:00Z'' = Some (DateTime 1777939200000000000)"
  "parse gregorian ''t@manual'' = None"
  by (simp_all add: parse_def strip_prefix_def PREFIX_def calendar_eval)

lemma listing_os_raw:
  "list_snapshots listing_os ''t'' st0 =
     (Ok [''t@zrb-2026-05-06T00:00:00Z'', ''t@manual'', ''t@zrb-2026-05-05T00:00:00Z''],
      st0\<lparr>cmds := [[''list'', ''-t'', ''snapshot'', ''--json'', ''t'']]\<rparr>)"
  by (simp add: list_snapshots_def run_def listing_os_def io_match_def io_result_def io_return_def
      decode_list_json_def parse_json_def two_snapshots_def st0_def)

lemma listing_os_list:
  "list_zrb listing_os gregorian ''t'' st0 =
     (Ok [''t@zrb-2026-05-05T00:00:00Z'', ''t@zrb-2026-05-06T00:00:00Z''],
      st0\<lparr>cmds := [[''list'', ''-t'', ''snapshot'', ''--json'', ''t'']]\<rparr>)"
  by (simp add: list_zrb_def io_bind_def listing_os_raw filter_zrb_def is_zrb_def parse_example
      sort_chronological_def less_eq_datetime_def io_return_def)

lemma list_zrb_correct_witness:
  "\<exists>raw. list_snapshots listing_os ''t'' st0 =
      (Ok raw, st0\<lparr>cmds := [[''list'', ''-t'', ''snapshot'', ''--json'', ''t'']]\<rparr>) \<and>
    set [''t@zrb-2026-05-05T00:00:00Z'', ''t@zrb-2026-05-06T00:00:00Z''] = {x \<in> set raw. is_zrb gregorian x} \<and>
    sorted (map (parse gregorian) [''t@zrb-2026-05-05T00:00:00Z'', ''t@zrb-2026-05-06T00:00:00Z'']) \<and>
    (\<forall>t. filter (\<lambda>x. parse gregorian x = Some t)
           [''t@zrb-2026-05-05T00:00:00Z'', ''t@zrb-2026-05-06T00:00:00Z''] =
         filter (\<lambda>x. parse gregorian x = Some t) raw)"
  by (rule list_zrb_correct [OF listing_os_list])

text \<open>
  Taking a snapshot starts exactly one process, \<open>zfs snapshot\<close> of the name made from the
  clock's time, and returns that name: the \<open>expect\<close> on the name never fails.
\<close>

theorem snapshot_creates_new_name:
  assumes "CHR ''@'' \<notin> set dataset" and "utc_now S (env s) = (now, w)"
    and "snapshot S C dataset s = (r, s')"
  shows "cmds s' = cmds s @ [[''snapshot'', new_name C dataset now]] \<and>
    (\<forall>name. r = Ok name \<longrightarrow> name = new_name C dataset now) \<and> (\<forall>p. r \<noteq> Panic p)"
proof -
  have "split_once (CHR ''@'') (new_name C dataset now) =
      Some (dataset, PREFIX @ format_utc C TIMESTAMP_FMT now)"
    using assms(1) by (simp add: new_name_def)
  then show ?thesis
    using assms(2,3)
    by (auto simp: snapshot_def io_bind_def io_now_def io_expect_def create_snapshot_def run_unit_def
        run_def Let_def io_return_def new_name_def split: prod.splits proc_out.splits if_splits)
qed

lemma snapshot_creates_new_name_witness:
  "cmds (snd (snapshot listing_os gregorian ''t'' st0)) =
     [[''snapshot'', new_name gregorian ''t'' (DateTime 0)]]"
proof -
  have "utc_now listing_os (env st0) = (DateTime 0, env st0)"
    by (simp add: listing_os_def)
  from snapshot_creates_new_name [OF _ this prod.collapse [symmetric], of "''t''"]
  show ?thesis by (simp add: st0_def)
qed

text \<open>
  A recursive listing covers the dataset itself and the datasets below it, and no dataset
  that only shares a name prefix (\<open>tank/home2\<close> is not below \<open>tank/home\<close>).
\<close>

theorem datasets_matching_correct:
  "set (datasets_matching dss parent) =
     {ds \<in> set dss. ds = parent \<or> (\<exists>child. ds = parent @ ''/'' @ child)}"
  by (auto simp: datasets_matching_def prefix_def)

end
