(* ===== verification/Retention.thy ===== *)
theory Retention
  imports Naming
begin

text \<open>
  The Retention Policy (\<open>src/retention/policy.rs\<close>): \<open>apply_policy\<close> is the code's loop over the
  chronologically sorted snapshots; \<open>verdicts\<close> is its specification, a plain recursion that
  keeps the first snapshot of every bucket. The two are proved equal, and the guarantees of the
  policy follow from the specification.
\<close>

section \<open>The code\<close>

record retention_config =
  recent :: nat
  weekly_for_days :: int
  monthly_for_days :: int

datatype keep_reason = Daily | Weekly | Monthly | Yearly | Unmanaged

fun keep_reason_str :: "keep_reason \<Rightarrow> string" where
  "keep_reason_str Daily = ''daily''"
| "keep_reason_str Weekly = ''weekly''"
| "keep_reason_str Monthly = ''monthly''"
| "keep_reason_str Yearly = ''yearly''"
| "keep_reason_str Unmanaged = ''unmanaged''"

text \<open>The mutable variables of the loop.\<close>

record retain_state =
  seen_weeks :: "(int \<times> int \<times> nat) set"
  seen_months :: "(int \<times> nat) set"
  seen_years :: "int set"
  keep :: "(string \<times> keep_reason) list"
  delete :: "string list"

definition retain_init :: retain_state where
  "retain_init = \<lparr>seen_weeks = {}, seen_months = {}, seen_years = {}, keep = [], delete = []\<rparr>"

text \<open>The body of the loop, for the snapshot at index \<open>idx\<close>.\<close>

definition retain_step ::
    "chrono \<Rightarrow> nat set \<Rightarrow> datetime \<Rightarrow> datetime \<Rightarrow> nat \<times> string \<times> datetime option \<Rightarrow>
     retain_state \<Rightarrow> retain_state" where
  "retain_step C recent_set weekly_cutoff monthly_cutoff item st =
     (case item of (idx, name, ts_opt) \<Rightarrow>
        if idx \<in> recent_set then st\<lparr>keep := keep st @ [(name, Daily)]\<rparr>
        else case ts_opt of
          None \<Rightarrow> st\<lparr>keep := keep st @ [(name, Unmanaged)]\<rparr>
        | Some ts \<Rightarrow>
            if weekly_cutoff < ts then
              let bucket = (year C ts, iso_week C ts)
              in if bucket \<notin> seen_weeks st
                 then st\<lparr>seen_weeks := insert bucket (seen_weeks st),
                         keep := keep st @ [(name, Weekly)]\<rparr>
                 else st\<lparr>delete := delete st @ [name]\<rparr>
            else if monthly_cutoff < ts then
              let bucket = (year C ts, month C ts)
              in if bucket \<notin> seen_months st
                 then st\<lparr>seen_months := insert bucket (seen_months st),
                         keep := keep st @ [(name, Monthly)]\<rparr>
                 else st\<lparr>delete := delete st @ [name]\<rparr>
            else if year C ts \<notin> seen_years st
              then st\<lparr>seen_years := insert (year C ts) (seen_years st),
                      keep := keep st @ [(name, Yearly)]\<rparr>
              else st\<lparr>delete := delete st @ [name]\<rparr>)"

definition parsed_sorted :: "chrono \<Rightarrow> string list \<Rightarrow> (string \<times> datetime option) list" where
  "parsed_sorted C snapshots = sort_key snd (map (\<lambda>s. (s, parse C s)) snapshots)"

definition retain_loop ::
    "chrono \<Rightarrow> nat \<Rightarrow> datetime \<Rightarrow> datetime \<Rightarrow> (string \<times> datetime option) list \<Rightarrow> retain_state" where
  "retain_loop C recent_start weekly_cutoff monthly_cutoff parsed =
     fold (retain_step C {recent_start..<length parsed} weekly_cutoff monthly_cutoff)
       (enumerate 0 parsed) retain_init"

text \<open>\<open>now - Duration::days(d)\<close>, which panics outside chrono's range.\<close>

definition cutoff :: "chrono \<Rightarrow> datetime \<Rightarrow> int \<Rightarrow> datetime option" where
  "cutoff C now d = Option.bind (duration_days C d) (minus_duration C now)"

definition apply_policy ::
    "chrono \<Rightarrow> string list \<Rightarrow> datetime \<Rightarrow> retention_config \<Rightarrow>
     ((string \<times> keep_reason) list \<times> string list) res" where
  "apply_policy C snapshots now config =
     (let parsed = parsed_sorted C snapshots;
          total = length parsed;
          recent_start = total - recent config
      in case cutoff C now (weekly_for_days config) of
           None \<Rightarrow> Panic ''weekly cutoff out of range''
         | Some weekly_cutoff \<Rightarrow>
             (case cutoff C now (monthly_for_days config) of
                None \<Rightarrow> Panic ''monthly cutoff out of range''
              | Some monthly_cutoff \<Rightarrow>
                  let st = retain_loop C recent_start weekly_cutoff monthly_cutoff parsed
                  in Ok (keep st, delete st)))"

section \<open>The specification\<close>

text \<open>The bucket of a timestamp: the window it falls in, and the period inside that window.\<close>

datatype bucket = Week int "int \<times> nat" | Month int nat | Year int

definition bucket_of :: "chrono \<Rightarrow> datetime \<Rightarrow> datetime \<Rightarrow> datetime \<Rightarrow> bucket" where
  "bucket_of C wc mc ts =
     (if wc < ts then Week (year C ts) (iso_week C ts)
      else if mc < ts then Month (year C ts) (month C ts)
      else Year (year C ts))"

fun bucket_reason :: "bucket \<Rightarrow> keep_reason" where
  "bucket_reason (Week y w) = Weekly"
| "bucket_reason (Month y m) = Monthly"
| "bucket_reason (Year y) = Yearly"

text \<open>
  The verdict on every snapshot older than the recent ones, oldest first: \<open>Some reason\<close> to keep
  it, \<open>None\<close> to delete it; \<open>seen\<close> are the buckets that already have their snapshot.
\<close>

fun old_verdicts ::
    "(datetime \<Rightarrow> bucket) \<Rightarrow> bucket set \<Rightarrow> (string \<times> datetime option) list \<Rightarrow>
     (string \<times> keep_reason option) list" where
  "old_verdicts B seen [] = []"
| "old_verdicts B seen ((n, None) # xs) = (n, Some Unmanaged) # old_verdicts B seen xs"
| "old_verdicts B seen ((n, Some t) # xs) =
     (if B t \<in> seen then (n, None) # old_verdicts B seen xs
      else (n, Some (bucket_reason (B t))) # old_verdicts B (insert (B t) seen) xs)"

definition verdicts ::
    "(datetime \<Rightarrow> bucket) \<Rightarrow> nat \<Rightarrow> (string \<times> datetime option) list \<Rightarrow>
     (string \<times> keep_reason option) list" where
  "verdicts B recent_start parsed =
     old_verdicts B {} (take recent_start parsed) @
     map (\<lambda>(n, t). (n, Some Daily)) (drop recent_start parsed)"

definition kept :: "(string \<times> keep_reason option) list \<Rightarrow> (string \<times> keep_reason) list" where
  "kept vs = List.map_filter (\<lambda>(n, v). map_option (Pair n) v) vs"

definition deleted :: "(string \<times> keep_reason option) list \<Rightarrow> string list" where
  "deleted vs = map fst (filter (\<lambda>(n, v). v = None) vs)"

lemma kept_simps [simp]:
  "kept [] = []" "kept ((n, Some r) # vs) = (n, r) # kept vs" "kept ((n, None) # vs) = kept vs"
  "kept (us @ vs) = kept us @ kept vs"
  by (simp_all add: kept_def List.map_filter_def)

lemma deleted_simps [simp]:
  "deleted [] = []" "deleted ((n, Some r) # vs) = deleted vs"
  "deleted ((n, None) # vs) = n # deleted vs" "deleted (us @ vs) = deleted us @ deleted vs"
  by (simp_all add: deleted_def)

lemma kept_Daily [simp]: "kept (map (\<lambda>(n, t). (n, Some Daily)) xs) = map (\<lambda>(n, t). (n, Daily)) xs"
  by (induction xs) auto

lemma deleted_Daily [simp]: "deleted (map (\<lambda>(n, t). (n, Some Daily)) xs) = []"
  by (induction xs) auto

lemma kept_all_Daily [simp]: "kept (map (\<lambda>n. (n, Some Daily)) ns) = map (\<lambda>n. (n, Daily)) ns"
  by (induction ns) auto

lemma deleted_all_Daily [simp]: "deleted (map (\<lambda>n. (n, Some Daily)) ns) = []"
  by (induction ns) auto

lemma in_kept_iff [simp]: "(n, r) \<in> set (kept vs) \<longleftrightarrow> (n, Some r) \<in> set vs"
  by (induction vs) (auto simp: kept_def List.map_filter_def)

lemma in_deleted_iff [simp]: "n \<in> set (deleted vs) \<longleftrightarrow> (n, None) \<in> set vs"
  by (induction vs) (auto simp: deleted_def)

lemma verdict_names: "map fst (old_verdicts B seen xs) = map fst xs"
  by (induction B seen xs rule: old_verdicts.induct) auto

lemma kept_deleted_mset: "mset (map fst (kept vs)) + mset (deleted vs) = mset (map fst vs)"
proof (induction vs)
  case (Cons v vs)
  then show ?case by (cases v; cases "snd v") auto
qed simp

section \<open>The loop computes the specification\<close>

lemma insort_key_map: "insort_key g (f x) (map f ys) = map f (insort_key (\<lambda>x. g (f x)) x ys)"
  by (induction ys) auto

lemma sort_key_map: "sort_key g (map f xs) = map f (sort_key (\<lambda>x. g (f x)) xs)"
  by (induction xs) (simp_all add: insort_key_map)

lemma parsed_sorted_eq: "parsed_sorted C xs = map (\<lambda>s. (s, parse C s)) (sort_chronological C xs)"
  by (simp add: parsed_sorted_def sort_chronological_def sort_key_map)

lemma length_sort_chronological [simp]: "length (sort_chronological C xs) = length xs"
  by (simp add: sort_chronological_def)

lemma length_parsed_sorted [simp]: "length (parsed_sorted C xs) = length xs"
  by (simp add: parsed_sorted_def)

definition seen_buckets :: "retain_state \<Rightarrow> bucket set" where
  "seen_buckets st =
     {Week y w |y w. (y, w) \<in> seen_weeks st} \<union> {Month y m |y m. (y, m) \<in> seen_months st} \<union>
     {Year y |y. y \<in> seen_years st}"

lemma seen_buckets_simps [simp]:
  "Week y w \<in> seen_buckets st \<longleftrightarrow> (y, w) \<in> seen_weeks st"
  "Month y m \<in> seen_buckets st \<longleftrightarrow> (y, m) \<in> seen_months st"
  "Year y \<in> seen_buckets st \<longleftrightarrow> y \<in> seen_years st"
  by (cases w, auto simp: seen_buckets_def)+

lemma seen_buckets_updates [simp]:
  "seen_buckets (st\<lparr>keep := ks\<rparr>) = seen_buckets st"
  "seen_buckets (st\<lparr>delete := ds\<rparr>) = seen_buckets st"
  "seen_buckets (st\<lparr>seen_weeks := insert (y, w) (seen_weeks st)\<rparr>) =
     insert (Week y w) (seen_buckets st)"
  "seen_buckets (st\<lparr>seen_months := insert (y, m) (seen_months st)\<rparr>) =
     insert (Month y m) (seen_buckets st)"
  "seen_buckets (st\<lparr>seen_years := insert y' (seen_years st)\<rparr>) =
     insert (Year y') (seen_buckets st)"
  by (cases w, auto simp: seen_buckets_def)+

text \<open>One step on an old snapshot does what one equation of the specification does.\<close>

lemma retain_step_old:
  assumes "i \<notin> R" and "B = bucket_of C wc mc" and "st' = retain_step C R wc mc (i, n, t) st"
  shows "keep st' = keep st @ kept (old_verdicts B (seen_buckets st) [(n, t)])"
    and "delete st' = delete st @ deleted (old_verdicts B (seen_buckets st) [(n, t)])"
    and "old_verdicts B (seen_buckets st) ((n, t) # xs) =
         old_verdicts B (seen_buckets st) [(n, t)] @ old_verdicts B (seen_buckets st') xs"
proof -
  note defs = retain_step_def bucket_of_def Let_def
  show "keep st' = keep st @ kept (old_verdicts B (seen_buckets st) [(n, t)])"
    unfolding assms(2,3) using assms(1) by (cases t) (simp_all add: defs)
  show "delete st' = delete st @ deleted (old_verdicts B (seen_buckets st) [(n, t)])"
    unfolding assms(2,3) using assms(1) by (cases t) (simp_all add: defs)
  show "old_verdicts B (seen_buckets st) ((n, t) # xs) =
      old_verdicts B (seen_buckets st) [(n, t)] @ old_verdicts B (seen_buckets st') xs"
    unfolding assms(2,3) using assms(1) by (cases t) (simp_all add: defs)
qed

lemma loop_old:
  assumes "\<And>i. k \<le> i \<Longrightarrow> i < k + length xs \<Longrightarrow> i \<notin> R" and "B = bucket_of C wc mc"
    and "st' = fold (retain_step C R wc mc) (enumerate k xs) st"
  shows "keep st' = keep st @ kept (old_verdicts B (seen_buckets st) xs) \<and>
    delete st' = delete st @ deleted (old_verdicts B (seen_buckets st) xs)"
  using assms(1,3)
proof (induction xs arbitrary: k st)
  case Nil
  then show ?case by simp
next
  case (Cons x xs)
  obtain n t where x: "x = (n, t)" by fastforce
  define st1 where "st1 = retain_step C R wc mc (k, n, t) st"
  have "k \<notin> R" using Cons.prems(1) [of k] by simp
  note step = retain_step_old [OF this assms(2) st1_def]
  have "\<And>i. Suc k \<le> i \<Longrightarrow> i < Suc k + length xs \<Longrightarrow> i \<notin> R"
    using Cons.prems(1) by simp
  from Cons.IH [OF this, of "Suc k" st1] show ?case
    using Cons.prems(2) step(1,2) step(3) [of xs] by (simp add: x flip: st1_def)
qed

lemma loop_recent:
  assumes "\<And>i. k \<le> i \<Longrightarrow> i < k + length xs \<Longrightarrow> i \<in> R"
  shows "fold (retain_step C R wc mc) (enumerate k xs) st =
    st\<lparr>keep := keep st @ map (\<lambda>(n, t). (n, Daily)) xs\<rparr>"
  using assms
proof (induction xs arbitrary: k st)
  case Nil
  then show ?case by simp
next
  case (Cons x xs)
  have "k \<in> R" using Cons.prems [of k] by simp
  then have "retain_step C R wc mc (k, x) st = st\<lparr>keep := keep st @ [(fst x, Daily)]\<rparr>"
    by (simp add: retain_step_def split: prod.split)
  moreover have "\<And>i. Suc k \<le> i \<Longrightarrow> i < Suc k + length xs \<Longrightarrow> i \<in> R"
    using Cons.prems by simp
  ultimately show ?case
    using Cons.IH [of "Suc k"] by (simp add: split_beta)
qed

lemma retain_loop_verdicts:
  assumes "rs \<le> length xs"
  shows "keep (retain_loop C rs wc mc xs) = kept (verdicts (bucket_of C wc mc) rs xs)"
    and "delete (retain_loop C rs wc mc xs) = deleted (verdicts (bucket_of C wc mc) rs xs)"
proof -
  let ?R = "{rs..<length xs}" and ?B = "bucket_of C wc mc"
  have split: "enumerate 0 xs = enumerate 0 (take rs xs) @ enumerate rs (drop rs xs)"
    using assms enumerate_append_eq [of 0 "take rs xs" "drop rs xs"] by simp
  have init: "seen_buckets retain_init = {}" "keep retain_init = []" "delete retain_init = []"
    by (simp_all add: seen_buckets_def retain_init_def)
  note old = loop_old [OF _ refl refl, of 0 "take rs xs" ?R C wc mc retain_init, unfolded init]
  note new = loop_recent [of rs "drop rs xs" ?R C wc mc]
  show "keep (retain_loop C rs wc mc xs) = kept (verdicts ?B rs xs)"
    and "delete (retain_loop C rs wc mc xs) = deleted (verdicts ?B rs xs)"
    using old new assms by (simp_all add: retain_loop_def split verdicts_def)
qed

lemma apply_policy_verdicts:
  assumes "cutoff C now (weekly_for_days cfg) = Some wc"
    and "cutoff C now (monthly_for_days cfg) = Some mc"
  shows "apply_policy C snaps now cfg =
    (let vs = verdicts (bucket_of C wc mc) (length snaps - recent cfg) (parsed_sorted C snaps)
     in Ok (kept vs, deleted vs))"
  using assms by (simp add: apply_policy_def Let_def retain_loop_verdicts)

text \<open>
  C8. The retention loop computes its specification: when both cutoffs can be computed, the
  result is what keeping the first snapshot of every bucket gives.
\<close>

theorem apply_policy_refines:
  assumes "cutoff C now (weekly_for_days cfg) = Some wc"
    and "cutoff C now (monthly_for_days cfg) = Some mc"
  shows "apply_policy C snaps now cfg =
    (let vs = verdicts (bucket_of C wc mc) (length snaps - recent cfg) (parsed_sorted C snaps)
     in Ok (kept vs, deleted vs))"
  by (rule apply_policy_verdicts [OF assms])

section \<open>Guarantees of the policy\<close>

lemma apply_policy_OkE:
  assumes "apply_policy C snaps now cfg = Ok (ks, ds)"
  obtains wc mc where "cutoff C now (weekly_for_days cfg) = Some wc"
    "cutoff C now (monthly_for_days cfg) = Some mc"
    "ks = kept (verdicts (bucket_of C wc mc) (length snaps - recent cfg) (parsed_sorted C snaps))"
    "ds = deleted (verdicts (bucket_of C wc mc) (length snaps - recent cfg) (parsed_sorted C snaps))"
  using assms
  by (auto simp: apply_policy_def Let_def retain_loop_verdicts split: option.splits)

lemma map_fst_parsed_sorted [simp]: "map fst (parsed_sorted C xs) = sort_chronological C xs"
  by (simp add: parsed_sorted_eq comp_def)

lemma map_fst_verdicts: "map fst (verdicts B rs xs) = map fst xs"
proof -
  have "map fst (verdicts B rs xs) = map fst (take rs xs) @ map fst (drop rs xs)"
    by (simp add: verdicts_def verdict_names split_beta comp_def)
  then show ?thesis by (simp flip: map_append)
qed

lemma old_verdict_not_Daily: "(n, Some Daily) \<notin> set (old_verdicts B seen xs)"
proof (induction B seen xs rule: old_verdicts.induct)
  case (3 B seen n t xs)
  then show ?case by (cases "B t") auto
qed auto

lemma filter_Daily_old: "filter (\<lambda>(n, r). r = Daily) (kept (old_verdicts B seen xs)) = []"
  using old_verdict_not_Daily by (fastforce simp: filter_empty_conv)

lemma filter_Daily_map: "filter (\<lambda>(n, r). r = Daily) (map (\<lambda>(n, t). (n, Daily)) xs) =
    map (\<lambda>n. (n, Daily)) (map fst xs)"
  by (induction xs) auto

lemma apply_policy_mset:
  assumes "apply_policy C snaps now cfg = Ok (ks, ds)"
  shows "mset (map fst ks) + mset ds = mset snaps"
  using assms
  by (elim apply_policy_OkE)
    (simp add: kept_deleted_mset map_fst_verdicts naming.sort_perm del: mset_map)

text \<open>
  Retention loses and invents nothing: the kept and the deleted snapshots together are the
  given ones, each exactly once.
\<close>

theorem apply_policy_partition:
  assumes "apply_policy C snaps now cfg = Ok (ks, ds)"
  shows "mset (map fst ks) + mset ds = mset snaps"
  using assms by (rule apply_policy_mset)

text \<open>
  The last \<open>recent\<close> snapshots in chronological order are exactly those kept with the
  reason Daily.
\<close>

theorem apply_policy_recent:
  assumes "apply_policy C snaps now cfg = Ok (ks, ds)"
  shows "filter (\<lambda>(n, r). r = Daily) ks =
    map (\<lambda>n. (n, Daily)) (drop (length snaps - recent cfg) (sort_chronological C snaps))"
  using assms
  by (elim apply_policy_OkE)
    (simp add: verdicts_def filter_Daily_old filter_Daily_map drop_map flip: map_fst_parsed_sorted)

text \<open>Who is deleted: a managed snapshot whose bucket already has an older snapshot that is kept.\<close>

lemma old_verdicts_deleted:
  assumes "(n, None) \<in> set (old_verdicts B seen xs)" and "sorted (map snd xs)"
  shows "\<exists>t. (n, Some t) \<in> set xs \<and>
    (B t \<in> seen \<or> (\<exists>n' t'. (n', Some t') \<in> set xs \<and> t' \<le> t \<and> B t' = B t \<and>
       (n', Some (bucket_reason (B t))) \<in> set (old_verdicts B seen xs)))"
  using assms
proof (induction B seen xs rule: old_verdicts.induct)
  case (1 B seen)
  then show ?case by simp
next
  case (2 B seen m xs)
  then have "(n, None) \<in> set (old_verdicts B seen xs)" "sorted (map snd xs)" by simp_all
  from "2.IH" [OF this] show ?case by auto
next
  case (3 B seen m u xs)
  have srt: "sorted (map snd xs)" and older: "\<And>k v. (k, Some v) \<in> set xs \<Longrightarrow> u \<le> v"
    using "3.prems"(2) by (force simp: less_eq_option_Some)+
  show ?case
  proof (cases "B u \<in> seen")
    case True
    then show ?thesis using "3.prems"(1) "3.IH"(1) [OF True _ srt] by auto
  next
    case False
    then have "(n, None) \<in> set (old_verdicts B (insert (B u) seen) xs)"
      using "3.prems"(1) by simp
    from "3.IH"(2) [OF False this srt] obtain t where t: "(n, Some t) \<in> set xs"
      and why: "B t \<in> insert (B u) seen \<or> (\<exists>n' t'. (n', Some t') \<in> set xs \<and> t' \<le> t \<and> B t' = B t \<and>
        (n', Some (bucket_reason (B t))) \<in> set (old_verdicts B (insert (B u) seen) xs))"
      by blast
    show ?thesis
    proof (cases "B t = B u")
      case True
      then show ?thesis using False t older [OF t]
        by (intro exI [of _ t] conjI disjI2 exI [of _ m] exI [of _ u]) simp_all
    next
      case other: False
      with why show ?thesis using False t by (intro exI [of _ t]) auto
    qed
  qed
qed

lemma parsed_sorted_sorted: "sorted (map snd (parsed_sorted C xs))"
  by (simp add: parsed_sorted_def)

lemma in_parsed_sorted: "(n, t) \<in> set (parsed_sorted C xs) \<longleftrightarrow> n \<in> set xs \<and> t = parse C n"
  by (auto simp: parsed_sorted_def)

text \<open>
  C21. A deleted snapshot is zrb-managed, and its bucket keeps an older one: the policy deletes a
  snapshot only when a snapshot of the same period, at most as young, is kept for that period.
  In particular unmanaged snapshots are never deleted.
\<close>

theorem apply_policy_deletes_only_duplicates:
  assumes "apply_policy C snaps now cfg = Ok (ks, ds)" and "s \<in> set ds"
    and "cutoff C now (weekly_for_days cfg) = Some wc"
    and "cutoff C now (monthly_for_days cfg) = Some mc"
  shows "\<exists>t s' t'. parse C s = Some t \<and> s' \<in> set snaps \<and> parse C s' = Some t' \<and> t' \<le> t \<and>
    bucket_of C wc mc t' = bucket_of C wc mc t \<and>
    (s', bucket_reason (bucket_of C wc mc t)) \<in> set ks"
proof -
  let ?B = "bucket_of C wc mc" and ?rs = "length snaps - recent cfg"
  let ?xs = "take ?rs (parsed_sorted C snaps)"
  have ks: "ks = kept (verdicts ?B ?rs (parsed_sorted C snaps))"
    and ds: "ds = deleted (verdicts ?B ?rs (parsed_sorted C snaps))"
    using assms(1,3,4) by (auto elim!: apply_policy_OkE)
  have "(s, None) \<in> set (old_verdicts ?B {} ?xs)"
    using assms(2) unfolding ds by (auto simp: verdicts_def)
  moreover have "sorted (map snd ?xs)"
    using parsed_sorted_sorted by (simp add: sorted_wrt_take flip: take_map)
  ultimately obtain t s' t' where "(s, Some t) \<in> set ?xs" "(s', Some t') \<in> set ?xs" "t' \<le> t"
    "?B t' = ?B t" "(s', Some (bucket_reason (?B t))) \<in> set (old_verdicts ?B {} ?xs)"
    using old_verdicts_deleted by fastforce
  then have "s \<in> set snaps" "parse C s = Some t" "s' \<in> set snaps" "parse C s' = Some t'"
      "t' \<le> t" "?B t' = ?B t" "(s', bucket_reason (?B t)) \<in> set ks"
    unfolding ks verdicts_def by (auto dest!: in_set_takeD simp: in_parsed_sorted)
  then show ?thesis by blast
qed

text \<open>A second run on what the first one kept.\<close>

lemma kept_map_Some [simp]: "kept (map (\<lambda>(n, r). (n, Some r)) ks) = ks"
  by (induction ks) auto

lemma deleted_map_Some [simp]: "deleted (map (\<lambda>(n, r). (n, Some r)) ks) = []"
  by (induction ks) auto

lemma old_verdicts_again:
  fixes p :: "string \<Rightarrow> datetime option"
  defines "stamp \<equiv> map (\<lambda>s. (s, p s))"
  shows "old_verdicts B seen (stamp (map fst (kept (old_verdicts B seen (stamp ss))))) =
    map (\<lambda>(n, r). (n, Some r)) (kept (old_verdicts B seen (stamp ss)))"
  unfolding stamp_def
proof (induction ss arbitrary: seen)
  case Nil
  then show ?case by simp
next
  case (Cons s ss)
  then show ?case by (cases "p s") auto
qed

lemma map_fst_kept: "map fst (kept vs) = map fst (filter (\<lambda>(n, v). v \<noteq> None) vs)"
  by (induction vs) (auto simp: kept_def List.map_filter_def)

lemma sorted_kept:
  assumes "sorted (map f (map fst vs))"
  shows "sorted (map f (map fst (kept vs)))"
  unfolding map_fst_kept map_map using assms by (simp add: sorted_filter comp_def)

text \<open>
  Retention is stable: applying the policy again, at the same time, to the snapshots it kept
  keeps them all, with the same reasons, and deletes nothing.
\<close>

theorem apply_policy_idempotent:
  assumes "apply_policy C snaps now cfg = Ok (ks, ds)"
  shows "apply_policy C (map fst ks) now cfg = Ok (ks, [])"
proof -
  from assms obtain wc mc where cut: "cutoff C now (weekly_for_days cfg) = Some wc"
      "cutoff C now (monthly_for_days cfg) = Some mc"
    and ks: "ks = kept (verdicts (bucket_of C wc mc) (length snaps - recent cfg)
      (parsed_sorted C snaps))"
    by (rule apply_policy_OkE)
  define rs where "rs = length snaps - recent cfg"
  define ss where "ss = sort_chronological C snaps"
  define stamp where "stamp = map (\<lambda>s. (s, parse C s))"
  define old where "old = kept (old_verdicts (bucket_of C wc mc) {} (stamp (take rs ss)))"
  have xs: "parsed_sorted C snaps = stamp ss"
    by (simp add: parsed_sorted_eq ss_def stamp_def)
  have vs: "verdicts (bucket_of C wc mc) rs (stamp ss) =
      old_verdicts (bucket_of C wc mc) {} (stamp (take rs ss)) @ map (\<lambda>s. (s, Some Daily)) (drop rs ss)"
    by (simp add: verdicts_def stamp_def take_map drop_map)
  have ks': "ks = old @ map (\<lambda>s. (s, Daily)) (drop rs ss)"
    unfolding ks xs vs [unfolded rs_def] by (simp add: old_def rs_def kept_def List.map_filter_def comp_def)
  have "sorted (map (parse C) (map fst ks))"
    unfolding ks by (rule sorted_kept) (simp add: map_fst_verdicts naming.sort_sorted)
  then have again: "parsed_sorted C (map fst ks) = stamp (map fst ks)"
    unfolding parsed_sorted_eq stamp_def sort_chronological_def by (simp add: sort_key_id_if_sorted)
  have len: "length (map fst ks) - recent cfg = length old"
  proof (cases "length snaps \<le> recent cfg")
    case True
    then show ?thesis unfolding ks' by (simp add: rs_def ss_def old_def stamp_def)
  next
    case False
    then show ?thesis unfolding ks' by (simp add: rs_def ss_def)
  qed
  have "verdicts (bucket_of C wc mc) (length old) (stamp (map fst ks)) =
      old_verdicts (bucket_of C wc mc) {} (stamp (map fst old)) @ map (\<lambda>s. (s, Some Daily)) (drop rs ss)"
    unfolding ks' by (simp add: verdicts_def stamp_def comp_def)
  also have "\<dots> = map (\<lambda>(n, r). (n, Some r)) ks"
    unfolding ks' old_def stamp_def old_verdicts_again by (simp add: comp_def)
  finally show ?thesis
    by (simp add: apply_policy_verdicts [OF cut] len [simplified] again)
qed

lemma old_verdicts_take: "old_verdicts B seen (take k xs) = take k (old_verdicts B seen xs)"
proof (induction B seen xs arbitrary: k rule: old_verdicts.induct)
  case (2 B seen n xs)
  then show ?case by (cases k) simp_all
next
  case (3 B seen n t xs)
  then show ?case by (cases k) simp_all
qed simp

text \<open>
  Keeping more recent snapshots never deletes more: with the other settings unchanged, what
  the policy with the larger \<open>recent\<close> deletes, the smaller one deletes too.
\<close>

theorem apply_policy_recent_mono:
  assumes "apply_policy C snaps now cfg = Ok (ks, ds)"
    and "apply_policy C snaps now (cfg\<lparr>recent := larger\<rparr>) = Ok (ks', ds')"
    and "recent cfg \<le> larger"
  shows "set ds' \<subseteq> set ds"
proof
  fix s assume "s \<in> set ds'"
  have le: "length snaps - larger \<le> length snaps - recent cfg"
    using assms(3) by simp
  obtain wc mc where
    "ds = deleted (verdicts (bucket_of C wc mc) (length snaps - recent cfg) (parsed_sorted C snaps))"
    "ds' = deleted (verdicts (bucket_of C wc mc) (length snaps - larger) (parsed_sorted C snaps))"
    using assms(1,2) by (auto elim!: apply_policy_OkE)
  then show "s \<in> set ds"
    using \<open>s \<in> set ds'\<close> subsetD [OF set_take_subset_set_take [OF le]]
    by (auto simp: verdicts_def old_verdicts_take)
qed

section \<open>Two consequences worth knowing\<close>

text \<open>
  When there are no more snapshots than \<open>recent\<close>, all of them are kept, oldest first, with the
  reason Daily: also the unmanaged ones, for which the code's comment promises Unmanaged.
\<close>

theorem apply_policy_few_snapshots:
  assumes "length snaps \<le> recent cfg"
    and "cutoff C now (weekly_for_days cfg) = Some wc"
    and "cutoff C now (monthly_for_days cfg) = Some mc"
  shows "apply_policy C snaps now cfg = Ok (map (\<lambda>n. (n, Daily)) (sort_chronological C snaps), [])"
  using assms(1)
  by (simp add: apply_policy_verdicts [OF assms(2,3)] verdicts_def parsed_sorted_eq comp_def Let_def)

text \<open>
  The bucket of the weekly window is the calendar year together with the ISO week, so an ISO
  week that spans New Year is two buckets and keeps two snapshots.
\<close>

theorem apply_policy_iso_week_across_years:
  assumes "parse C a = Some ta" and "parse C b = Some tb" and "ta < tb"
    and "iso_week C ta = iso_week C tb" and "year C ta \<noteq> year C tb"
    and "cutoff C now (weekly_for_days cfg) = Some wc" and "wc < ta"
    and "cutoff C now (monthly_for_days cfg) = Some mc" and "recent cfg = 0"
  shows "apply_policy C [b, a] now cfg = Ok ([(a, Weekly), (b, Weekly)], [])"
proof -
  have "parsed_sorted C [b, a] = [(a, Some ta), (b, Some tb)]"
    using assms(1,2) not_le [THEN iffD2, OF assms(3)] by (simp add: parsed_sorted_def)
  moreover have "wc < tb" using assms(3,7) by order
  ultimately show ?thesis
    using assms(4,5,7,9)
    by (simp add: apply_policy_verdicts [OF assms(6,8)] verdicts_def bucket_of_def)
qed

section \<open>Witnesses\<close>

text \<open>
  Four snapshots on 22 May 2026, one of them unmanaged: one snapshot of the week of 4 May is
  enough, so the younger one is deleted.
\<close>

definition example_now :: datetime where
  "example_now = DateTime 1779451200000000000"

definition example_cfg :: retention_config where
  "example_cfg = \<lparr>recent = 1, weekly_for_days = 30, monthly_for_days = 365\<rparr>"

definition example_snaps :: "string list" where
  "example_snaps =
     [''t@zrb-2026-05-22T00:00:00Z'', ''t@zrb-2026-05-06T00:00:00Z'', ''t@manual'',
      ''t@zrb-2026-05-05T00:00:00Z'']"

definition example_kept :: "(string \<times> keep_reason) list" where
  "example_kept =
     [(''t@manual'', Unmanaged), (''t@zrb-2026-05-05T00:00:00Z'', Weekly),
      (''t@zrb-2026-05-22T00:00:00Z'', Daily)]"

lemmas example_defs = example_now_def example_cfg_def example_snaps_def example_kept_def

lemma example_parse:
  "parse gregorian ''t@zrb-2026-05-22T00:00:00Z'' = Some (DateTime 1779408000000000000)"
  "parse gregorian ''t@zrb-2026-05-06T00:00:00Z'' = Some (DateTime 1778025600000000000)"
  "parse gregorian ''t@zrb-2026-05-05T00:00:00Z'' = Some (DateTime 1777939200000000000)"
  "parse gregorian ''t@zrb-2025-12-31T00:00:00Z'' = Some (DateTime 1767139200000000000)"
  "parse gregorian ''t@zrb-2026-01-01T00:00:00Z'' = Some (DateTime 1767225600000000000)"
  "parse gregorian ''t@manual'' = None"
  by (simp_all add: parse_def strip_prefix_def PREFIX_def calendar_eval)

lemma example_cutoffs:
  "cutoff gregorian example_now 30 = Some (DateTime 1776859200000000000)"
  "cutoff gregorian example_now 365 = Some (DateTime 1747915200000000000)"
  by (simp_all add: cutoff_def example_now_def day_nanos_def)

lemma example_sorted:
  "parsed_sorted gregorian example_snaps =
     [(''t@manual'', None), (''t@zrb-2026-05-05T00:00:00Z'', Some (DateTime 1777939200000000000)),
      (''t@zrb-2026-05-06T00:00:00Z'', Some (DateTime 1778025600000000000)),
      (''t@zrb-2026-05-22T00:00:00Z'', Some (DateTime 1779408000000000000))]"
  by (simp add: parsed_sorted_def example_snaps_def example_parse less_eq_datetime_def)

lemma example_policy:
  "apply_policy gregorian example_snaps example_now example_cfg =
     Ok (example_kept, [''t@zrb-2026-05-06T00:00:00Z''])"
proof -
  have cut: "cutoff gregorian example_now (weekly_for_days example_cfg) = Some (DateTime 1776859200000000000)"
    "cutoff gregorian example_now (monthly_for_days example_cfg) = Some (DateTime 1747915200000000000)"
    by (simp_all add: example_cfg_def example_cutoffs)
  have wk: "greg_iso_week (DateTime 1777939200000000000) = greg_iso_week (DateTime 1778025600000000000)"
    by (simp add: calendar_eval)
  have yr: "fst (civil_from_days (day_number (DateTime 1777939200000000000))) =
      fst (civil_from_days (day_number (DateTime 1778025600000000000)))"
    by (simp add: calendar_eval)
  show ?thesis
    unfolding apply_policy_verdicts [OF cut] example_sorted
    by (simp add: example_cfg_def example_snaps_def example_kept_def verdicts_def bucket_of_def
        less_datetime_def wk yr)
qed

lemma apply_policy_refines_witness:
  "(let vs = verdicts (bucket_of gregorian (DateTime 1776859200000000000) (DateTime 1747915200000000000))
        (length example_snaps - recent example_cfg) (parsed_sorted gregorian example_snaps)
    in (kept vs, deleted vs)) = (example_kept, [''t@zrb-2026-05-06T00:00:00Z''])"
proof -
  have "cutoff gregorian example_now (weekly_for_days example_cfg) = Some (DateTime 1776859200000000000)"
    "cutoff gregorian example_now (monthly_for_days example_cfg) = Some (DateTime 1747915200000000000)"
    by (simp_all add: example_cfg_def example_cutoffs)
  from apply_policy_refines [OF this, of example_snaps] show ?thesis
    by (simp add: example_policy Let_def)
qed

lemma apply_policy_partition_witness:
  "mset (map fst example_kept) + mset [''t@zrb-2026-05-06T00:00:00Z''] = mset example_snaps"
  by (rule apply_policy_partition [OF example_policy])

lemma apply_policy_recent_witness:
  "filter (\<lambda>(n, r). r = Daily) example_kept = [(''t@zrb-2026-05-22T00:00:00Z'', Daily)]"
proof -
  have "drop (length example_snaps - recent example_cfg) (sort_chronological gregorian example_snaps) =
      [''t@zrb-2026-05-22T00:00:00Z'']"
    unfolding map_fst_parsed_sorted [symmetric] example_sorted
    by (simp add: example_snaps_def example_cfg_def)
  with apply_policy_recent [OF example_policy] show ?thesis by simp
qed

lemma apply_policy_deletes_only_duplicates_witness:
  "\<exists>t s' t'. parse gregorian ''t@zrb-2026-05-06T00:00:00Z'' = Some t \<and> s' \<in> set example_snaps \<and>
    parse gregorian s' = Some t' \<and> t' \<le> t \<and> (s', Weekly) \<in> set example_kept"
proof -
  define B where "B = bucket_of gregorian (DateTime 1776859200000000000) (DateTime 1747915200000000000)"
  have cut: "cutoff gregorian example_now (weekly_for_days example_cfg) = Some (DateTime 1776859200000000000)"
    "cutoff gregorian example_now (monthly_for_days example_cfg) = Some (DateTime 1747915200000000000)"
    by (simp_all add: example_cfg_def example_cutoffs)
  have "bucket_reason (B (DateTime 1778025600000000000)) = Weekly"
    by (simp add: B_def bucket_of_def less_datetime_def)
  with apply_policy_deletes_only_duplicates
    [OF example_policy _ cut, of "''t@zrb-2026-05-06T00:00:00Z''", folded B_def]
  show ?thesis by (auto simp: example_parse)
qed

lemma apply_policy_idempotent_witness:
  "apply_policy gregorian (map fst example_kept) example_now example_cfg = Ok (example_kept, [])"
  by (rule apply_policy_idempotent [OF example_policy])

lemma apply_policy_few_snapshots_witness:
  "apply_policy gregorian [''t@manual''] example_now example_cfg = Ok ([(''t@manual'', Daily)], [])"
  using apply_policy_few_snapshots [of "[''t@manual'']" example_cfg gregorian example_now]
  by (simp add: example_cfg_def example_cutoffs sort_chronological_def)

lemma apply_policy_recent_mono_witness:
  "set ([] :: string list) \<subseteq> set [''t@zrb-2026-05-06T00:00:00Z'']"
proof (rule apply_policy_recent_mono [OF example_policy])
  show "apply_policy gregorian example_snaps example_now (example_cfg\<lparr>recent := 4\<rparr>) =
      Ok (map (\<lambda>n. (n, Daily)) (map fst (parsed_sorted gregorian example_snaps)), [])"
    using example_cutoffs
    by (simp add: apply_policy_def example_cfg_def retain_loop_verdicts Let_def verdicts_def
        example_sorted)
qed (simp add: example_cfg_def)

lemma apply_policy_iso_week_across_years_witness:
  "apply_policy gregorian [''t@zrb-2026-01-01T00:00:00Z'', ''t@zrb-2025-12-31T00:00:00Z''] example_now
     \<lparr>recent = 0, weekly_for_days = 365, monthly_for_days = 365\<rparr> =
   Ok ([(''t@zrb-2025-12-31T00:00:00Z'', Weekly), (''t@zrb-2026-01-01T00:00:00Z'', Weekly)], [])"
  by (rule apply_policy_iso_week_across_years [OF example_parse(4,5),
        where wc="DateTime 1747915200000000000" and mc="DateTime 1747915200000000000"])
    (simp_all add: example_cutoffs less_datetime_def calendar_eval)

end
