(* ===== verification/Prune.thy ===== *)
theory Prune
  imports Listing Retention
begin

text \<open>
  Pruning a dataset (\<open>src/ops/prune.rs\<close>): the decision about a pending resume token, the
  Retention Policy, Transfer Holds, and the destruction of what is left.
\<close>

section \<open>The code\<close>

datatype ResumeDecision = Idle | Wait | Expire

text \<open>\<open>Duration::days\<close> of a \<open>u32\<close> is always in range: that many days.\<close>

definition resume_decision ::
    "bool \<Rightarrow> datetime option \<Rightarrow> datetime \<Rightarrow> u32 option \<Rightarrow> ResumeDecision" where
  "resume_decision has_token since now hold_days =
     (if \<not> has_token then Idle
      else case since of
        None \<Rightarrow> Wait
      | Some since \<Rightarrow>
          (case hold_days of
             None \<Rightarrow> Expire
           | Some days \<Rightarrow>
               if int (unat days) * day_nanos \<le> signed_duration_since now since then Expire else Wait))"

definition zrb_holds_from_tags :: "string list \<Rightarrow> string list" where
  "zrb_holds_from_tags holds = filter (prefix ''zrb:'') holds"

fun classify_loop ::
    "(string, string list) hmap \<Rightarrow> string list \<Rightarrow> string list \<Rightarrow> (string \<times> string) list \<Rightarrow>
     string list \<times> (string \<times> string) list" where
  "classify_loop holds_map [] to_delete hold_skipped = (to_delete, hold_skipped)"
| "classify_loop holds_map (snap # rest) to_delete hold_skipped =
     (let zrb_holds = zrb_holds_from_tags (tags_of holds_map snap)
      in if zrb_holds = []
         then classify_loop holds_map rest (to_delete @ [snap]) hold_skipped
         else classify_loop holds_map rest to_delete
                (hold_skipped @ map (\<lambda>tag. (snap, tag)) zrb_holds))"

definition classify_candidates ::
    "string list \<Rightarrow> (string, string list) hmap \<Rightarrow> string list \<times> (string \<times> string) list" where
  "classify_candidates candidates holds_map = classify_loop holds_map candidates [] []"

record prune_result =
  pr_kept :: "(string \<times> keep_reason) list"
  pr_deleted :: "string list"
  pr_resume_skipped :: bool
  pr_hold_skipped :: "(string \<times> string) list"

fun destroy_loop :: "'w os \<Rightarrow> bool \<Rightarrow> string list \<Rightarrow> string list \<Rightarrow> ('w, string list) io" where
  "destroy_loop S dry_run [] dels = io_return dels"
| "destroy_loop S dry_run (snap # rest) dels =
     io_bind (if dry_run then io_return () else destroy_snapshot S snap)
       (\<lambda>_. destroy_loop S dry_run rest (dels @ [snap]))"

text \<open>The second half of \<open>prune\<close>, after the resume decision.\<close>

definition prune_snapshots ::
    "'w os \<Rightarrow> chrono \<Rightarrow> string \<Rightarrow> retention_config \<Rightarrow> bool \<Rightarrow> ('w, prune_result) io" where
  "prune_snapshots S C dataset config dry_run =
     io_bind (list_zrb S C dataset) (\<lambda>snapshots.
     io_bind (io_now S) (\<lambda>now.
     io_bind (io_res (apply_policy C snapshots now config)) (\<lambda>(keeps, candidates).
     io_bind (batch_snapshot_holds S candidates) (\<lambda>holds_map.
     let (to_delete, hold_skipped) = classify_candidates candidates holds_map
     in io_bind (destroy_loop S dry_run to_delete []) (\<lambda>dels.
        io_return \<lparr>pr_kept = keeps, pr_deleted = dels, pr_resume_skipped = False,
                   pr_hold_skipped = hold_skipped\<rparr>)))))"

text \<open>What the decision leads to.\<close>

definition prune_decided ::
    "'w os \<Rightarrow> chrono \<Rightarrow> string \<Rightarrow> retention_config \<Rightarrow> bool \<Rightarrow> bool \<Rightarrow> ResumeDecision \<Rightarrow>
     ('w, prune_result) io" where
  "prune_decided S C dataset config dry_run had_since decision =
     (case decision of
        Idle \<Rightarrow>
          io_bind (if had_since \<and> \<not> dry_run then clear_resume_since S dataset else io_return ())
            (\<lambda>_. prune_snapshots S C dataset config dry_run)
      | Wait \<Rightarrow>
          io_return \<lparr>pr_kept = [], pr_deleted = [], pr_resume_skipped = True, pr_hold_skipped = []\<rparr>
      | Expire \<Rightarrow>
          io_bind (if \<not> dry_run
                   then io_bind (abort_resume S dataset) (\<lambda>_. clear_resume_since S dataset)
                   else io_return ())
            (\<lambda>_. prune_snapshots S C dataset config dry_run))"

definition prune ::
    "'w os \<Rightarrow> chrono \<Rightarrow> string \<Rightarrow> retention_config \<Rightarrow> u32 option \<Rightarrow> bool \<Rightarrow> bool \<Rightarrow>
     ('w, prune_result) io" where
  "prune S C dataset config hold_days dry_run abort_res =
     io_bind (get_resume_token S dataset) (\<lambda>token.
     io_bind (get_resume_since S C dataset) (\<lambda>since.
     io_bind (io_now S) (\<lambda>now.
     let decision = resume_decision (token \<noteq> None) since now hold_days
     in prune_decided S C dataset config dry_run (since \<noteq> None)
          (if abort_res \<and> decision = Wait then Expire else decision))))"

section \<open>Classification\<close>

lemma classify_loop_eq:
  "classify_loop m snaps del skip =
     (del @ filter (\<lambda>s. zrb_holds_from_tags (tags_of m s) = []) snaps,
      skip @ concat (map (\<lambda>s. map (Pair s) (zrb_holds_from_tags (tags_of m s))) snaps))"
  by (induction snaps arbitrary: del skip) (simp_all add: Let_def)

lemma classify_candidates_eq:
  "classify_candidates snaps m =
     (filter (\<lambda>s. zrb_holds_from_tags (tags_of m s) = []) snaps,
      concat (map (\<lambda>s. map (Pair s) (zrb_holds_from_tags (tags_of m s))) snaps))"
  by (simp add: classify_candidates_def classify_loop_eq)

text \<open>
  Classification against the output of \<open>zfs holds\<close>: a candidate is deleted exactly when that
  output lists no \<open>zrb:\<close> tag for it, in the order of the candidates, and every skipped pair is a
  candidate with one of its \<open>zrb:\<close> tags; no candidate is lost.
\<close>

theorem classify_candidates_correct:
  assumes "classify_candidates candidates (read_holds output) = (to_delete, hold_skipped)"
  shows "to_delete = filter (\<lambda>s. \<forall>tag. s \<in> set (parse_held_snapshots_for_tag output tag) \<longrightarrow>
      \<not> prefix ''zrb:'' tag) candidates \<and>
    set hold_skipped = {(s, tag). s \<in> set candidates \<and> prefix ''zrb:'' tag \<and>
      s \<in> set (parse_held_snapshots_for_tag output tag)} \<and>
    set candidates = set to_delete \<union> fst ` set hold_skipped"
proof -
  have hp: "s \<in> set (parse_held_snapshots_for_tag output tag) \<longleftrightarrow> (s, tag) \<in> set (hold_pairs output)"
    and tg: "tag \<in> set (tags_of (read_holds output) s) \<longleftrightarrow> (s, tag) \<in> set (hold_pairs output)" for s tag
    by (force simp: parse_held_pairs tags_of_read_holds)+
  have none: "zrb_holds_from_tags (tags_of (read_holds output) s) = [] \<longleftrightarrow>
      (\<forall>tag. s \<in> set (parse_held_snapshots_for_tag output tag) \<longrightarrow> \<not> prefix ''zrb:'' tag)" for s
    by (auto simp: zrb_holds_from_tags_def filter_empty_conv hp tg)
  have some: "tag \<in> set (zrb_holds_from_tags (tags_of (read_holds output) s)) \<longleftrightarrow>
      prefix ''zrb:'' tag \<and> s \<in> set (parse_held_snapshots_for_tag output tag)" for s tag
    by (auto simp: zrb_holds_from_tags_def hp tg)
  have del: "to_delete = filter (\<lambda>s. zrb_holds_from_tags (tags_of (read_holds output) s) = []) candidates"
    and skip: "hold_skipped = concat (map (\<lambda>s. map (Pair s)
      (zrb_holds_from_tags (tags_of (read_holds output) s))) candidates)"
    using assms by (simp_all add: classify_candidates_eq)
  have "set candidates = set to_delete \<union> fst ` set hold_skipped"
    unfolding del skip by (force simp: image_iff)
  moreover have "set hold_skipped = {(s, tag). s \<in> set candidates \<and> prefix ''zrb:'' tag \<and>
      s \<in> set (parse_held_snapshots_for_tag output tag)}"
    unfolding skip by (auto simp: some)
  ultimately show ?thesis using del unfolding none by blast
qed

section \<open>Which processes pruning starts\<close>

lemma emits_destroy_loop [emits_intro]:
  "(\<And>snap. snap \<in> set snaps \<Longrightarrow> \<not> dry_run \<Longrightarrow> guardrail snap \<Longrightarrow> P [''destroy'', snap]) \<Longrightarrow>
   emits P (destroy_loop S dry_run snaps dels)"
  by (induction snaps arbitrary: dels) (auto intro!: emits_intro)

lemma emits_case_decision [emits_intro]:
  "(d = Idle \<Longrightarrow> emits P a) \<Longrightarrow> (d = Wait \<Longrightarrow> emits P b) \<Longrightarrow> (d = Expire \<Longrightarrow> emits P c) \<Longrightarrow>
   emits P (case d of Idle \<Rightarrow> a | Wait \<Rightarrow> b | Expire \<Rightarrow> c)"
  by (cases d) simp_all

text \<open>What pruning a dataset may do besides reporting.\<close>

definition prune_command :: "string \<Rightarrow> string list \<Rightarrow> bool" where
  "prune_command dataset argv \<longleftrightarrow>
     argv = [''receive'', ''-A'', dataset] \<or>
     argv = [''inherit'', ''zrb:resume-since'', dataset] \<or>
     (\<exists>ds ts. argv = [''destroy'', ds @ ''@zrb-'' @ ts] \<and> CHR ''@'' \<notin> set ds \<and> CHR ''@'' \<notin> set ts)"

lemma prune_command_simps [simp]:
  "prune_command ds [''receive'', ''-A'', ds]" "prune_command ds [''inherit'', ''zrb:resume-since'', ds]"
  "guardrail snap \<Longrightarrow> prune_command ds [''destroy'', snap]"
  unfolding prune_command_def guardrail_iff by auto

lemma emits_prune_snapshots [emits_intro]:
  assumes "\<And>c. read_only c \<Longrightarrow> P c" "\<And>snap. \<not> dry_run \<Longrightarrow> guardrail snap \<Longrightarrow> P [''destroy'', snap]"
  shows "emits P (prune_snapshots S C dataset config dry_run)"
  unfolding prune_snapshots_def Let_def using assms
  by (auto intro!: emits_intro split: prod.split)

lemma emits_prune:
  "emits (\<lambda>c. read_only c \<or> \<not> dry_run \<and> prune_command dataset c)
     (prune S C dataset config hold_days dry_run abort_res)"
  unfolding prune_def prune_decided_def Let_def
  by (auto intro!: emits_intro)

text \<open>
  A dry run changes nothing: whatever the state of the pool and the options, it only starts
  \<open>zfs list\<close>, \<open>zfs get\<close> and \<open>zfs holds\<close>.
\<close>

theorem prune_dry_run_read_only:
  "emits read_only (prune S C dataset config hold_days True abort_res)"
  by (rule emits_mono [OF emits_prune]) simp

text \<open>
  Besides reporting, a real run only aborts the pending receive of this dataset, clears its
  \<open>zrb:resume-since\<close>, and destroys single snapshots with a \<open>zrb-\<close> name.
\<close>

theorem prune_commands:
  "emits (\<lambda>c. read_only c \<or> prune_command dataset c)
     (prune S C dataset config hold_days dry_run abort_res)"
  by (rule emits_mono [OF emits_prune]) blast

section \<open>The report\<close>

lemma destroy_snapshot_Ok:
  "destroy_snapshot S snap s = (Ok u, s') \<Longrightarrow> cmds s' = cmds s @ [[''destroy'', snap]]"
  by (auto simp: destroy_snapshot_def run_unit_def io_bind_def run_def Let_def io_return_def io_panic_def
      split: if_splits prod.splits proc_out.splits)

lemma destroy_loop_Ok:
  assumes "destroy_loop S dry_run snaps dels s = (Ok ds, s')"
  shows "ds = dels @ snaps"
    and "cmds s' = cmds s @ (if dry_run then [] else map (\<lambda>sn. [''destroy'', sn]) snaps)"
proof -
  have "ds = dels @ snaps \<and>
      cmds s' = cmds s @ (if dry_run then [] else map (\<lambda>sn. [''destroy'', sn]) snaps)"
    using assms
  proof (induction snaps arbitrary: dels s)
    case Nil
    then show ?case by (simp add: io_return_def)
  next
    case (Cons snap snaps)
    show ?case
    proof (cases dry_run)
      case True
      then show ?thesis using Cons by fastforce
    next
      case False
      then obtain u s1 where "destroy_snapshot S snap s = (Ok u, s1)"
        "destroy_loop S dry_run snaps (dels @ [snap]) s1 = (Ok ds, s')"
        using Cons.prems by (auto simp: io_bind_Ok_iff)
      with Cons.IH [of "dels @ [snap]" s1] destroy_snapshot_Ok False show ?thesis by fastforce
    qed
  qed
  then show "ds = dels @ snaps"
    and "cmds s' = cmds s @ (if dry_run then [] else map (\<lambda>sn. [''destroy'', sn]) snaps)"
    by simp_all
qed

definition not_destroy :: "string list \<Rightarrow> bool" where
  "not_destroy argv \<longleftrightarrow> (\<forall>snap. argv \<noteq> [''destroy'', snap])"

lemma read_only_not_destroy: "read_only c \<Longrightarrow> not_destroy c"
  by (auto simp: read_only_def not_destroy_def split: list.splits)

lemma prune_snapshots_Ok:
  assumes "prune_snapshots S C dataset config dry_run s = (Ok r, s')"
  obtains snaps now keeps candidates out pre where
    "apply_policy C snaps now config = Ok (keeps, candidates)" "set snaps \<subseteq> {x. is_zrb C x}"
    "pr_kept r = keeps"
    "classify_candidates candidates (read_holds out) = (pr_deleted r, pr_hold_skipped r)"
    "pr_resume_skipped r = False"
    "cmds s' = cmds s @ pre @ (if dry_run then [] else map (\<lambda>sn. [''destroy'', sn]) (pr_deleted r))"
    "list_all not_destroy pre"
proof -
  obtain snaps s1 now s2 keeps candidates m s3 ds where
    1: "list_zrb S C dataset s = (Ok snaps, s1)" and
    2: "io_now S s1 = (Ok now, s2)" and
    3: "apply_policy C snaps now config = Ok (keeps, candidates)" and
    4: "batch_snapshot_holds S candidates s2 = (Ok m, s3)" and
    5: "destroy_loop S dry_run (fst (classify_candidates candidates m)) [] s3 = (Ok ds, s')" and
    r: "r = \<lparr>pr_kept = keeps, pr_deleted = ds, pr_resume_skipped = False,
       pr_hold_skipped = snd (classify_candidates candidates m)\<rparr>"
    using assms
    by (auto simp: prune_snapshots_def io_bind_Ok_iff io_res_def io_return_def Let_def case_prod_beta)
  note dl = destroy_loop_Ok [OF 5]
  have "emits not_destroy (list_zrb S C dataset)" "emits not_destroy (batch_snapshot_holds S candidates)"
    by (auto intro!: emits_intro simp: read_only_not_destroy)
  then obtain c1 c2 where "cmds s1 = cmds s @ c1" "list_all not_destroy c1"
    "cmds s3 = cmds s2 @ c2" "list_all not_destroy c2"
    using emitsD 1 4 by metis
  moreover have "cmds s2 = cmds s1" using 2 by (auto simp: io_now_def split: prod.splits)
  moreover have "set snaps \<subseteq> {x. is_zrb C x}"
    using 1 by (rule list_snapshots_Ok_raw) auto
  moreover obtain out where "m = read_holds out"
  proof (cases "candidates = []")
    case True
    then have "m = read_holds []"
      using 4 by (simp add: batch_snapshot_holds_def io_return_def read_holds_def)
    then show thesis by (rule that)
  next
    case False
    then show thesis
      using 4 that by (auto simp: batch_snapshot_holds_def io_bind_Ok_iff io_return_def)
  qed
  ultimately show thesis
    using dl 3 r by (intro that [of snaps now keeps candidates out "c1 @ c2"]) simp_all
qed

lemma read_only_emits_not_destroy:
  "emits not_destroy (get_resume_token S ds)" "emits not_destroy (get_resume_since S C ds)"
  "emits not_destroy (clear_resume_since S ds)" "emits not_destroy (abort_resume S ds)"
  by (auto intro!: emits_intro simp: not_destroy_def)

text \<open>How a finished run of \<open>prune\<close> went.\<close>

lemma prune_Ok_cases:
  assumes "prune S C dataset config hold_days dry_run abort_res s = (Ok r, s')"
  obtains (skipped) "r = \<lparr>pr_kept = [], pr_deleted = [], pr_resume_skipped = True, pr_hold_skipped = []\<rparr>"
  | (pruned) s1 where "prune_snapshots S C dataset config dry_run s1 = (Ok r, s')"
      "\<exists>pre. cmds s1 = cmds s @ pre \<and> list_all not_destroy pre"
proof -
  obtain tok sa since sb now sc hs d where
    1: "get_resume_token S dataset s = (Ok tok, sa)" and
    2: "get_resume_since S C dataset sa = (Ok since, sb)" and
    3: "io_now S sb = (Ok now, sc)" and
    run: "prune_decided S C dataset config dry_run hs d sc = (Ok r, s')"
    using assms by (auto simp: prune_def io_bind_Ok_iff Let_def)
  define first where "first =
      (case d of Idle \<Rightarrow> if hs \<and> \<not> dry_run then clear_resume_since S dataset else io_return ()
       | Wait \<Rightarrow> io_return ()
       | Expire \<Rightarrow> if \<not> dry_run then io_bind (abort_resume S dataset) (\<lambda>_. clear_resume_since S dataset)
                   else io_return ())"
  show thesis
  proof (cases "d = Wait")
    case True
    with run skipped show thesis by (simp add: prune_decided_def io_return_def)
  next
    case False
    then have "io_bind first (\<lambda>_. prune_snapshots S C dataset config dry_run) sc = (Ok r, s')"
      using run by (cases d) (simp_all add: prune_decided_def first_def)
    then obtain u sd where fst: "first sc = (Ok u, sd)"
      and snd: "prune_snapshots S C dataset config dry_run sd = (Ok r, s')"
      by (auto simp: io_bind_Ok_iff)
    have "emits not_destroy first"
      unfolding first_def by (auto intro!: emits_intro read_only_emits_not_destroy split: ResumeDecision.split)
    then obtain c1 c2 c3 where "cmds sa = cmds s @ c1" "list_all not_destroy c1"
      "cmds sb = cmds sa @ c2" "list_all not_destroy c2" "cmds sd = cmds sc @ c3" "list_all not_destroy c3"
      using emitsD read_only_emits_not_destroy(1,2) 1 2 fst by metis
    moreover have "cmds sc = cmds sb" using 3 by (auto simp: io_now_def split: prod.splits)
    ultimately show thesis
      by (intro pruned [OF snd] exI [of _ "c1 @ c2 @ c3"]) simp
  qed
qed

text \<open>
  C7. The report is accurate: the snapshots it lists as deleted are exactly those for which
  \<open>zfs destroy\<close> was run, in that order (none in a dry run); they and the skipped ones are the
  classification, by an output of \<open>zfs holds\<close>, of the Retention Policy's deletions, and what it
  lists as kept is what the policy keeps.
\<close>

theorem prune_report_accurate:
  assumes "prune S C dataset config hold_days dry_run abort_res s = (Ok r, s')"
    and "\<not> pr_resume_skipped r"
  shows "\<exists>pre snaps now candidates out.
    cmds s' = cmds s @ pre @ (if dry_run then [] else map (\<lambda>sn. [''destroy'', sn]) (pr_deleted r)) \<and>
    list_all not_destroy pre \<and>
    apply_policy C snaps now config = Ok (pr_kept r, candidates) \<and> set snaps \<subseteq> {x. is_zrb C x} \<and>
    classify_candidates candidates (read_holds out) = (pr_deleted r, pr_hold_skipped r)"
  using assms(1)
proof (cases rule: prune_Ok_cases)
  case skipped
  with assms(2) show ?thesis by simp
next
  case (pruned s1)
  from pruned(1) obtain snaps now keeps candidates out pre where
    p: "apply_policy C snaps now config = Ok (keeps, candidates)" "set snaps \<subseteq> {x. is_zrb C x}"
    "pr_kept r = keeps" "classify_candidates candidates (read_holds out) = (pr_deleted r, pr_hold_skipped r)"
    "cmds s' = cmds s1 @ pre @ (if dry_run then [] else map (\<lambda>sn. [''destroy'', sn]) (pr_deleted r))"
    "list_all not_destroy pre"
    by (rule prune_snapshots_Ok)
  obtain pre' where "cmds s1 = cmds s @ pre'" "list_all not_destroy pre'"
    using pruned(2) by blast
  then show ?thesis
    using p by (intro exI [of _ "pre' @ pre"] exI [of _ snaps] exI [of _ now] exI [of _ candidates]
        exI [of _ out]) simp
qed

section \<open>The guard is never tripped\<close>

lemma is_zrb_guardrail:
  assumes "\<And>ts t. parse_rfc3339 C ts = Some t \<Longrightarrow> CHR ''@'' \<notin> set ts" and "is_zrb C x"
  shows "guardrail x"
proof -
  obtain t where "parse C x = Some t" using assms(2) by (auto simp: is_zrb_def)
  then obtain ds ts where "x = ds @ ''@'' @ PREFIX @ ts" "CHR ''@'' \<notin> set ds" "parse_rfc3339 C ts = Some t"
    by (rule parse_SomeE)
  then show ?thesis
    using assms(1) unfolding guardrail_iff by (intro exI [of _ ds] exI [of _ ts]) (simp add: PREFIX_def)
qed

definition cutoff_panic :: "string \<Rightarrow> bool" where
  "cutoff_panic p \<longleftrightarrow> p \<in> {''weekly cutoff out of range'', ''monthly cutoff out of range''}"

lemma apply_policy_Panic: "apply_policy C snaps now cfg = Panic p \<Longrightarrow> cutoff_panic p"
  by (auto simp: apply_policy_def cutoff_panic_def Let_def split: option.splits)

lemma panics_destroy_loop:
  "(\<And>x. x \<in> set snaps \<Longrightarrow> guardrail x) \<Longrightarrow> panics_in Q (destroy_loop S dry_run snaps dels)"
  by (induction snaps arbitrary: dels) (auto intro!: panics_intro)

lemma panics_prune_snapshots:
  assumes "\<And>ts t. parse_rfc3339 C ts = Some t \<Longrightarrow> CHR ''@'' \<notin> set ts"
  shows "panics_in cutoff_panic (prune_snapshots S C dataset config dry_run)" (is "panics_in ?Q _")
  unfolding prune_snapshots_def
proof (rule panics_bind_result)
  show "panics_in ?Q (list_zrb S C dataset)"
    unfolding list_zrb_def by (intro panics_intro)
  fix snaps s s' assume run: "list_zrb S C dataset s = (Ok snaps, s')"
  have zrb: "\<And>x. x \<in> set snaps \<Longrightarrow> is_zrb C x"
    using run by (rule list_snapshots_Ok_raw) auto
  show "panics_in ?Q (io_bind (io_now S) (\<lambda>now.
     io_bind (io_res (apply_policy C snaps now config)) (\<lambda>(keeps, candidates).
     io_bind (batch_snapshot_holds S candidates) (\<lambda>holds_map.
     let (to_delete, hold_skipped) = classify_candidates candidates holds_map
     in io_bind (destroy_loop S dry_run to_delete []) (\<lambda>dels.
        io_return \<lparr>pr_kept = keeps, pr_deleted = dels, pr_resume_skipped = False,
                   pr_hold_skipped = hold_skipped\<rparr>)))))"
  proof (rule panics_bind [OF panics_now], rule panics_bind_result)
    fix now
    show "panics_in ?Q (io_res (apply_policy C snaps now config))"
      by (rule panics_res) (rule apply_policy_Panic)
    fix kc s s' assume "io_res (apply_policy C snaps now config) s = (Ok kc, s')"
    then obtain ks cands where kc: "kc = (ks, cands)" and ap: "apply_policy C snaps now config = Ok (ks, cands)"
      by (cases kc) (simp add: io_res_def)
    have "set cands \<subseteq> set snaps"
      using apply_policy_mset [OF ap] by (metis set_mset_mset set_mset_union Un_upper2)
    moreover have "guardrail x" if "is_zrb C x" for x
      by (rule is_zrb_guardrail [OF _ that]) (rule assms)
    ultimately have "\<And>x. x \<in> set cands \<Longrightarrow> guardrail x"
      using zrb by blast
    then show "panics_in ?Q (case kc of (keeps, candidates) \<Rightarrow>
       io_bind (batch_snapshot_holds S candidates) (\<lambda>holds_map.
       let (to_delete, hold_skipped) = classify_candidates candidates holds_map
       in io_bind (destroy_loop S dry_run to_delete []) (\<lambda>dels.
          io_return \<lparr>pr_kept = keeps, pr_deleted = dels, pr_resume_skipped = False,
                     pr_hold_skipped = hold_skipped\<rparr>)))"
      by (auto simp: kc classify_candidates_eq intro!: panics_intro panics_destroy_loop)
  qed
qed

text \<open>
  C19. Pruning never trips the guard of \<open>destroy_snapshot\<close>: when no accepted timestamp contains an
  \<open>@\<close>, the only panics possible are those of the two retention cutoffs.
\<close>

theorem prune_never_trips_guardrail:
  assumes "\<And>ts t. parse_rfc3339 C ts = Some t \<Longrightarrow> CHR ''@'' \<notin> set ts"
    and "prune S C dataset config hold_days dry_run abort_res s = (Panic p, s')"
  shows "p \<in> {''weekly cutoff out of range'', ''monthly cutoff out of range''}"
proof -
  have "panics_in cutoff_panic (prune_decided S C dataset config dry_run hs d)" for hs d
    unfolding prune_decided_def using panics_prune_snapshots [OF assms(1)]
    by (cases d) (auto intro!: panics_intro)
  then have "panics_in cutoff_panic (prune S C dataset config hold_days dry_run abort_res)"
    unfolding prune_def Let_def by (intro panics_intro)
  with assms(2) show ?thesis unfolding cutoff_panic_def by (blast dest: panics_inD)
qed

section \<open>A pending resume\<close>

text \<open>
  C18. While a partial receive may still be resumed, pruning keeps its hands off: with a resume
  token that the server has not dated yet, or whose hold period has not elapsed, and without
  \<open>--abort-resume\<close>, nothing is started beyond the two \<open>zfs get\<close>, and the result says so.
\<close>

theorem prune_waits_for_resume:
  assumes "get_resume_token S dataset s = (Ok (Some token), s1)"
    and "get_resume_since S C dataset s1 = (Ok since, s2)"
    and "utc_now S (env s2) = (now, w)"
    and "case since of None \<Rightarrow> True
         | Some t \<Rightarrow> hold_days = Some d \<and> signed_duration_since now t < int (unat d) * day_nanos"
  shows "prune S C dataset config hold_days dry_run False s =
    (Ok \<lparr>pr_kept = [], pr_deleted = [], pr_resume_skipped = True, pr_hold_skipped = []\<rparr>, s2\<lparr>env := w\<rparr>)"
proof -
  have "resume_decision True since now hold_days = Wait"
    using assms(4) by (auto simp: resume_decision_def split: option.splits)
  then show ?thesis
    using assms(1-3) by (simp add: prune_def prune_decided_def io_bind_def io_now_def io_return_def)
qed
section \<open>Witnesses\<close>

text \<open>
  A pool with two zrb snapshots in the same week and one that is not managed; the younger
  snapshot is deleted unless it is held.
\<close>

definition prune_answer :: "string \<Rightarrow> string list \<Rightarrow> proc_out" where
  "prune_answer holds argv =
     (if hd argv = ''holds'' then Exited True holds [] else Exited True (hd argv) [])"

definition prune_json :: "string \<Rightarrow> string \<Rightarrow> string + zfs_json" where
  "prune_json token text =
     (if text = ''list'' then Inr two_snapshots
      else Inr \<lparr>zo_datasets = [(''t'', \<lparr>di_properties =
             [(''receive_resume_token'', \<lparr>pv_value = token\<rparr>), (''zrb:resume-since'', \<lparr>pv_value = ''-''\<rparr>)]\<rparr>)]\<rparr>)"

definition prune_os :: "string \<Rightarrow> string \<Rightarrow> unit os" where
  "prune_os token holds = static_os (prune_answer holds) (prune_json token) example_now"

definition prune_cfg :: retention_config where
  "prune_cfg = \<lparr>recent = 0, weekly_for_days = 30, monthly_for_days = 365\<rparr>"

lemma prune_list:
  "list_zrb (prune_os tok h) gregorian ''t'' s =
     (Ok [''t@zrb-2026-05-05T00:00:00Z'', ''t@zrb-2026-05-06T00:00:00Z''],
      s\<lparr>cmds := cmds s @ [[''list'', ''-t'', ''snapshot'', ''--json'', ''t'']]\<rparr>)"
  by (simp add: list_zrb_def list_snapshots_def run_def prune_os_def prune_answer_def prune_json_def
      io_match_def io_bind_def io_result_def io_return_def decode_list_json_def parse_json_def
      two_snapshots_def filter_zrb_def is_zrb_def parse_example sort_chronological_def
      less_eq_datetime_def)

lemma prune_policy:
  "apply_policy gregorian [''t@zrb-2026-05-05T00:00:00Z'', ''t@zrb-2026-05-06T00:00:00Z''] example_now prune_cfg =
     Ok ([(''t@zrb-2026-05-05T00:00:00Z'', Weekly)], [''t@zrb-2026-05-06T00:00:00Z''])"
proof -
  have cfg: "cutoff gregorian example_now (weekly_for_days prune_cfg) = Some (DateTime 1776859200000000000)"
    "cutoff gregorian example_now (monthly_for_days prune_cfg) = Some (DateTime 1747915200000000000)"
    by (simp_all add: prune_cfg_def example_cutoffs)
  have srt: "parsed_sorted gregorian [''t@zrb-2026-05-05T00:00:00Z'', ''t@zrb-2026-05-06T00:00:00Z''] =
      [(''t@zrb-2026-05-05T00:00:00Z'', Some (DateTime 1777939200000000000)),
       (''t@zrb-2026-05-06T00:00:00Z'', Some (DateTime 1778025600000000000))]"
    by (simp add: parsed_sorted_def parse_example less_eq_datetime_def)
  have wk: "greg_iso_week (DateTime 1777939200000000000) = greg_iso_week (DateTime 1778025600000000000)"
    by (simp add: calendar_eval)
  have yr: "fst (civil_from_days (day_number (DateTime 1777939200000000000))) =
      fst (civil_from_days (day_number (DateTime 1778025600000000000)))"
    by (simp add: calendar_eval)
  show ?thesis
    unfolding apply_policy_verdicts [OF cfg] srt
    by (simp add: prune_cfg_def verdicts_def bucket_of_def less_datetime_def wk yr)
qed

lemma prune_gets:
  "get_resume_token (prune_os tok h) ''t'' s =
     (Ok (map_token_value (Some tok)),
      s\<lparr>cmds := cmds s @ [[''get'', ''--json'', ''receive_resume_token'', ''t'']]\<rparr>)"
  "get_resume_since (prune_os tok h) C ''t'' s =
     (Ok None, s\<lparr>cmds := cmds s @ [[''get'', ''--json'', ''zrb:resume-since'', ''t'']]\<rparr>)"
  by (simp_all add: get_resume_token_def get_resume_since_def run_def prune_os_def prune_answer_def
      prune_json_def io_match_def io_bind_def io_result_def io_return_def decode_property_json_def
      parse_json_def map_since_value_def)

definition prune_final_cmds :: "string list list" where
  "prune_final_cmds =
     [[''get'', ''--json'', ''receive_resume_token'', ''t''], [''get'', ''--json'', ''zrb:resume-since'', ''t''],
      [''list'', ''-t'', ''snapshot'', ''--json'', ''t''], [''holds'', ''-H'', ''t@zrb-2026-05-06T00:00:00Z''],
      [''destroy'', ''t@zrb-2026-05-06T00:00:00Z'']]"

definition prune_final :: prune_result where
  "prune_final = \<lparr>pr_kept = [(''t@zrb-2026-05-05T00:00:00Z'', Weekly)],
     pr_deleted = [''t@zrb-2026-05-06T00:00:00Z''], pr_resume_skipped = False, pr_hold_skipped = []\<rparr>"

lemma prune_run:
  "prune (prune_os ''-'' []) gregorian ''t'' prune_cfg None False False st0 =
     (Ok prune_final, st0\<lparr>cmds := prune_final_cmds\<rparr>)"
proof -
  have now: "io_now (prune_os ''-'' []) s = (Ok example_now, s)" for s
    by (simp add: io_now_def prune_os_def)
  have dec: "resume_decision False None example_now None = Idle"
    by (simp add: resume_decision_def)
  have hold: "batch_snapshot_holds (prune_os ''-'' []) [''t@zrb-2026-05-06T00:00:00Z''] s =
      (Ok [], s\<lparr>cmds := cmds s @ [[''holds'', ''-H'', ''t@zrb-2026-05-06T00:00:00Z'']]\<rparr>)" for s
    by (simp add: batch_snapshot_holds_def io_bind_def run_def prune_os_def prune_answer_def
        io_return_def read_holds_def)
  have gr: "guardrail ''t@zrb-2026-05-06T00:00:00Z''"
    by (simp add: guardrail_def)
  have des: "destroy_snapshot (prune_os ''-'' []) ''t@zrb-2026-05-06T00:00:00Z'' s =
      (Ok (), s\<lparr>cmds := cmds s @ [[''destroy'', ''t@zrb-2026-05-06T00:00:00Z'']]\<rparr>)" for s
    unfolding destroy_snapshot_def
    by (simp add: gr run_unit_def io_bind_def run_def prune_os_def prune_answer_def io_return_def)
  have cls: "classify_candidates [''t@zrb-2026-05-06T00:00:00Z''] [] = ([''t@zrb-2026-05-06T00:00:00Z''], [])"
    by (simp add: classify_candidates_eq tags_of_def zrb_holds_from_tags_def)
  show ?thesis
    by (simp add: prune_def prune_decided_def prune_snapshots_def io_bind_def prune_gets map_token_value_def
        now dec io_return_def prune_list io_res_def prune_policy hold cls des prune_final_def
        prune_final_cmds_def st0_def)
qed

lemma classify_candidates_correct_witness:
  "[''t@zrb-1''] = filter (\<lambda>s. \<forall>tag. s \<in> set (parse_held_snapshots_for_tag [] tag) \<longrightarrow>
      \<not> prefix ''zrb:'' tag) [''t@zrb-1'']"
proof -
  have "classify_candidates [''t@zrb-1''] (read_holds []) = ([''t@zrb-1''], [])"
    by (simp add: classify_candidates_eq tags_of_def zrb_holds_from_tags_def read_holds_def)
  from classify_candidates_correct [OF this] show ?thesis by blast
qed

lemma prune_report_accurate_witness:
  "\<exists>pre. prune_final_cmds = pre @ [[''destroy'', ''t@zrb-2026-05-06T00:00:00Z'']] \<and> list_all not_destroy pre"
  using prune_report_accurate [OF prune_run] by (auto simp: prune_final_def st0_def)

text \<open>A retention window outside chrono's range: the run panics before anything is destroyed.\<close>

definition strict_gregorian :: chrono where
  "strict_gregorian = gregorian\<lparr>parse_rfc3339 := \<lambda>ts. if CHR ''@'' \<in> set ts then None else greg_parse ts\<rparr>"

definition huge_cfg :: retention_config where
  "huge_cfg = \<lparr>recent = 0, weekly_for_days = 1000000000000, monthly_for_days = 365\<rparr>"

lemma huge_cfg_panics:
  "prune (prune_os ''-'' []) strict_gregorian ''t'' huge_cfg None False False st0 =
     (Panic ''weekly cutoff out of range'',
      st0\<lparr>cmds := [[''get'', ''--json'', ''receive_resume_token'', ''t''],
                    [''get'', ''--json'', ''zrb:resume-since'', ''t''],
                    [''list'', ''-t'', ''snapshot'', ''--json'', ''t'']]\<rparr>)"
proof -
  have now: "io_now (prune_os ''-'' []) s = (Ok example_now, s)" for s
    by (simp add: io_now_def prune_os_def)
  have lst: "\<exists>snaps. list_zrb (prune_os ''-'' []) C ''t'' s =
      (Ok snaps, s\<lparr>cmds := cmds s @ [[''list'', ''-t'', ''snapshot'', ''--json'', ''t'']]\<rparr>)" for C s
    by (simp add: list_zrb_def list_snapshots_def run_def prune_os_def prune_answer_def prune_json_def
        io_match_def io_bind_def io_result_def io_return_def decode_list_json_def parse_json_def)
  have ap: "apply_policy strict_gregorian snaps t huge_cfg = Panic ''weekly cutoff out of range''" for snaps t
    by (simp add: apply_policy_def cutoff_def huge_cfg_def strict_gregorian_def gregorian_def)
  obtain snaps where "list_zrb (prune_os ''-'' []) strict_gregorian ''t''
        (st0\<lparr>cmds := [[''get'', ''--json'', ''receive_resume_token'', ''t''],
                      [''get'', ''--json'', ''zrb:resume-since'', ''t'']]\<rparr>) =
      (Ok snaps, st0\<lparr>cmds := [[''get'', ''--json'', ''receive_resume_token'', ''t''],
                    [''get'', ''--json'', ''zrb:resume-since'', ''t''],
                    [''list'', ''-t'', ''snapshot'', ''--json'', ''t'']]\<rparr>)"
    using lst [of strict_gregorian "st0\<lparr>cmds := [[''get'', ''--json'', ''receive_resume_token'', ''t''],
                      [''get'', ''--json'', ''zrb:resume-since'', ''t'']]\<rparr>"] by auto
  then show ?thesis
    by (simp add: prune_def prune_decided_def prune_snapshots_def io_bind_def prune_gets map_token_value_def
        now resume_decision_def io_return_def io_res_def ap st0_def)
qed

lemma prune_never_trips_guardrail_witness:
  "''weekly cutoff out of range'' \<in> {''weekly cutoff out of range'', ''monthly cutoff out of range''}"
proof (rule prune_never_trips_guardrail [OF _ huge_cfg_panics])
  show "CHR ''@'' \<notin> set ts" if "parse_rfc3339 strict_gregorian ts = Some t" for ts t
    using that by (auto simp: strict_gregorian_def split: if_splits)
qed

lemma prune_waits_for_resume_witness:
  "fst (prune (prune_os ''1-abc'' []) gregorian ''t'' prune_cfg (Some 7) False False st0) =
     Ok \<lparr>pr_kept = [], pr_deleted = [], pr_resume_skipped = True, pr_hold_skipped = []\<rparr>"
proof -
  have tok: "get_resume_token (prune_os ''1-abc'' []) ''t'' st0 =
      (Ok (Some ''1-abc''), st0\<lparr>cmds := cmds st0 @ [[''get'', ''--json'', ''receive_resume_token'', ''t'']]\<rparr>)"
    by (simp add: prune_gets map_token_value_def)
  have "utc_now (prune_os ''1-abc'' []) w = (example_now, w)" for w
    by (simp add: prune_os_def)
  from prune_waits_for_resume [OF tok prune_gets(2) this, of "Some 7" 7] show ?thesis by simp
qed

end
