(* ===== verification/Codec.thy ===== *)
theory Codec
  imports Streams
begin

text \<open>
  The wire protocol (\<open>src/protocol/codec.rs\<close>): handshake messages as lines of JSON, and the
  binary stream as chunks of 4 MiB, each followed by a 5-byte Control Frame. The loops of
  \<open>write_stream\<close> and \<open>read_stream\<close> are translated with their two buffers, whose stale bytes
  the code has to clear; \<open>encode_stream\<close> is the format they implement.
\<close>

unbundle bit_operations_syntax

section \<open>Messages\<close>

record server_hello =
  sh_version :: string
  sh_head :: "string option"
  sh_resume_token :: "string option"

record client_hello =
  ch_version :: string
  ch_client_name :: string
  ch_target :: string

record server_status =
  ss_ok :: bool
  ss_message :: string

record client_ready =
  cr_ok :: bool
  cr_message :: string

text \<open>
  \<open>serde_json\<close> on the four message types, which is not part of the repository: serializing
  gives the text or an error message, and so does reading.
\<close>

record json_api =
  ser_server_hello :: "server_hello \<Rightarrow> string + string"
  ser_client_hello :: "client_hello \<Rightarrow> string + string"
  ser_server_status :: "server_status \<Rightarrow> string + string"
  ser_client_ready :: "client_ready \<Rightarrow> string + string"
  de_server_hello :: "string \<Rightarrow> string + server_hello"
  de_client_hello :: "string \<Rightarrow> string + client_hello"
  de_server_status :: "string \<Rightarrow> string + server_status"
  de_client_ready :: "string \<Rightarrow> string + client_ready"

text \<open>
  What \<open>serde_json\<close> documents for one message: compact output is UTF-8 without a raw newline
  (newlines inside strings are escaped), is not empty, and reads back to the same value.
\<close>

definition json_round_trip :: "('m \<Rightarrow> string + string) \<Rightarrow> (string \<Rightarrow> string + 'm) \<Rightarrow> 'm \<Rightarrow> bool" where
  "json_round_trip ser de m =
     (case ser m of
        Inl e \<Rightarrow> False
      | Inr t \<Rightarrow> newline \<notin> set t \<and> utf8_valid t \<and> de t = Inr m)"

definition encode_json :: "('m \<Rightarrow> string + string) \<Rightarrow> 'm \<Rightarrow> wstream \<Rightarrow> unit res \<times> wstream" where
  "encode_json ser msg dest =
     (case ser msg of
        Inl e \<Rightarrow> (Err (Json e), dest)
      | Inr t \<Rightarrow>
          (case write_all (bytes_of_str t @ [newline_byte]) dest of
             (None, dest') \<Rightarrow> (Ok (), dest')
           | (Some e, dest') \<Rightarrow> (Err (Io e), dest')))"

definition decode_json :: "(string \<Rightarrow> string + 'm) \<Rightarrow> rstream \<Rightarrow> 'm res \<times> rstream" where
  "decode_json de src =
     (case read_line src of
        (Inl e, src') \<Rightarrow> (Err (Io e), src')
      | (Inr line, src') \<Rightarrow>
          if length line = 0 then (Err (Io ''connection closed mid-message''), src')
          else (case de (trim_end_char newline line) of
                  Inl e \<Rightarrow> (Err (Json e), src')
                | Inr m \<Rightarrow> (Ok m, src')))"

section \<open>Control Frames\<close>

definition CHUNK_SIZE :: nat where
  "CHUNK_SIZE = 4 * 1024 * 1024"

text \<open>\<open>u32::to_be_bytes\<close> and \<open>u32::from_be_bytes\<close>.\<close>

definition to_be_bytes :: "u32 \<Rightarrow> u8 list" where
  "to_be_bytes w = [ucast (drop_bit 24 w), ucast (drop_bit 16 w), ucast (drop_bit 8 w), ucast w]"

definition from_be_bytes :: "u8 list \<Rightarrow> u32" where
  "from_be_bytes bs =
     (case bs of
        [a, b, c, d] \<Rightarrow>
          push_bit 24 (ucast a) OR push_bit 16 (ucast b) OR push_bit 8 (ucast c) OR ucast d
      | _ \<Rightarrow> 0)"

definition make_frame :: "u32 \<Rightarrow> bool \<Rightarrow> u8 list" where
  "make_frame actual_size has_more = to_be_bytes actual_size @ [if has_more then 1 else 0]"

lemma from_be_bytes_to_be_bytes [simp]: "from_be_bytes (to_be_bytes w) = w"
proof (rule bit_word_eqI)
  fix n assume "n < LENGTH(32)"
  then consider "n < 8" | "8 \<le> n" "n < 16" | "16 \<le> n" "n < 24" | "24 \<le> n" "n < 32"
    by fastforce
  then show "bit (from_be_bytes (to_be_bytes w)) n = bit w n"
    by cases (simp_all add: from_be_bytes_def to_be_bytes_def bit_or_iff bit_push_bit_iff
        bit_ucast_iff bit_drop_bit_eq less_diff_conv2)
qed

lemma length_make_frame [simp]: "length (make_frame w b) = 5"
  by (simp add: make_frame_def to_be_bytes_def)

section \<open>Writing a stream\<close>

text \<open>
  Fill a buffer from a source: the buffer keeps its old bytes behind the ones read. \<open>todo\<close> is
  the part of the buffer that is still free, \<open>got\<close> how many bytes were read already.
\<close>

function read_exact_or_eof_from :: "nat \<Rightarrow> u8 list \<Rightarrow> rstream \<Rightarrow> (string + nat) \<times> u8 list \<times> rstream" where
  "read_exact_or_eof_from got buf src =
     (if got < length buf
      then case read_some (length buf - got) src of
             (Inl e, src') \<Rightarrow> (Inl e, buf, src')
           | (Inr bs, src') \<Rightarrow>
               if bs = [] then (Inr got, buf, src')
               else read_exact_or_eof_from (got + length bs)
                      (take got buf @ bs @ drop (got + length bs) buf) src'
      else (Inr got, buf, src))"
  by pat_completeness auto
termination
proof (relation "measure (\<lambda>(t, b, r). length (rbytes r))", goal_cases)
  case (2 got buf src x src' bs)
  from "2"(2) [symmetric] show ?case
    using read_some_less [of "length buf - got" src bs src'] "2"(3,4) by simp
qed simp

declare read_exact_or_eof_from.simps [simp del]

definition read_exact_or_eof :: "rstream \<Rightarrow> u8 list \<Rightarrow> (string + nat) \<times> u8 list \<times> rstream" where
  "read_exact_or_eof src buf = read_exact_or_eof_from 0 buf src"

text \<open>\<open>buf[n..].fill(0)\<close>.\<close>

definition fill_zero :: "nat \<Rightarrow> u8 list \<Rightarrow> u8 list" where
  "fill_zero n buf = take n buf @ replicate (length buf - n) 0"

text \<open>The throttle's \<open>Duration::from_secs_f64(bytes_sent as f64 / rate as f64)\<close> panics.\<close>

definition throttle_panics :: "u64 option \<Rightarrow> u64 \<Rightarrow> bool" where
  "throttle_panics rate_limit bytes_sent =
     (case rate_limit of
        None \<Rightarrow> False
      | Some rate \<Rightarrow> \<not> duration_secs_ok (f64_div (f64_of_u64 bytes_sent) (f64_of_u64 rate)))"

text \<open>
  The loop of \<open>write_stream\<close>. \<open>cancelled k\<close> is what the cancellation token answers after the
  \<open>k\<close>-th chunk; the last component of the result are the calls of the progress callback. The
  sleep of the throttle has no effect on the data.
\<close>

type_synonym write_result = "unit res \<times> rstream \<times> wstream \<times> (u64 \<times> u64) list"

text \<open>
  Short reads do not matter: the buffer gets the next bytes of the source, as many as fit, and
  the source must have failed when it is an error.
\<close>

definition fill_result :: "nat \<Rightarrow> u8 list \<Rightarrow> rstream \<Rightarrow> (string + nat) \<times> u8 list \<times> rstream \<Rightarrow> bool" where
  "fill_result got buf src res =
     (let n = min (length buf - got) (length (rbytes src))
      in case res of
           (Inl e, buf', src') \<Rightarrow>
             length (rbytes src) < length buf - got \<and> rerr src = Some e \<and> rbytes src' = []
         | (Inr m, buf', src') \<Rightarrow>
             m = got + n \<and> buf' = take got buf @ take n (rbytes src) @ drop (got + n) buf \<and>
             rbytes src' = drop n (rbytes src) \<and> rerr src' = rerr src \<and>
             (length (rbytes src) < length buf - got \<longrightarrow> rerr src = None))"

lemma fill_result_step:
  assumes "fill_result (got + length bs) (take got buf @ bs @ drop (got + length bs) buf) src1 res"
    and "rbytes src = bs @ rbytes src1" "rerr src1 = rerr src" "got + length bs \<le> length buf"
  shows "fill_result got buf src res"
proof -
  obtain x buf' src' where res: "res = (x, buf', src')" by (cases res)
  have n: "min (length buf - got) (length (rbytes src)) =
      length bs + min (length buf - (got + length bs)) (length (rbytes src1))"
    and less: "length (rbytes src) < length buf - got \<longleftrightarrow>
      length (rbytes src1) < length buf - (got + length bs)"
    using assms(4) unfolding assms(2) by (simp, simp add: less_diff_conv ac_simps)
  have len: "length (take got buf @ bs @ drop (got + length bs) buf) = length buf"
    using assms(4) by simp
  show ?thesis
    using assms(1) unfolding fill_result_def Let_def n less len res
    using assms(2-4) by (cases x) (simp_all add: ac_simps)
qed

lemma read_exact_or_eof_from_fills:
  assumes "got \<le> length buf"
  shows "fill_result got buf src (read_exact_or_eof_from got buf src)"
  using assms
proof (induction got buf src rule: read_exact_or_eof_from.induct)
  case (1 got buf src)
  note unfold = read_exact_or_eof_from.simps [of got buf src]
  show ?case
  proof (cases "got < length buf")
    case False
    with "1.prems" show ?thesis unfolding unfold by (simp add: fill_result_def)
  next
    case less: True
    obtain x src1 where rd: "read_some (length buf - got) src = (x, src1)" by fastforce
    show ?thesis
    proof (cases x)
      case (Inl e)
      then have "read_exact_or_eof_from got buf src = (Inl e, buf, src1)"
        using less rd by (subst unfold) simp
      then show ?thesis
        using read_some_Inl [OF rd [unfolded Inl]] by (simp add: fill_result_def)
    next
      case (Inr bs)
      note rs = read_some_Inr [OF rd [unfolded Inr]]
      show ?thesis
      proof (cases "bs = []")
        case True
        have "read_exact_or_eof_from got buf src = (Inr got, buf, src1)"
          using less rd Inr True by (subst unfold) simp
        moreover have "rbytes src = []" "rerr src = None" "rbytes src1 = []"
          using rs(1,4) less True by simp_all
        ultimately show ?thesis using rs(2) by (simp add: fill_result_def)
      next
        case False
        have le: "got + length bs \<le> length buf" using rs(3) less by simp
        let ?buf = "take got buf @ bs @ drop (got + length bs) buf"
        have "fill_result (got + length bs) ?buf src1 (read_exact_or_eof_from (got + length bs) ?buf src1)"
          using less rd False Inr le by (intro "1.IH" [OF less rd [symmetric] Inr False]) simp
        moreover have "read_exact_or_eof_from got buf src = read_exact_or_eof_from (got + length bs) ?buf src1"
          using less rd Inr False by (subst unfold) simp
        ultimately show ?thesis
          using fill_result_step [OF _ rs(1,2) le] by simp
      qed
    qed
  qed
qed

lemma read_exact_or_eof_Inr:
  assumes "read_exact_or_eof src buf = (Inr n, buf', src')"
  shows "n = min (length buf) (length (rbytes src))"
    and "buf' = take n (rbytes src) @ drop n buf"
    and "rbytes src' = drop n (rbytes src)" and "rerr src' = rerr src"
  using read_exact_or_eof_from_fills [of 0 buf src] assms
  by (auto simp: fill_result_def read_exact_or_eof_def Let_def)

lemma read_exact_or_eof_less:
  "read_exact_or_eof src buf = (Inr n, buf', src') \<Longrightarrow> 0 < n \<Longrightarrow> length (rbytes src') < length (rbytes src)"
  using read_exact_or_eof_Inr by fastforce

lemma read_exact_or_eof_Inl:
  assumes "read_exact_or_eof src buf = (Inl e, buf', src')"
  shows "length (rbytes src) < length buf" and "rerr src = Some e"
  using read_exact_or_eof_from_fills [of 0 buf src] assms
  by (auto simp: fill_result_def read_exact_or_eof_def Let_def)

function write_loop ::
    "u64 option \<Rightarrow> u64 \<Rightarrow> (nat \<Rightarrow> bool) \<Rightarrow> nat \<Rightarrow> u8 list \<Rightarrow> nat \<Rightarrow> u8 list \<Rightarrow> u64 \<Rightarrow> rstream \<Rightarrow>
     wstream \<Rightarrow> write_result" where
  "write_loop rate_limit total_bytes cancelled k cur cur_actual nxt bytes_sent src dest =
     (case read_exact_or_eof src nxt of
        (Inl e, nxt1, src1) \<Rightarrow> (Err (Io e), src1, dest, [])
      | (Inr nxt_actual, nxt1, src1) \<Rightarrow>
          let has_more = (0 < nxt_actual)
          in case write_all cur dest of
               (Some e, dest1) \<Rightarrow> (Err (Io e), src1, dest1, [])
             | (None, dest1) \<Rightarrow>
                 (case write_all (make_frame (word_of_nat cur_actual) has_more) dest1 of
                    (Some e, dest2) \<Rightarrow> (Err (Io e), src1, dest2, [])
                  | (None, dest2) \<Rightarrow>
                      let sent = bytes_sent + word_of_nat cur_actual
                      in if throttle_panics rate_limit sent
                         then (Panic ''throttle duration out of range'', src1, dest2, [])
                         else if cancelled k
                         then (Err Cancelled, src1, dest2, [(sent, total_bytes)])
                         else if \<not> has_more
                         then (Ok (), src1, dest2, [(sent, total_bytes)])
                         else (case write_loop rate_limit total_bytes cancelled (Suc k)
                                      (fill_zero nxt_actual nxt1) nxt_actual cur sent src1 dest2 of
                                 (x, src2, dest3, calls) \<Rightarrow>
                                   (x, src2, dest3, (sent, total_bytes) # calls))))"
  by pat_completeness auto
termination
proof (relation "measure (\<lambda>(rl, tb, c, k, cur, ca, nxt, bs, src, dest). length (rbytes src))", goal_cases)
  case 1
  show ?case by simp
next
  case prems: 2
  show ?case
    using prems by (auto intro: read_exact_or_eof_less [OF sym])
qed

declare write_loop.simps [simp del]

definition write_stream ::
    "u64 option \<Rightarrow> u64 \<Rightarrow> (nat \<Rightarrow> bool) \<Rightarrow> rstream \<Rightarrow> wstream \<Rightarrow> write_result" where
  "write_stream rate_limit total_bytes cancelled src dest =
     (case read_exact_or_eof src (replicate CHUNK_SIZE 0) of
        (Inl e, cur, src1) \<Rightarrow> (Err (Io e), src1, dest, [])
      | (Inr cur_actual, cur, src1) \<Rightarrow>
          write_loop rate_limit total_bytes cancelled 0 (fill_zero cur_actual cur) cur_actual
            (replicate CHUNK_SIZE 0) 0 src1 dest)"

text \<open>A writer only appends to its sink.\<close>

lemma encode_json_appends: "prefix (wbytes w) (wbytes (snd (encode_json ser m w)))"
  by (auto simp: encode_json_def write_all_def split: sum.split option.split)

lemma appends_encode_json [appends_intro]: "appends (io_xmit (encode_json ser m))"
  by (rule appends_xmit) (rule encode_json_appends)

lemma write_all_appends: "write_all bs w = (e, w') \<Longrightarrow> prefix (wbytes w) (wbytes w')"
  by (auto dest: write_all_prefix)

lemma write_loop_appends:
  "write_loop rate tb cancelled k cur cur_actual nxt sent src dest = (x, src', dest', calls) \<Longrightarrow>
   prefix (wbytes dest) (wbytes dest')"
proof (induction "length (rbytes src)" arbitrary: k cur cur_actual nxt sent src dest x src' dest' calls
    rule: less_induct)
  case less
  obtain y nxt1 src1 where rd: "read_exact_or_eof src nxt = (y, nxt1, src1)"
    by (cases "read_exact_or_eof src nxt")
  obtain e1 d1 where w1: "write_all cur dest = (e1, d1)" by fastforce
  show ?case
  proof (cases y)
    case (Inl e)
    with less.prems rd show ?thesis by (simp add: write_loop.simps)
  next
    case (Inr n)
    obtain e2 d2 where w2: "write_all (make_frame (word_of_nat cur_actual) (0 < n)) d1 = (e2, d2)" by fastforce
    note p = write_all_appends [OF w1] write_all_appends [OF w2]
    have "prefix (wbytes d2) (wbytes dest')" if "e1 = None" "e2 = None"
    proof (cases "throttle_panics rate (sent + word_of_nat cur_actual) \<or> cancelled k \<or> n = 0")
      case True
      with less.prems rd Inr w1 w2 that show ?thesis
        by (subst (asm) write_loop.simps) (auto simp: Let_def split: if_splits)
    next
      case False
      then have "length (rbytes src1) < length (rbytes src)"
        using read_exact_or_eof_less [OF rd [unfolded Inr]] by simp
      moreover obtain x' src2 d3 calls' where rec: "write_loop rate tb cancelled (Suc k) (fill_zero n nxt1) n cur
          (sent + word_of_nat cur_actual) src1 d2 = (x', src2, d3, calls')"
        by (metis prod_cases4)
      ultimately have "prefix (wbytes d2) (wbytes d3)" by (rule less.hyps)
      moreover have "d3 = dest'"
        using less.prems rd Inr w1 w2 that False rec by (subst (asm) write_loop.simps) (simp add: Let_def)
      ultimately show ?thesis by simp
    qed
    with less.prems rd Inr w1 w2 p show ?thesis
      by (cases e1; cases e2) (subst (asm) write_loop.simps; auto intro: prefix_order.trans)+
  qed
qed

lemma write_stream_appends:
  "write_stream rate tb cancelled src dest = (x, src', dest', calls) \<Longrightarrow> prefix (wbytes dest) (wbytes dest')"
  by (auto simp: write_stream_def write_loop_appends split: prod.splits sum.splits dest: write_loop_appends)

section \<open>Reading a stream\<close>

text \<open>
  The loop of \<open>read_stream_with_cancel\<close>; \<open>read_stream\<close> is the same loop without the look at the
  cancellation flag. Slicing the chunk beyond its end panics. The result says whether the
  transfer was cancelled.
\<close>

function read_stream_with_cancel ::
    "(nat \<Rightarrow> bool) \<Rightarrow> nat \<Rightarrow> rstream \<Rightarrow> wstream \<Rightarrow> bool res \<times> rstream \<times> wstream" where
  "read_stream_with_cancel cancel k src dest =
     (case read_exact CHUNK_SIZE src of
        (Inl e, src1) \<Rightarrow> (Err (Io e), src1, dest)
      | (Inr chunk, src1) \<Rightarrow>
          (case read_exact 5 src1 of
             (Inl e, src2) \<Rightarrow> (Err (Io e), src2, dest)
           | (Inr frame, src2) \<Rightarrow>
               let actual_size = unat (from_be_bytes (take 4 frame));
                   has_more = frame ! 4
               in if length chunk < actual_size
                  then (Panic ''range end index out of range'', src2, dest)
                  else case write_all (take actual_size chunk) dest of
                    (Some e, dest1) \<Rightarrow> (Err (Io e), src2, dest1)
                  | (None, dest1) \<Rightarrow>
                      if has_more = 0 then (Ok False, src2, dest1)
                      else if cancel k then (Ok True, src2, dest1)
                      else read_stream_with_cancel cancel (Suc k) src2 dest1))"
  by pat_completeness auto
termination
proof (relation "measure (\<lambda>(c, k, src, dest). length (rbytes src))", goal_cases)
  case (2 cancel k src dest x src1 chunk xa src2 frame)
  then show ?case by (auto simp: read_exact_def split: if_splits)
qed simp

declare read_stream_with_cancel.simps [simp del]

function read_stream :: "rstream \<Rightarrow> wstream \<Rightarrow> unit res \<times> rstream \<times> wstream" where
  "read_stream src dest =
     (case read_exact CHUNK_SIZE src of
        (Inl e, src1) \<Rightarrow> (Err (Io e), src1, dest)
      | (Inr chunk, src1) \<Rightarrow>
          (case read_exact 5 src1 of
             (Inl e, src2) \<Rightarrow> (Err (Io e), src2, dest)
           | (Inr frame, src2) \<Rightarrow>
               let actual_size = unat (from_be_bytes (take 4 frame));
                   has_more = frame ! 4
               in if length chunk < actual_size
                  then (Panic ''range end index out of range'', src2, dest)
                  else case write_all (take actual_size chunk) dest of
                    (Some e, dest1) \<Rightarrow> (Err (Io e), src2, dest1)
                  | (None, dest1) \<Rightarrow>
                      if has_more = 0 then (Ok (), src2, dest1)
                      else read_stream src2 dest1))"
  by pat_completeness auto
termination
proof (relation "measure (\<lambda>(src, dest). length (rbytes src))", goal_cases)
  case (2 src dest x src1 chunk xa src2 frame)
  then show ?case by (auto simp: read_exact_def split: if_splits)
qed simp

declare read_stream.simps [simp del]

section \<open>The format\<close>

text \<open>
  A stream is its first 4 MiB as one chunk (even when it is empty) and the rest in chunks of
  4 MiB; a chunk is padded with zeros and followed by its Control Frame.
\<close>

lemma CHUNK_SIZE_pos [simp]: "0 < CHUNK_SIZE"
  by (simp add: CHUNK_SIZE_def)

lemma CHUNK_SIZE_u32: "n \<le> CHUNK_SIZE \<Longrightarrow> unat (word_of_nat n :: u32) = n"
  by (simp add: CHUNK_SIZE_def unat_of_nat take_bit_eq_mod)

function chunk_list :: "u8 list \<Rightarrow> u8 list list" where
  "chunk_list xs = (if xs = [] then [] else take CHUNK_SIZE xs # chunk_list (drop CHUNK_SIZE xs))"
  by pat_completeness auto
termination
  by (relation "measure length") auto

declare chunk_list.simps [simp del]

definition chunks :: "u8 list \<Rightarrow> u8 list list" where
  "chunks xs = take CHUNK_SIZE xs # chunk_list (drop CHUNK_SIZE xs)"

definition pad :: "u8 list \<Rightarrow> u8 list" where
  "pad c = c @ replicate (CHUNK_SIZE - length c) 0"

definition framed :: "bool \<Rightarrow> u8 list \<Rightarrow> u8 list" where
  "framed has_more c = pad c @ make_frame (word_of_nat (length c)) has_more"

fun encode_chunks :: "u8 list list \<Rightarrow> u8 list" where
  "encode_chunks [] = []"
| "encode_chunks (c # cs) = framed (cs \<noteq> []) c @ encode_chunks cs"

definition encode_stream :: "u8 list \<Rightarrow> u8 list" where
  "encode_stream xs = encode_chunks (chunks xs)"

lemma length_pad: "length c \<le> CHUNK_SIZE \<Longrightarrow> length (pad c) = CHUNK_SIZE"
  by (simp add: pad_def)

lemma take_pad [simp]: "take (length c) (pad c) = c"
  by (simp add: pad_def)

lemma chunk_list_Nil [simp]: "chunk_list [] = []"
  by (simp add: chunk_list.simps)

lemma chunk_list_eq: "xs \<noteq> [] \<Longrightarrow> chunk_list xs = chunks xs"
  by (simp add: chunks_def chunk_list.simps [of xs])

lemma chunk_list_Nil_iff [simp]: "chunk_list xs = [] \<longleftrightarrow> xs = []"
  by (simp add: chunk_list.simps [of xs])

lemma concat_chunk_list: "concat (chunk_list xs) = xs"
proof (induction xs rule: chunk_list.induct)
  case (1 xs)
  then show ?case by (subst chunk_list.simps) simp
qed

lemma concat_chunks: "concat (chunks xs) = xs"
  by (simp add: chunks_def concat_chunk_list)

lemma chunk_list_length: "c \<in> set (chunk_list xs) \<Longrightarrow> length c \<le> CHUNK_SIZE"
proof (induction xs rule: chunk_list.induct)
  case (1 xs)
  then show ?case by (subst (asm) (2) chunk_list.simps) (auto split: if_splits)
qed

lemma chunks_length: "c \<in> set (chunks xs) \<Longrightarrow> length c \<le> CHUNK_SIZE"
  by (auto simp: chunks_def dest: chunk_list_length)

lemma chunks_not_Nil [simp]: "chunks xs \<noteq> []"
  by (simp add: chunks_def)

text \<open>What a sender whose token is cancelled puts on the wire, and whether it was cut short.\<close>

fun emit_chunks :: "(nat \<Rightarrow> bool) \<Rightarrow> nat \<Rightarrow> u8 list list \<Rightarrow> u8 list \<times> bool" where
  "emit_chunks cancelled k [] = ([], False)"
| "emit_chunks cancelled k (c # cs) =
     (if cancelled k then (framed (cs \<noteq> []) c, True)
      else apfst (append (framed (cs \<noteq> []) c)) (emit_chunks cancelled (Suc k) cs))"

text \<open>The calls of the progress callback, and how many of them there are.\<close>

fun progress_calls :: "u64 \<Rightarrow> (nat \<Rightarrow> bool) \<Rightarrow> nat \<Rightarrow> nat \<Rightarrow> u8 list list \<Rightarrow> (u64 \<times> u64) list" where
  "progress_calls total_bytes cancelled k sent [] = []"
| "progress_calls total_bytes cancelled k sent (c # cs) =
     (word_of_nat (sent + length c), total_bytes) #
     (if cancelled k then [] else progress_calls total_bytes cancelled (Suc k) (sent + length c) cs)"

section \<open>The writing loop implements the format\<close>

lemma fill_zero_pad:
  assumes "n = min CHUNK_SIZE (length xs)" "length buf = CHUNK_SIZE"
  shows "fill_zero n (take n xs @ drop n buf) = pad (take CHUNK_SIZE xs)"
  using assms by (simp add: fill_zero_def pad_def min_def)

lemma next_chunk:
  assumes "read_exact_or_eof src nxt = (Inr n, nxt1, src1)" "rbytes src \<noteq> []" "length nxt = CHUNK_SIZE"
  shows "chunk_list (rbytes src) = take CHUNK_SIZE (rbytes src) # chunk_list (rbytes src1)"
    "fill_zero n nxt1 = pad (take CHUNK_SIZE (rbytes src))" "n = length (take CHUNK_SIZE (rbytes src))"
proof -
  note r = read_exact_or_eof_Inr [OF assms(1), unfolded assms(3)]
  show "chunk_list (rbytes src) = take CHUNK_SIZE (rbytes src) # chunk_list (rbytes src1)"
    using assms(2) r(1,3) by (subst chunk_list.simps) (simp add: min_def)
  show "fill_zero n nxt1 = pad (take CHUNK_SIZE (rbytes src))" "n = length (take CHUNK_SIZE (rbytes src))"
    unfolding r(2) using r(1) assms(3) by (simp_all add: fill_zero_pad min_def)
qed

lemma framed_written:
  assumes "wcap dest = None"
  shows "write_all (pad c) dest = (None, dest\<lparr>wbytes := wbytes dest @ pad c\<rparr>)"
    "write_all (make_frame (word_of_nat (length c)) more_follows) (dest\<lparr>wbytes := wbytes dest @ pad c\<rparr>) =
      (None, dest\<lparr>wbytes := wbytes dest @ framed more_follows c\<rparr>)"
  using assms by (simp_all add: framed_def)

lemma write_loop_emits:
  assumes "wcap dest = None" "rerr src = None" "length c \<le> CHUNK_SIZE" "length nxt = CHUNK_SIZE"
    and "\<And>n. n \<le> sent + length c + length (rbytes src) \<Longrightarrow> \<not> throttle_panics rate (word_of_nat n)"
    and "write_loop rate tb cancelled k (pad c) (length c) nxt (word_of_nat sent) src dest =
      (x, src', dest', calls)"
    and "emit_chunks cancelled k (c # chunk_list (rbytes src)) = (out, stopped)"
  shows "x = (if stopped then Err Cancelled else Ok ()) \<and> dest' = dest\<lparr>wbytes := wbytes dest @ out\<rparr> \<and>
    calls = progress_calls tb cancelled k sent (c # chunk_list (rbytes src))"
  using assms
proof (induction "length (rbytes src)" arbitrary: k c nxt sent src dest x src' dest' calls out stopped
    rule: less_induct)
  case less
  note unfold = write_loop.simps [of rate tb cancelled k "pad c" "length c" nxt "word_of_nat sent" src dest]
  obtain y nxt1 src1 where rd: "read_exact_or_eof src nxt = (y, nxt1, src1)"
    by (cases "read_exact_or_eof src nxt")
  obtain n where y: "y = Inr n"
    using less.prems(2) rd by (cases y) (auto dest: read_exact_or_eof_Inl)
  note rd = rd [unfolded y]
  note r = read_exact_or_eof_Inr [OF rd, unfolded less.prems(4)]
  have n0: "0 < n \<longleftrightarrow> rbytes src \<noteq> []"
    using r(1) by auto
  have np: "\<not> throttle_panics rate (word_of_nat sent + word_of_nat (length c))"
    using less.prems(5) [of "sent + length c"] by simp
  let ?dest = "dest\<lparr>wbytes := wbytes dest @ framed (rbytes src \<noteq> []) c\<rparr>"
  note wr = framed_written [OF less.prems(1)]
  show ?case
  proof (cases "cancelled k \<or> rbytes src = []")
    case True
    then show ?thesis
      using less.prems(6,7) np unfolding unfold
      by (auto simp: rd wr n0 Let_def)
  next
    case False
    obtain out1 stopped1 where em: "emit_chunks cancelled (Suc k) (chunk_list (rbytes src)) = (out1, stopped1)"
      by fastforce
    let ?c = "take CHUNK_SIZE (rbytes src)" and ?sent = "sent + length c"
    have cl: "chunk_list (rbytes src) = ?c # chunk_list (rbytes src1)"
      and nx: "fill_zero n nxt1 = pad ?c" "n = length ?c"
      using next_chunk [OF rd _ less.prems(4)] False by simp_all
    obtain x2 src2 dest2 calls2 where rec: "write_loop rate tb cancelled (Suc k) (pad ?c) n
        (pad c) (word_of_nat ?sent) src1 ?dest = (x2, src2, dest2, calls2)"
      by (metis prod_cases4)
    have eq: "(x, src', dest', calls) = (x2, src2, dest2, (word_of_nat ?sent, tb) # calls2)"
      using less.prems(6) False np rec unfolding unfold
      by (simp add: rd wr n0 Let_def nx(1))
    have "x2 = (if stopped1 then Err Cancelled else Ok ()) \<and>
        dest2 = ?dest\<lparr>wbytes := wbytes ?dest @ out1\<rparr> \<and>
        calls2 = progress_calls tb cancelled (Suc k) ?sent (?c # chunk_list (rbytes src1))"
    proof (rule less.hyps [OF _ _ _ _ length_pad [OF less.prems(3)] _ rec [unfolded nx(2)]])
      show "length (rbytes src1) < length (rbytes src)"
        using read_exact_or_eof_less [OF rd] n0 False by simp
      show "\<not> throttle_panics rate (word_of_nat m)"
        if "m \<le> ?sent + length ?c + length (rbytes src1)" for m
        using that r(1,3) by (intro less.prems(5)) simp
    qed (use less.prems(1,2) r(4) em cl in simp_all)
    then show ?thesis
      using eq less.prems(7) False em cl by auto
  qed
qed

lemma write_stream_emits:
  assumes "wcap dest = None" "rerr src = None"
    and "\<And>n. n \<le> length (rbytes src) \<Longrightarrow> \<not> throttle_panics rate (word_of_nat n)"
    and "write_stream rate tb cancelled src dest = (x, src', dest', calls)"
  shows "x = (if snd (emit_chunks cancelled 0 (chunks (rbytes src))) then Err Cancelled else Ok ())"
    and "dest' = dest\<lparr>wbytes := wbytes dest @ fst (emit_chunks cancelled 0 (chunks (rbytes src)))\<rparr>"
    and "calls = progress_calls tb cancelled 0 0 (chunks (rbytes src))"
proof -
  let ?buf = "replicate CHUNK_SIZE (0 :: u8)"
  obtain y cur src1 where rd: "read_exact_or_eof src ?buf = (y, cur, src1)"
    by (cases "read_exact_or_eof src ?buf")
  obtain n where y: "y = Inr n"
    using assms(2) rd by (cases y) (auto dest: read_exact_or_eof_Inl)
  note r = read_exact_or_eof_Inr [OF rd [unfolded y], unfolded length_replicate]
  let ?c = "take CHUNK_SIZE (rbytes src)"
  have nx: "fill_zero n cur = pad ?c" "n = length ?c"
    unfolding r(2) using fill_zero_pad [OF r(1), of ?buf] r(1) by (simp_all add: min_def)
  have rest: "rbytes src1 = drop CHUNK_SIZE (rbytes src)"
    unfolding r(3) using r(1) by (simp add: min_def)
  have loop: "write_loop rate tb cancelled 0 (pad ?c) (length ?c) ?buf (word_of_nat 0) src1 dest =
      (x, src', dest', calls)"
    using assms(4) rd unfolding write_stream_def y by (simp add: nx(1)) (simp add: nx(2))
  obtain out stopped where em: "emit_chunks cancelled 0 (?c # chunk_list (rbytes src1)) = (out, stopped)"
    by fastforce
  have "x = (if stopped then Err Cancelled else Ok ()) \<and> dest' = dest\<lparr>wbytes := wbytes dest @ out\<rparr> \<and>
      calls = progress_calls tb cancelled 0 0 (?c # chunk_list (rbytes src1))"
    using assms(1,2) r(4)
    by (intro write_loop_emits [OF _ _ _ _ _ loop em]) (auto simp: rest intro!: assms(3))
  then show "x = (if snd (emit_chunks cancelled 0 (chunks (rbytes src))) then Err Cancelled else Ok ())"
    and "dest' = dest\<lparr>wbytes := wbytes dest @ fst (emit_chunks cancelled 0 (chunks (rbytes src)))\<rparr>"
    and "calls = progress_calls tb cancelled 0 0 (chunks (rbytes src))"
    using em by (simp_all add: chunks_def rest)
qed

lemma emit_chunks_never [simp]: "emit_chunks (\<lambda>k. False) k cs = (encode_chunks cs, False)"
  by (induction cs arbitrary: k) simp_all

lemma emit_chunks_prefix: "prefix (fst (emit_chunks cancelled k cs)) (encode_chunks cs)"
  by (induction cs arbitrary: k) (auto split: prod.split)

lemma emit_chunks_cut:
  assumes "cancelled (k + i)" "\<And>j. j < i \<Longrightarrow> \<not> cancelled (k + j)" "i < length cs"
  shows "emit_chunks cancelled k cs =
    (concat (map (framed True) (take i cs)) @ framed (Suc i < length cs) (cs ! i), True)"
  using assms
proof (induction i arbitrary: k cs)
  case 0
  then show ?case by (cases cs) auto
next
  case (Suc i)
  obtain c ds where cs: "cs = c # ds" using Suc.prems(3) by (cases cs) auto
  have "\<not> cancelled k" using Suc.prems(2) [of 0] by simp
  moreover have "emit_chunks cancelled (Suc k) ds =
      (concat (map (framed True) (take i ds)) @ framed (Suc i < length ds) (ds ! i), True)"
    using Suc.prems(1,3) Suc.prems(2) [of "Suc j" for j] cs by (intro Suc.IH) simp_all
  moreover have "ds \<noteq> []" using Suc.prems(3) cs by auto
  ultimately show ?case by (simp add: cs)
qed

section \<open>The reading loop inverts the format\<close>

lemma read_exact_append:
  assumes "rbytes src = xs @ ys" "length xs = n"
  shows "read_exact n src = (Inr xs, src\<lparr>rbytes := ys\<rparr>)"
  using assms by (simp add: read_exact_def)

lemma frame_fields:
  "take 4 (make_frame w b) = to_be_bytes w" "make_frame w b ! 4 = (if b then 1 else 0)"
  by (simp_all add: make_frame_def to_be_bytes_def)

lemma read_stream_with_cancel_chunk:
  assumes "wcap dest = None" "rbytes src = framed has_more c @ rest" "length c \<le> CHUNK_SIZE"
  shows "read_stream_with_cancel cancel k src dest =
    (let src' = src\<lparr>rbytes := rest\<rparr>; dest' = dest\<lparr>wbytes := wbytes dest @ c\<rparr>
     in if \<not> has_more then (Ok False, src', dest')
        else if cancel k then (Ok True, src', dest')
        else read_stream_with_cancel cancel (Suc k) src' dest')"
proof -
  note rd1 = read_exact_append [OF assms(2) [unfolded framed_def append_assoc] length_pad [OF assms(3)]]
  have rd2: "read_exact 5 (src\<lparr>rbytes := make_frame (word_of_nat (length c)) has_more @ rest\<rparr>) =
      (Inr (make_frame (word_of_nat (length c)) has_more), src\<lparr>rbytes := rest\<rparr>)"
    by (subst read_exact_append) auto
  show ?thesis
    using assms(1,3)
    by (subst read_stream_with_cancel.simps)
      (simp add: rd1 rd2 frame_fields CHUNK_SIZE_u32 length_pad Let_def)
qed

lemma read_stream_never_cancelled:
  "read_stream_with_cancel (\<lambda>k. False) k src dest =
     (case read_stream src dest of
        (Ok u, src', dest') \<Rightarrow> (Ok False, src', dest')
      | (Err e, src', dest') \<Rightarrow> (Err e, src', dest')
      | (Panic p, src', dest') \<Rightarrow> (Panic p, src', dest'))"
proof (induction "length (rbytes src)" arbitrary: k src dest rule: less_induct)
  case less
  obtain x src1 where r1: "read_exact CHUNK_SIZE src = (x, src1)" by fastforce
  obtain y src2 where r2: "read_exact 5 src1 = (y, src2)" by fastforce
  show ?case
  proof (cases x)
    case (Inl e)
    then show ?thesis
      by (subst read_stream.simps, subst read_stream_with_cancel.simps) (simp add: r1)
  next
    case x: (Inr chunk)
    show ?thesis
    proof (cases y)
      case (Inl e)
      then show ?thesis
        by (subst read_stream.simps, subst read_stream_with_cancel.simps) (simp add: r1 r2 x)
    next
      case y: (Inr frame)
      have "length (rbytes src2) < length (rbytes src)"
        using r1 r2 x y by (auto simp: read_exact_def split: if_splits)
      note IH = less [OF this]
      show ?thesis
        by (subst read_stream.simps, subst read_stream_with_cancel.simps)
          (simp add: r1 r2 x y Let_def IH split: prod.split option.split)
    qed
  qed
qed

lemma read_chunks:
  assumes "wcap dest = None" "rbytes src = encode_chunks cs @ rest" "cs \<noteq> []"
    and "\<And>c. c \<in> set cs \<Longrightarrow> length c \<le> CHUNK_SIZE"
  shows "read_stream src dest =
    (Ok (), src\<lparr>rbytes := rest\<rparr>, dest\<lparr>wbytes := wbytes dest @ concat cs\<rparr>)"
proof -
  have "read_stream_with_cancel (\<lambda>k. False) k src dest =
      (Ok False, src\<lparr>rbytes := rest\<rparr>, dest\<lparr>wbytes := wbytes dest @ concat cs\<rparr>)" for k
    using assms
  proof (induction cs arbitrary: k src dest)
    case (Cons c cs)
    note step = read_stream_with_cancel_chunk [of dest src "cs \<noteq> []" c "encode_chunks cs @ rest"]
    show ?case
    proof (cases "cs = []")
      case True
      with Cons.prems show ?thesis by (simp add: step)
    next
      case False
      then have "read_stream_with_cancel (\<lambda>k. False) k src dest =
          read_stream_with_cancel (\<lambda>k. False) (Suc k) (src\<lparr>rbytes := encode_chunks cs @ rest\<rparr>)
            (dest\<lparr>wbytes := wbytes dest @ c\<rparr>)"
        using Cons.prems by (simp add: step)
      also have "\<dots> = (Ok False, src\<lparr>rbytes := rest\<rparr>, dest\<lparr>wbytes := (wbytes dest @ c) @ concat cs\<rparr>)"
        using Cons.prems False by (subst Cons.IH) simp_all
      finally show ?thesis by simp
    qed
  qed simp
  then show ?thesis
    using read_stream_never_cancelled [of 0 src dest]
    by (cases "read_stream src dest"; cases "fst (read_stream src dest)") simp_all
qed

text \<open>A stream that stops before its end is an error, whatever was received before.\<close>

lemma read_truncated:
  assumes "wcap dest = None" "strict_prefix (rbytes src) (encode_chunks cs)"
    and "\<And>c. c \<in> set cs \<Longrightarrow> length c \<le> CHUNK_SIZE"
    and "e = (case rerr src of Some e \<Rightarrow> e | None \<Rightarrow> early_eof)"
  shows "\<exists>src' out. read_stream_with_cancel (\<lambda>k. False) k src dest =
      (Err (Io e), src', dest\<lparr>wbytes := wbytes dest @ out\<rparr>) \<and> prefix out (concat cs)"
  using assms
proof (induction cs arbitrary: k src dest)
  case (Cons c cs)
  let ?f = "framed (cs \<noteq> []) c"
  have len: "length (pad c) = CHUNK_SIZE"
    using Cons.prems(3) by (simp add: length_pad)
  show ?case
  proof (cases "prefix ?f (rbytes src)")
    case True
    then obtain p where p: "rbytes src = ?f @ p" by (auto simp: prefix_def)
    then have sp: "strict_prefix p (encode_chunks cs)"
      using Cons.prems(2) by (simp add: strict_prefix_def)
    then have "cs \<noteq> []" by auto
    then have "read_stream_with_cancel (\<lambda>k. False) k src dest =
        read_stream_with_cancel (\<lambda>k. False) (Suc k) (src\<lparr>rbytes := p\<rparr>) (dest\<lparr>wbytes := wbytes dest @ c\<rparr>)"
      using Cons.prems p read_stream_with_cancel_chunk [of dest src "cs \<noteq> []" c p] by simp
    moreover obtain src' out where "read_stream_with_cancel (\<lambda>k. False) (Suc k) (src\<lparr>rbytes := p\<rparr>)
        (dest\<lparr>wbytes := wbytes dest @ c\<rparr>) =
          (Err (Io e), src', dest\<lparr>wbytes := (wbytes dest @ c) @ out\<rparr>)" "prefix out (concat cs)"
      using Cons.IH [of "dest\<lparr>wbytes := wbytes dest @ c\<rparr>" "src\<lparr>rbytes := p\<rparr>" "Suc k"] Cons.prems sp
      by auto
    ultimately show ?thesis
      by (intro exI [of _ src'] exI [of _ "c @ out"]) simp
  next
    case False
    then have sp: "strict_prefix (rbytes src) ?f"
      using Cons.prems(2) by (auto simp: strict_prefix_def prefix_append)
    then have short: "length (rbytes src) < CHUNK_SIZE + 5"
      using prefix_length_less len by (fastforce simp: framed_def)
    have "\<exists>src'. read_stream_with_cancel (\<lambda>k. False) k src dest = (Err (Io e), src', dest)"
      using short Cons.prems(4)
      by (subst read_stream_with_cancel.simps) (auto simp: read_exact_def)
    then obtain src' where "read_stream_with_cancel (\<lambda>k. False) k src dest = (Err (Io e), src', dest)" ..
    then show ?thesis by (intro exI [of _ src'] exI [of _ "[]"]) simp
  qed
qed simp

section \<open>The interface of a framed stream\<close>

text \<open>
  What \<open>send\<close> and \<open>server\<close> rely on: a receiver recovers what was put on the wire and leaves
  what follows untouched, and it never takes a cut-off stream for a complete one.
\<close>

locale stream_framing =
  fixes wire :: "u8 list \<Rightarrow> u8 list"
    and receive :: "u8 list \<Rightarrow> (u8 list \<times> u8 list) option"
  assumes receive_wire: "receive (wire xs @ rest) = Some (xs, rest)"
    and receive_truncated: "strict_prefix p (wire xs) \<Longrightarrow> receive p = None"
begin

lemma wire_inject: "wire xs = wire ys \<Longrightarrow> xs = ys"
  using receive_wire [of xs "[]"] receive_wire [of ys "[]"] by simp

lemma prefix_free:
  assumes "prefix (wire xs) (wire ys)"
  shows "xs = ys"
proof (rule ccontr)
  assume "xs \<noteq> ys"
  then have "strict_prefix (wire xs) (wire ys)"
    using assms wire_inject by (auto simp: strict_prefix_def)
  from receive_truncated [OF this] receive_wire [of xs "[]"] show False by simp
qed

lemma two_streams:
  "\<exists>rest. receive (wire xs @ wire ys) = Some (xs, rest) \<and> receive rest = Some (ys, [])"
  using receive_wire [of xs "wire ys"] receive_wire [of ys "[]"] by simp

end

text \<open>The interface on the code: an uncancelled, unthrottled sender and the receiver.\<close>

definition source_of :: "u8 list \<Rightarrow> nat list \<Rightarrow> rstream" where
  "source_of bs sizes = \<lparr>rbytes = bs, rerr = None, rsizes = sizes\<rparr>"

definition sink :: wstream where
  "sink = \<lparr>wbytes = [], wcap = None\<rparr>"

definition wire_of :: "u8 list \<Rightarrow> u8 list" where
  "wire_of xs =
     (case write_stream None 0 (\<lambda>k. False) (source_of xs []) sink of
        (x, src, dest, calls) \<Rightarrow> wbytes dest)"

definition receive_of :: "u8 list \<Rightarrow> (u8 list \<times> u8 list) option" where
  "receive_of bs =
     (case read_stream (source_of bs []) sink of
        (x, src, dest) \<Rightarrow> (case x of Ok u \<Rightarrow> Some (wbytes dest, rbytes src) | _ \<Rightarrow> None))"

lemma throttle_off [simp]: "\<not> throttle_panics None n"
  by (simp add: throttle_panics_def)

lemma wire_of_eq: "wire_of xs = encode_stream xs"
proof (cases "write_stream None 0 (\<lambda>k. False) (source_of xs []) sink")
  case (fields x src dest calls)
  from write_stream_emits(2) [OF _ _ _ this] show ?thesis
    unfolding wire_of_def fields by (simp add: source_of_def sink_def encode_stream_def)
qed

lemma receive_of_truncated:
  assumes "strict_prefix p (encode_stream xs)"
  shows "receive_of p = None"
proof -
  obtain src' out where "read_stream_with_cancel (\<lambda>k. False) 0 (source_of p []) sink =
      (Err (Io early_eof), src', sink\<lparr>wbytes := wbytes sink @ out\<rparr>)"
    using read_truncated [of sink "source_of p []" "chunks xs" early_eof 0] assms chunks_length
    by (auto simp: source_of_def sink_def encode_stream_def)
  then show ?thesis
    by (auto simp: read_stream_never_cancelled receive_of_def split: prod.splits res.splits)
qed

interpretation codec: stream_framing wire_of receive_of
proof unfold_locales
  show "receive_of (wire_of xs @ rest) = Some (xs, rest)" for xs rest
    using read_chunks [of sink "source_of (wire_of xs @ rest) []" "chunks xs" rest] chunks_length
    by (simp add: receive_of_def wire_of_eq encode_stream_def source_of_def sink_def concat_chunks)
  show "receive_of p = None" if "strict_prefix p (wire_of xs)" for p xs
    using that by (simp add: wire_of_eq receive_of_truncated)
qed

section \<open>Properties\<close>

text \<open>
  C1. The transfer is lossless: what \<open>write_stream\<close> puts on the wire, whatever pieces the
  source is read in, \<open>read_stream\<close> turns back into exactly the source's bytes, leaving the bytes
  after the stream unread.
\<close>

theorem stream_round_trip:
  assumes "wcap dest = None" and "rerr src = None"
    and "\<And>n. n \<le> length (rbytes src) \<Longrightarrow> \<not> throttle_panics rate (word_of_nat n)"
  shows "\<exists>src' calls wire.
    write_stream rate total_bytes (\<lambda>k. False) src dest =
      (Ok (), src', dest\<lparr>wbytes := wbytes dest @ wire\<rparr>, calls) \<and>
    (\<forall>rest sizes dest'. wcap dest' = None \<longrightarrow>
       read_stream (source_of (wire @ rest) sizes) dest' =
         (Ok (), source_of rest sizes, dest'\<lparr>wbytes := wbytes dest' @ rbytes src\<rparr>))"
proof -
  obtain x src' dest1 calls where
    run: "write_stream rate total_bytes (\<lambda>k. False) src dest = (x, src', dest1, calls)"
    by (metis prod_cases4)
  have "read_stream (source_of (encode_chunks (chunks (rbytes src)) @ rest) sizes) dest' =
      (Ok (), source_of rest sizes, dest'\<lparr>wbytes := wbytes dest' @ rbytes src\<rparr>)"
    if "wcap dest' = None" for rest sizes dest'
    using read_chunks [OF that, of "source_of (encode_chunks (chunks (rbytes src)) @ rest) sizes"]
      chunks_length by (simp add: source_of_def concat_chunks)
  then show ?thesis
    using write_stream_emits(1,2) [OF assms run] run by auto
qed

text \<open>
  \<open>write_stream\<close> implements the documented format: 4 MiB chunks, each padded with zero bytes
  (no bytes of an earlier chunk leak into the padding) and followed by its Control Frame; the
  callback sees the running total after each chunk.
\<close>

theorem write_stream_format:
  assumes "wcap dest = None" and "rerr src = None"
    and "\<And>n. n \<le> length (rbytes src) \<Longrightarrow> \<not> throttle_panics rate (word_of_nat n)"
  shows "\<exists>src'. write_stream rate total_bytes (\<lambda>k. False) src dest =
    (Ok (), src', dest\<lparr>wbytes := wbytes dest @ encode_stream (rbytes src)\<rparr>,
     progress_calls total_bytes (\<lambda>k. False) 0 0 (chunks (rbytes src)))"
proof -
  obtain x src' dest1 calls where
    run: "write_stream rate total_bytes (\<lambda>k. False) src dest = (x, src', dest1, calls)"
    by (metis prod_cases4)
  from write_stream_emits [OF assms run] run show ?thesis
    by (simp add: encode_stream_def)
qed

text \<open>
  C28. A cut-off stream is never taken for a complete one: on any proper prefix of a valid
  stream the receiver fails, with an I/O error, having written only a prefix of the data.
\<close>

theorem read_stream_truncated:
  assumes "wcap dest = None" and "strict_prefix (rbytes src) (encode_stream xs)"
  shows "\<exists>e src' out. read_stream src dest = (Err (Io e), src', dest\<lparr>wbytes := wbytes dest @ out\<rparr>) \<and>
    prefix out xs"
proof -
  define e where "e = (case rerr src of Some e \<Rightarrow> e | None \<Rightarrow> early_eof)"
  obtain src' out where "read_stream_with_cancel (\<lambda>k. False) 0 src dest =
      (Err (Io e), src', dest\<lparr>wbytes := wbytes dest @ out\<rparr>)" "prefix out xs"
    using read_truncated [OF assms(1) assms(2) [unfolded encode_stream_def] _ e_def, of 0] chunks_length
    by (fastforce simp: concat_chunks)
  then show ?thesis
    by (auto simp: read_stream_never_cancelled split: prod.splits res.splits)
qed

text \<open>
  Cancelling the sender after its chunk number \<open>i\<close> finishes that chunk and its frame and
  stops there: the wire holds the first chunks of the stream, and the receiver, unless that was
  the last chunk, runs into the end of the stream and fails.
\<close>

theorem write_stream_cancelled:
  assumes "wcap dest = None" and "wbytes dest = []" and "rerr src = None"
    and "\<And>n. n \<le> length (rbytes src) \<Longrightarrow> \<not> throttle_panics rate (word_of_nat n)"
    and "cancelled i" and "\<And>j. j < i \<Longrightarrow> \<not> cancelled j" and "i < length (chunks (rbytes src))"
  shows "\<exists>src' dest' calls. write_stream rate total_bytes cancelled src dest =
      (Err Cancelled, src', dest', calls) \<and>
    wbytes dest' = concat (map (framed True) (take i (chunks (rbytes src)))) @
      framed (Suc i < length (chunks (rbytes src))) (chunks (rbytes src) ! i) \<and>
    receive_of (wbytes dest') =
      (if Suc i < length (chunks (rbytes src)) then None else Some (rbytes src, []))"
proof -
  let ?cs = "chunks (rbytes src)"
  let ?out = "concat (map (framed True) (take i ?cs)) @ framed (Suc i < length ?cs) (?cs ! i)"
  obtain x src' dest1 calls where
    run: "write_stream rate total_bytes cancelled src dest = (x, src', dest1, calls)"
    by (metis prod_cases4)
  have em: "emit_chunks cancelled 0 ?cs = (?out, True)"
    using emit_chunks_cut [of cancelled 0 i ?cs] assms(5-7) by simp
  have pre: "prefix ?out (encode_stream (rbytes src))"
    using emit_chunks_prefix [of cancelled 0 ?cs] by (simp add: em encode_stream_def)
  have "receive_of ?out = (if Suc i < length ?cs then None else Some (rbytes src, []))"
  proof (cases "Suc i < length ?cs")
    case True
    have len: "length (encode_chunks cs) = length (concat (map (framed True) cs))" for cs
      by (induction cs) (simp_all add: framed_def)
    have "length ?out = length (concat (map (framed True) (take (Suc i) ?cs)))"
      using assms(7) by (simp add: take_Suc_conv_app_nth framed_def)
    also have "\<dots> < length (concat (map (framed True) (take (Suc i) ?cs @ drop (Suc i) ?cs)))"
      using True by (cases "drop (Suc i) ?cs") (simp_all del: append_take_drop_id add: framed_def)
    finally have "length ?out < length (encode_stream (rbytes src))"
      by (simp only: append_take_drop_id encode_stream_def len)
    with pre have "strict_prefix ?out (encode_stream (rbytes src))"
      by (metis less_irrefl strict_prefixI)
    with True show ?thesis by (simp add: receive_of_truncated)
  next
    case False
    then have "?cs = take i ?cs @ [?cs ! i]"
      using assms(7) by (metis id_take_nth_drop drop_all not_less)
    moreover have "encode_chunks (ds @ [d]) = concat (map (framed True) ds) @ framed False d" for ds d
      by (induction ds) auto
    ultimately have "?out = wire_of (rbytes src)"
      using False by (metis encode_stream_def wire_of_eq)
    with False codec.receive_wire [of "rbytes src" "[]"] show ?thesis by simp
  qed
  then show ?thesis
    using write_stream_emits(1,2) [OF assms(1,3,4) run] run em assms(2) by auto
qed

text \<open>
  A Control Frame that announces more bytes than a chunk holds makes the receiver panic: the
  slice of the chunk is taken without a check.
\<close>

theorem read_stream_oversized_frame_panics:
  assumes "rbytes src = chunk @ make_frame w has_more @ rest" and "length chunk = CHUNK_SIZE"
    and "CHUNK_SIZE < unat w"
  shows "\<exists>p src'. read_stream src dest = (Panic p, src', dest)"
proof -
  have rd: "read_exact CHUNK_SIZE src = (Inr chunk, src\<lparr>rbytes := make_frame w has_more @ rest\<rparr>)"
    "read_exact 5 (src\<lparr>rbytes := make_frame w has_more @ rest\<rparr>) =
      (Inr (make_frame w has_more), src\<lparr>rbytes := rest\<rparr>)"
    using assms(1,2) by (subst read_exact_append; auto)+
  show ?thesis
    by (subst read_stream.simps) (simp add: rd assms(2,3) frame_fields Let_def)
qed

text \<open>
  A handshake message arrives as it was sent: the line that \<open>encode_json\<close> writes is what
  \<open>decode_json\<close> reads, and it consumes nothing of what follows, for every message that
  \<open>serde_json\<close> reads back.
\<close>

theorem json_message_round_trip:
  assumes "json_round_trip ser de m" and "wcap dest = None"
  shows "\<exists>line. encode_json ser m dest = (Ok (), dest\<lparr>wbytes := wbytes dest @ line\<rparr>) \<and>
    (\<forall>rest sizes. decode_json de (source_of (line @ rest) sizes) = (Ok m, source_of rest sizes))"
proof -
  obtain t where t: "ser m = Inr t" "newline \<notin> set t" "utf8_valid t" "de t = Inr m"
    using assms(1) by (auto simp: json_round_trip_def split: sum.splits)
  have "decode_json de (source_of ((bytes_of_str t @ [newline_byte]) @ rest) sizes) =
      (Ok m, source_of rest sizes)" for rest sizes
    using read_line_message [OF t(2,3), of "source_of ((bytes_of_str t @ [newline_byte]) @ rest) sizes" rest]
      t(2,4) by (simp add: decode_json_def source_of_def)
  then show ?thesis
    using t(1) assms(2) by (intro exI [of _ "bytes_of_str t @ [newline_byte]"]) (simp add: encode_json_def)
qed

lemma zero_rate_panics:
  assumes "wcap dest = None" and "rerr src = None"
  shows "\<exists>p src' dest'. write_stream (Some 0) total_bytes cancelled src dest = (Panic p, src', dest', [])"
proof -
  have pan: "throttle_panics (Some 0) n" for n
    using duration_secs_ok_div_0 by (simp add: throttle_panics_def f64_of_u64_def round_f64_def)
  let ?buf = "replicate CHUNK_SIZE (0 :: u8)"
  obtain y cur src1 where r1: "read_exact_or_eof src ?buf = (y, cur, src1)"
    by (cases "read_exact_or_eof src ?buf")
  obtain n where n: "y = Inr n"
    using assms(2) r1 by (cases y) (auto dest: read_exact_or_eof_Inl)
  have "rerr src1 = None"
    using read_exact_or_eof_Inr(4) [OF r1 [unfolded n]] assms(2) by simp
  then obtain m nxt src2 where r2: "read_exact_or_eof src1 ?buf = (Inr m, nxt, src2)"
    by (cases "read_exact_or_eof src1 ?buf"; cases "fst (read_exact_or_eof src1 ?buf)")
      (auto dest: read_exact_or_eof_Inl)
  show ?thesis
    using assms(1) unfolding write_stream_def r1 n
    by (simp, subst write_loop.simps) (simp add: r2 Let_def pan)
qed

text \<open>
  A bandwidth limit of zero bytes per second, which the configuration accepts, makes the
  sender panic after its first chunk: the throttle divides by it.
\<close>

theorem write_stream_zero_rate_panics:
  assumes "wcap dest = None" and "rerr src = None"
  shows "\<exists>p src' dest'. write_stream (Some 0) total_bytes cancelled src dest = (Panic p, src', dest', [])"
  by (rule zero_rate_panics [OF assms])

lemma throttle_fine:
  assumes "rate \<noteq> 0" "unat rate < 2 ^ 53" "n < 2 ^ 53"
  shows "\<not> throttle_panics (Some rate) (word_of_nat n)"
proof -
  have n: "unat (word_of_nat n :: u64) = n"
    using assms(3) by (simp add: unat_of_nat take_bit_eq_mod)
  obtain k where k: "unat rate = k" by blast
  have r: "1 \<le> k"
    using assms(1) k by (metis One_nat_def Suc_leI unat_gt_0)
  let ?q = "of_nat n / of_nat k :: rat"
  have "?q \<le> of_nat n"
    using r by (simp add: divide_le_eq mult_le_cancel_left1)
  also have "of_nat n \<le> (2 :: rat) ^ 53"
    using assms(3) by (metis (mono_tags, lifting) less_imp_le of_nat_le_iff of_nat_numeral of_nat_power)
  finally have "duration_secs_ok (round_f64 ?q)"
    by (intro round_f64_duration_ok) simp_all
  moreover have "f64_of_u64 rate = Fin (of_nat k)"
    using f64_of_u64_exact [OF assms(2)] unfolding k .
  moreover have "f64_of_u64 (word_of_nat n) = Fin (of_nat n)"
    using f64_of_u64_exact [of "word_of_nat n"] assms(3) unfolding n by simp
  ultimately show ?thesis
    using r by (simp add: throttle_panics_def)
qed

text \<open>
  With any other limit (up to 2^53 bytes per second, and for fewer than 2^53 bytes) the
  throttle's arithmetic on doubles never panics, and the whole stream is sent.
\<close>

theorem write_stream_throttled:
  assumes "rate \<noteq> 0" and "unat rate < 2 ^ 53" and "length (rbytes src) < 2 ^ 53"
    and "wcap dest = None" and "rerr src = None"
  shows "\<exists>src' calls. write_stream (Some rate) total_bytes (\<lambda>k. False) src dest =
    (Ok (), src', dest\<lparr>wbytes := wbytes dest @ encode_stream (rbytes src)\<rparr>, calls)"
proof -
  obtain x src' dest1 calls where
    run: "write_stream (Some rate) total_bytes (\<lambda>k. False) src dest = (x, src', dest1, calls)"
    by (metis prod_cases4)
  have "\<not> throttle_panics (Some rate) (word_of_nat n)" if "n \<le> length (rbytes src)" for n
    using that assms(3) by (intro throttle_fine assms(1,2)) simp
  from write_stream_emits [OF assms(4,5) this run] run show ?thesis
    by (simp add: encode_stream_def)
qed

section \<open>Witnesses\<close>

text \<open>
  A concrete instance of the JSON parameter, for messages without characters that need escapes:
  the layout of \<open>serde_json\<close>'s compact output, and a reader for that layout.
\<close>

abbreviation quote :: char where "quote \<equiv> CHR 0x22"

definition json_str :: "string \<Rightarrow> string" where
  "json_str s = [quote] @ s @ [quote]"

definition json_opt :: "string option \<Rightarrow> string" where
  "json_opt x = (case x of None \<Rightarrow> ''null'' | Some s \<Rightarrow> json_str s)"

definition json_status :: "bool \<Rightarrow> string \<Rightarrow> string" where
  "json_status ok msg =
     ''{'' @ json_str ''ok'' @ '':'' @ (if ok then ''true'' else ''false'') @ '','' @
     json_str ''message'' @ '':'' @ json_str msg @ ''}''"

definition read_status :: "string \<Rightarrow> string + bool \<times> string" where
  "read_status s =
     (let ps = split_char quote s
      in if length ps = 7 \<and> ps ! 1 = ''ok'' then Inr (ps ! 2 = '':true,'', ps ! 5)
         else Inl ''missing field `ok`'')"

definition json_hello :: "string \<Rightarrow> string option \<Rightarrow> string option \<Rightarrow> string" where
  "json_hello v h t =
     ''{'' @ json_str ''version'' @ '':'' @ json_str v @ '','' @ json_str ''head'' @ '':'' @
     json_opt h @ '','' @ json_str ''resume_token'' @ '':'' @ json_opt t @ ''}''"

definition read_hello :: "string \<Rightarrow> string + server_hello" where
  "read_hello s =
     (let ps = split_char quote s
      in if \<not> (9 \<le> length ps \<and> ps ! 1 = ''version'') then Inl ''missing field `version`''
         else Inr \<lparr>sh_version = ps ! 3,
                   sh_head = (if ps ! 6 = '':'' then Some (ps ! 7) else None),
                   sh_resume_token =
                     (if last ps = ''}'' then Some (ps ! (length ps - 2)) else None)\<rparr>)"

definition json_client :: "client_hello \<Rightarrow> string" where
  "json_client m =
     ''{'' @ json_str ''version'' @ '':'' @ json_str (ch_version m) @ '','' @
     json_str ''client_name'' @ '':'' @ json_str (ch_client_name m) @ '','' @
     json_str ''target'' @ '':'' @ json_str (ch_target m) @ ''}''"

definition read_client :: "string \<Rightarrow> string + client_hello" where
  "read_client s =
     (let ps = split_char quote s
      in if length ps = 13 \<and> ps ! 5 = ''client_name''
         then Inr \<lparr>ch_version = ps ! 3, ch_client_name = ps ! 7, ch_target = ps ! 11\<rparr>
         else Inl ''missing field `client_name`'')"

definition example_json :: json_api where
  "example_json =
     \<lparr>ser_server_hello = (\<lambda>m. Inr (json_hello (sh_version m) (sh_head m) (sh_resume_token m))),
      ser_client_hello = (\<lambda>m. Inr (json_client m)),
      ser_server_status = (\<lambda>m. Inr (json_status (ss_ok m) (ss_message m))),
      ser_client_ready = (\<lambda>m. Inr (json_status (cr_ok m) (cr_message m))),
      de_server_hello = read_hello,
      de_client_hello = read_client,
      de_server_status =
        (\<lambda>s. map_sum id (\<lambda>(ok, msg). \<lparr>ss_ok = ok, ss_message = msg\<rparr>) (read_status s)),
      de_client_ready =
        (\<lambda>s. map_sum id (\<lambda>(ok, msg). \<lparr>cr_ok = ok, cr_message = msg\<rparr>) (read_status s))\<rparr>"

lemmas json_eval = json_str_def json_opt_def json_status_def read_status_def json_hello_def
  read_hello_def json_client_def read_client_def

lemma stream_round_trip_witness:
  "\<exists>src' calls wire.
    write_stream None 3 (\<lambda>k. False) (source_of [1, 2, 3] [2]) sink =
      (Ok (), src', sink\<lparr>wbytes := wbytes sink @ wire\<rparr>, calls) \<and>
    read_stream (source_of (wire @ [9]) [1]) sink =
      (Ok (), source_of [9] [1], sink\<lparr>wbytes := [1, 2, 3]\<rparr>)"
proof -
  have src: "rerr (source_of [1, 2, 3] [2]) = None" "rbytes (source_of [1, 2, 3] [2]) = [1, 2, 3]"
    and snk: "wcap sink = None" "wbytes sink = []"
    by (simp_all add: sink_def source_of_def)
  obtain src' calls wire where "write_stream None 3 (\<lambda>k. False) (source_of [1, 2, 3] [2]) sink =
      (Ok (), src', sink\<lparr>wbytes := wbytes sink @ wire\<rparr>, calls)"
    and "\<And>rest sizes dest'. wcap dest' = None \<Longrightarrow> read_stream (source_of (wire @ rest) sizes) dest' =
      (Ok (), source_of rest sizes, dest'\<lparr>wbytes := wbytes dest' @ [1, 2, 3]\<rparr>)"
    using stream_round_trip [OF snk(1) src(1), of None 3] unfolding src(2) by auto
  then show ?thesis
    using snk by (intro exI [of _ src'] exI [of _ calls] exI [of _ wire]) simp
qed

lemma write_stream_format_witness:
  "\<exists>src'. write_stream None 3 (\<lambda>k. False) (source_of [1, 2, 3] [2]) sink =
    (Ok (), src', \<lparr>wbytes = [1, 2, 3] @ replicate (CHUNK_SIZE - 3) 0 @ [0, 0, 0, 3, 0], wcap = None\<rparr>,
     [(3, 3)])"
proof -
  have short: "take CHUNK_SIZE [1, 2, 3 :: u8] = [1, 2, 3]" "drop CHUNK_SIZE [1, 2, 3 :: u8] = []"
    by (simp_all add: CHUNK_SIZE_def)
  from write_stream_format [of sink "source_of [1, 2, 3] [2]" None 3]
  show ?thesis
    by (simp add: sink_def source_of_def encode_stream_def chunks_def short framed_def pad_def
        make_frame_def to_be_bytes_def numeral_3_eq_3)
qed

lemma read_stream_truncated_witness:
  "\<exists>e src' out. read_stream (source_of [1, 2] []) sink = (Err (Io e), src', sink\<lparr>wbytes := wbytes sink @ out\<rparr>) \<and>
    prefix out [1, 2, 3]"
proof (rule read_stream_truncated)
  have "take CHUNK_SIZE [1, 2, 3 :: u8] = [1, 2, 3]" by (simp add: CHUNK_SIZE_def)
  then show "strict_prefix (rbytes (source_of [1, 2] [])) (encode_stream [1, 2, 3])"
    by (simp add: source_of_def encode_stream_def chunks_def framed_def pad_def strict_prefix_def)
qed (simp add: sink_def)

lemma write_stream_cancelled_witness:
  "\<exists>src' dest' calls. write_stream None 3 (\<lambda>k. True) (source_of [1, 2, 3] []) sink =
      (Err Cancelled, src', dest', calls) \<and> receive_of (wbytes dest') = Some ([1, 2, 3], [])"
proof -
  have "length (chunks [1, 2, 3 :: u8]) = 1"
    by (simp add: chunks_def CHUNK_SIZE_def)
  then show ?thesis
    using write_stream_cancelled [of sink "source_of [1, 2, 3] []" None "\<lambda>k. True" 0 3]
    by (auto simp: sink_def source_of_def)
qed

lemma read_stream_oversized_frame_panics_witness:
  "\<exists>p src'. read_stream (source_of (replicate CHUNK_SIZE 7 @ make_frame 4194305 False) []) sink =
    (Panic p, src', sink)"
  by (rule read_stream_oversized_frame_panics
      [where chunk="replicate CHUNK_SIZE 7" and w=4194305 and has_more=False and rest="[]"])
    (simp_all add: source_of_def CHUNK_SIZE_def)

lemma json_message_round_trip_witness:
  "\<exists>line. encode_json (ser_client_ready example_json) \<lparr>cr_ok = False, cr_message = ''no''\<rparr> sink =
      (Ok (), sink\<lparr>wbytes := wbytes sink @ line\<rparr>) \<and>
    (\<forall>rest sizes. decode_json (de_client_ready example_json) (source_of (line @ rest) sizes) =
       (Ok \<lparr>cr_ok = False, cr_message = ''no''\<rparr>, source_of rest sizes))"
  by (rule json_message_round_trip)
    (simp_all add: json_round_trip_def example_json_def json_eval utf8_valid_def sink_def)

lemma write_stream_zero_rate_panics_witness:
  "\<exists>p src' dest'. write_stream (Some 0) 3 (\<lambda>k. False) (source_of [1, 2, 3] []) sink =
    (Panic p, src', dest', [])"
  by (rule write_stream_zero_rate_panics) (simp_all add: sink_def source_of_def)

lemma write_stream_throttled_witness:
  "\<exists>src' calls. write_stream (Some 1000000) 3 (\<lambda>k. False) (source_of [1, 2, 3] []) sink =
    (Ok (), src', sink\<lparr>wbytes := wbytes sink @ encode_stream (rbytes (source_of [1, 2, 3] []))\<rparr>, calls)"
  by (rule write_stream_throttled) (simp_all add: sink_def source_of_def)

end
