(* ===== verification/Config.thy ===== *)
theory Config
  imports Retention
begin

text \<open>
  The configuration (\<open>src/config.rs\<close>): bandwidth limits, the sections of the source and of the
  server configuration, and their cross-field checks. Reading TOML is not modelled; a
  configuration is a value of one of the records.
\<close>

section \<open>Bandwidth limits\<close>

definition ends_with :: "string \<Rightarrow> string \<Rightarrow> bool" where
  "ends_with s t = suffix t s"

text \<open>\<open>&s[..s.len() - n]\<close>.\<close>

definition drop_end :: "nat \<Rightarrow> string \<Rightarrow> string" where
  "drop_end n s = take (length s - n) s"

definition strip_unit :: "string \<Rightarrow> string \<times> bool" where
  "strip_unit s =
     (let lower = ascii_lower s
      in if ends_with lower ''bits'' then (drop_end 4 s, True)
         else if ends_with lower ''bit'' then (drop_end 3 s, True)
         else if ends_with s ''B'' \<or> ends_with s ''b'' then (drop_end 1 s, False)
         else (s, False))"

definition split_scale :: "string \<Rightarrow> string \<times> u64" where
  "split_scale s =
     (if s = [] then (s, 1)
      else if last s \<in> {CHR ''k'', CHR ''K''} then (drop_end 1 s, 1000)
      else if last s \<in> {CHR ''m'', CHR ''M''} then (drop_end 1 s, 1000000)
      else if last s \<in> {CHR ''g'', CHR ''G''} then (drop_end 1 s, 1000000000)
      else (s, 1))"

text \<open>
  The error texts quote the input; quoting and the printing of a double are left out.
\<close>

definition parse_bandwidth :: "string \<Rightarrow> string + u64" where
  "parse_bandwidth str =
     (let (s, is_bits) = strip_unit (trim str);
          (number_str, scale) = split_scale s
      in case parse_f64 number_str of
           None \<Rightarrow> Inl (''invalid bandwidth value: '' @ number_str)
         | Some value \<Rightarrow>
             if f64_less value (Fin 0) then Inl ''bandwidth limit must be non-negative''
             else Inr (f64_to_u64
                    (f64_div (f64_mul value (f64_of_u64 scale)) (if is_bits then Fin 8 else Fin 1))))"

text \<open>The \<open>bandwidth_limit\<close> field of a remote.\<close>

definition deserialize_bandwidth_limit :: "string option \<Rightarrow> string + u64 option" where
  "deserialize_bandwidth_limit s =
     (case s of None \<Rightarrow> Inr None | Some v \<Rightarrow> map_sum id Some (parse_bandwidth v))"

section \<open>The sections\<close>

record remote_config =
  rc_host :: string
  rc_port :: "nat option"
  rc_user :: "string option"
  rc_ssh_key :: "string option"
  rc_ssh_opts :: "string list"
  rc_zfs_send_opts :: "string list"
  rc_bandwidth_limit :: "u64 option"

type_synonym remote_targets = "(string, string) hmap"

record source_config =
  sc_name :: string
  sc_remotes :: "(string, remote_config) hmap"
  sc_datasets :: "(string, remote_targets) hmap"
  sc_retention :: retention_config

definition source_configured_datasets :: "source_config \<Rightarrow> string list" where
  "source_configured_datasets cfg = sort (map fst (sc_datasets cfg))"

text \<open>The first reference to an unknown remote, in the order the maps are iterated.\<close>

definition validate :: "source_config \<Rightarrow> source_config res" where
  "validate cfg =
     (case find (\<lambda>(dataset, remote_name). map_of (sc_remotes cfg) remote_name = None)
             (concat (map (\<lambda>(dataset, targets). map (\<lambda>(r, t). (dataset, r)) targets) (sc_datasets cfg))) of
        Some (dataset, remote_name) \<Rightarrow> Err (UnknownRemote dataset remote_name)
      | None \<Rightarrow> Ok cfg)"

record client_config =
  cc_allow :: "string list"
  cc_zfs_receive_opts :: "string list"

record server_config =
  sv_resume_hold_days :: u32
  sv_clients :: "(string, client_config) hmap"
  sv_retention :: retention_config

definition source_name :: "source_config \<Rightarrow> string" where
  "source_name cfg = sc_name cfg"

definition resume_hold_days :: "server_config \<Rightarrow> u32" where
  "resume_hold_days cfg = sv_resume_hold_days cfg"

text \<open>Reading a file and decoding TOML are parameters.\<close>

record config_files =
  cf_read :: "string \<Rightarrow> string + string"
  cf_source :: "string \<Rightarrow> string + source_config"
  cf_server :: "string \<Rightarrow> string + server_config"

definition load_source :: "config_files \<Rightarrow> string \<Rightarrow> source_config res" where
  "load_source F path =
     (case cf_read F path of
        Inl e \<Rightarrow> Err (ConfigIo e)
      | Inr txt \<Rightarrow> (case cf_source F txt of Inl e \<Rightarrow> Err (ConfigToml e) | Inr config \<Rightarrow> Ok config))"

definition load_server :: "config_files \<Rightarrow> string \<Rightarrow> server_config res" where
  "load_server F path =
     (case cf_read F path of
        Inl e \<Rightarrow> Err (ConfigIo e)
      | Inr txt \<Rightarrow> (case cf_server F txt of Inl e \<Rightarrow> Err (ConfigToml e) | Inr config \<Rightarrow> Ok config))"

definition server_configured_datasets :: "server_config \<Rightarrow> string list" where
  "server_configured_datasets cfg =
     dedup (sort (concat (map (\<lambda>(name, c). cc_allow c) (sv_clients cfg))))"

section \<open>The size estimate of \<open>zfs send -n -v\<close>\<close>

text \<open>
  \<open>src/zfs/estimator.rs\<close>. The position of the unit is that of the first alphabetic character;
  a non-ASCII letter before it makes the number unreadable either way, so only ASCII letters
  are looked for.
\<close>

datatype estimator_error = LineMissing | MalformedValue string

fun str_find :: "string \<Rightarrow> string \<Rightarrow> (string \<times> string) option" where
  "str_find p [] = (if p = [] then Some ([], []) else None)"
| "str_find p (c # cs) =
     (if prefix p (c # cs) then Some ([], drop (length p) (c # cs))
      else map_option (apfst (Cons c)) (str_find p cs))"

definition is_alpha :: "char \<Rightarrow> bool" where
  "is_alpha c = (let n = (of_char c :: nat) in 65 \<le> n \<and> n \<le> 90 \<or> 97 \<le> n \<and> n \<le> 122)"

definition size_multiplier :: "string \<Rightarrow> u64 option" where
  "size_multiplier unit =
     (if unit \<in> {'''', ''B''} then Some 1
      else if unit \<in> {''K'', ''KB''} then Some 1024
      else if unit \<in> {''M'', ''MB''} then Some (1024 * 1024)
      else if unit \<in> {''G'', ''GB''} then Some (1024 * 1024 * 1024)
      else if unit \<in> {''T'', ''TB''} then Some (1024 * 1024 * 1024 * 1024)
      else None)"

definition parse_size_str :: "string \<Rightarrow> u64 option" where
  "parse_size_str s =
     (let num_str = takeWhile (\<lambda>c. \<not> is_alpha c) s; unit = dropWhile (\<lambda>c. \<not> is_alpha c) s
      in case parse_f64 (trim num_str) of
           None \<Rightarrow> None
         | Some num \<Rightarrow>
             map_option (\<lambda>multiplier. f64_to_u64 (f64_mul num (f64_of_u64 multiplier)))
               (size_multiplier (trim unit)))"

definition parse_estimated_size :: "string \<Rightarrow> estimator_error + u64" where
  "parse_estimated_size output =
     (case find (\<lambda>l. str_find ''estimated size is'' l \<noteq> None) (lines output) of
        None \<Rightarrow> Inl LineMissing
      | Some line \<Rightarrow>
          (case str_find ''estimated size is '' line of
             None \<Rightarrow> Inl LineMissing
           | Some (_, rest) \<Rightarrow>
               let after = trim (case str_find ''estimated size is '' rest of
                                   None \<Rightarrow> rest | Some (a, _) \<Rightarrow> a)
               in case parse_size_str after of
                    None \<Rightarrow> Inl (MalformedValue after)
                  | Some n \<Rightarrow> Inr n))"

section \<open>Decimal numbers\<close>

lemma digit_facts:
  assumes "d \<in> set ''0123456789''"
  shows "is_digit d" "ascii_lower_char d = d" "solid d" "\<not> is_alpha d"
    "d \<noteq> CHR ''-''" "d \<noteq> CHR ''+''" "d \<noteq> CHR ''i''" "d \<noteq> CHR ''n''" "d \<noteq> CHR ''s''" "d \<noteq> CHR ''t''"
    "d \<noteq> CHR ''b''" "d \<noteq> CHR ''B''" "d \<noteq> CHR ''k''" "d \<noteq> CHR ''K''" "d \<noteq> CHR ''m''" "d \<noteq> CHR ''M''"
    "d \<noteq> CHR ''g''" "d \<noteq> CHR ''G''"
  using assms
  by (auto simp: is_digit_def digit_val_def ascii_lower_char_def solid_def ws_seqs_def is_alpha_def)

lemma is_digit_nat_str: "c \<in> set (nat_str n) \<Longrightarrow> is_digit c"
  using set_nat_str [of n] digit_facts(1) by blast

lemma parse_f64_nat_str:
  assumes "n < 2 ^ 53"
  shows "parse_f64 (nat_str n) = Some (Fin (of_nat n))"
proof -
  obtain d ds where d: "nat_str n = d # ds" "d \<in> set ''0123456789''" by (rule nat_str_Cons)
  note f = digit_facts [OF d(2)]
  have "split_digits (nat_str n) = (nat_str n, [])"
    using is_digit_nat_str
    by (auto simp: split_digits_def takeWhile_eq_all_conv dropWhile_eq_Nil_conv)
  then have "parse_decimal (nat_str n) = Some (of_nat n)"
    by (simp add: parse_decimal_def digits_val_nat_str pow10_def)
  moreover have "take_sign (nat_str n) = (False, nat_str n)"
    using d(1) f by simp
  moreover have "ascii_lower (nat_str n) \<noteq> c # cs" if "\<not> is_digit c" for c cs
    using d(1) f(1,2) that by auto
  then have "ascii_lower (nat_str n) \<noteq> ''inf''" "ascii_lower (nat_str n) \<noteq> ''infinity''"
    "ascii_lower (nat_str n) \<noteq> ''nan''"
    by (simp_all add: is_digit_def digit_val_def)
  ultimately show ?thesis
    using round_f64_nat [OF assms] by (simp add: parse_f64_def)
qed

lemma f64_to_u64_nat:
  assumes "m < 2 ^ 53"
  shows "f64_to_u64 (Fin (of_nat m)) = word_of_nat m"
proof -
  have "m \<le> u64_max" using assms by (simp add: u64_max_def)
  then show ?thesis by (simp add: f64_to_u64_Fin_nat del: f64_to_u64.simps)
qed

lemma f64_to_u64_eighth:
  assumes "m < 2 ^ 53"
  shows "f64_to_u64 (Fin (of_nat m / 8)) = word_of_nat (m div 8)"
proof (cases "m = 0")
  case True
  then show ?thesis by simp
next
  case False
  have "of_nat m / 8 < (of_nat u64_max :: rat)"
  proof -
    have "of_nat m / 8 \<le> (of_nat m :: rat)" by simp
    also have "\<dots> < of_nat u64_max" using assms by (simp add: u64_max_def)
    finally show ?thesis .
  qed
  moreover have "\<lfloor>of_nat m / (8::rat)\<rfloor> = int (m div 8)"
    using floor_divide_of_nat_eq [of m 8, where ?'a = rat] by simp
  ultimately show ?thesis using False by simp
qed

lemma scaled_value:
  assumes "n * s < 2 ^ 53" "s \<noteq> 0" "s < 2 ^ 53"
  shows "f64_div (f64_mul (Fin (of_nat n)) (f64_of_u64 (word_of_nat s))) (Fin 1) = Fin (of_nat (n * s))"
    and "f64_div (f64_mul (Fin (of_nat n)) (f64_of_u64 (word_of_nat s))) (Fin 8) = Fin (of_nat (n * s) / 8)"
proof -
  have "unat (word_of_nat s :: u64) = s"
    using assms(3) by (simp add: unat_of_nat take_bit_eq_mod)
  then have "f64_of_u64 (word_of_nat s) = Fin (of_nat s)"
    using f64_of_u64_exact [of "word_of_nat s"] assms(3) by simp
  then have "f64_mul (Fin (of_nat n)) (f64_of_u64 (word_of_nat s)) = Fin (of_nat (n * s))"
    using round_f64_nat [OF assms(1)] by simp
  then show "f64_div (f64_mul (Fin (of_nat n)) (f64_of_u64 (word_of_nat s))) (Fin 1) = Fin (of_nat (n * s))"
    and "f64_div (f64_mul (Fin (of_nat n)) (f64_of_u64 (word_of_nat s))) (Fin 8) = Fin (of_nat (n * s) / 8)"
    using round_f64_nat [OF assms(1)] round_f64_exact [OF assms(1), of 3] by simp_all
qed

section \<open>Properties\<close>

text \<open>The suffixes of a bandwidth: a prefix with its factor, and a unit (true for bits).\<close>

definition bandwidth_prefixes :: "(string \<times> nat) list" where
  "bandwidth_prefixes =
     [('''', 1), (''k'', 1000), (''K'', 1000), (''m'', 1000000), (''M'', 1000000),
      (''g'', 1000000000), (''G'', 1000000000)]"

definition bandwidth_units :: "(string \<times> bool) list" where
  "bandwidth_units =
     [('''', False), (''B'', False), (''b'', False), (''bit'', True), (''bits'', True),
      (''Bit'', True), (''Bits'', True)]"

lemma drop_end_append [simp]: "length t = n \<Longrightarrow> drop_end n (s @ t) = s"
  by (simp add: drop_end_def)

lemma split_scale_number:
  assumes "(p, sc) \<in> set bandwidth_prefixes"
  shows "split_scale (nat_str n @ p) = (nat_str n, word_of_nat sc)"
proof -
  obtain ds d where d: "nat_str n = ds @ [d]" "d \<in> set ''0123456789''" by (rule nat_str_snoc)
  note f = digit_facts [OF d(2)]
  show ?thesis
    using assms unfolding bandwidth_prefixes_def
    by (auto simp: split_scale_def drop_end_def d(1) f)
qed

lemma lower_table:
  "ascii_lower_char (CHR ''b'') = CHR ''b''" "ascii_lower_char (CHR ''B'') = CHR ''b''"
  "ascii_lower_char (CHR ''i'') = CHR ''i''" "ascii_lower_char (CHR ''t'') = CHR ''t''"
  "ascii_lower_char (CHR ''s'') = CHR ''s''"
  "ascii_lower_char (CHR ''k'') = CHR ''k''" "ascii_lower_char (CHR ''K'') = CHR ''k''"
  "ascii_lower_char (CHR ''m'') = CHR ''m''" "ascii_lower_char (CHR ''M'') = CHR ''m''"
  "ascii_lower_char (CHR ''g'') = CHR ''g''" "ascii_lower_char (CHR ''G'') = CHR ''g''"
  by code_simp+

lemma strip_unit_last:
  assumes "(u, bits) \<in> set bandwidth_units"
    and "l \<noteq> CHR ''b''" "l \<noteq> CHR ''B''" "ascii_lower_char l \<noteq> CHR ''s''" "ascii_lower_char l \<noteq> CHR ''t''"
  shows "strip_unit (xs @ [l] @ u) = (xs @ [l], bits)"
  using assms
  by (auto simp: bandwidth_units_def strip_unit_def ends_with_def suffix_to_prefix drop_end_def lower_table)

lemma strip_unit_number:
  assumes "(p, sc) \<in> set bandwidth_prefixes" "(u, bits) \<in> set bandwidth_units"
  shows "strip_unit (nat_str n @ p @ u) = (nat_str n @ p, bits)"
proof -
  obtain ds d where d: "nat_str n = ds @ [d]" "d \<in> set ''0123456789''" by (rule nat_str_snoc)
  note f = digit_facts [OF d(2)]
  let ?l = "last (nat_str n @ p)"
  have l: "?l \<noteq> CHR ''b''" "?l \<noteq> CHR ''B''" "ascii_lower_char ?l \<noteq> CHR ''s''"
    "ascii_lower_char ?l \<noteq> CHR ''t''"
    using assms(1) f unfolding bandwidth_prefixes_def by (auto simp: d(1) lower_table)
  have "nat_str n @ p = butlast (nat_str n @ p) @ [?l]" by simp
  with strip_unit_last [OF assms(2) l, of "butlast (nat_str n @ p)"] show ?thesis
    by (metis append.assoc)
qed

lemma solid_letters: "solid (CHR ''B'')" "solid (CHR ''K'')" "solid (CHR ''M'')" "solid (CHR ''G'')"
    "solid (CHR ''T'')" "solid (CHR ''k'')" "solid (CHR ''m'')" "solid (CHR ''g'')" "solid (CHR ''b'')"
    "solid (CHR ''t'')" "solid (CHR ''s'')"
    "is_alpha (CHR ''B'')" "is_alpha (CHR ''K'')" "is_alpha (CHR ''M'')"
    "is_alpha (CHR ''G'')" "is_alpha (CHR ''T'')"
  by (simp_all add: solid_def ws_seqs_def is_alpha_def)

lemma trim_number:
  assumes "(p, sc) \<in> set bandwidth_prefixes" "(u, bits) \<in> set bandwidth_units"
  shows "trim (nat_str n @ p @ u) = nat_str n @ p @ u"
proof (rule trim_solid)
  obtain d ds where d: "nat_str n = d # ds" "d \<in> set ''0123456789''" by (rule nat_str_Cons)
  then show "solid (hd (nat_str n @ p @ u))" by (simp add: digit_facts)
  obtain es e where e: "nat_str n = es @ [e]" "e \<in> set ''0123456789''" by (rule nat_str_snoc)
  have "p = [] \<or> solid (last p)"
    using assms(1) by (auto simp: bandwidth_prefixes_def solid_letters)
  moreover have "u = [] \<or> solid (last u)"
    using assms(2) by (auto simp: bandwidth_units_def solid_letters)
  ultimately show "solid (last (nat_str n @ p @ u))"
    using digit_facts(3) [OF e(2)] by (auto simp: e(1) last_append)
qed simp



text \<open>
  Validation accepts a source configuration exactly when every remote that a dataset maps
  to is configured, and returns it unchanged; otherwise it names a dataset and an unknown remote
  of that dataset.
\<close>

theorem validate_correct:
  "case validate cfg of
     Ok cfg' \<Rightarrow> cfg' = cfg \<and>
       (\<forall>(dataset, targets) \<in> set (sc_datasets cfg). \<forall>(r, t) \<in> set targets. map_of (sc_remotes cfg) r \<noteq> None)
   | Err e \<Rightarrow> (\<exists>dataset targets r t. e = UnknownRemote dataset r \<and>
       (dataset, targets) \<in> set (sc_datasets cfg) \<and> (r, t) \<in> set targets \<and>
       map_of (sc_remotes cfg) r = None)
   | Panic p \<Rightarrow> False"
proof -
  let ?refs = "concat (map (\<lambda>(dataset, targets). map (\<lambda>(r, t). (dataset, r)) targets) (sc_datasets cfg))"
  let ?P = "\<lambda>(dataset, remote_name). map_of (sc_remotes cfg) remote_name = None"
  show ?thesis
  proof (cases "find ?P ?refs")
    case None
    then have v: "validate cfg = Ok cfg" by (simp add: validate_def)
    have ok: "map_of (sc_remotes cfg) r \<noteq> None"
      if "(ds, targets) \<in> set (sc_datasets cfg)" "(r, t) \<in> set targets" for ds targets r t
    proof -
      have "(ds, r) \<in> set ?refs" using that by force
      with None have "\<not> ?P (ds, r)" unfolding find_None_iff by blast
      then show ?thesis by simp
    qed
    show ?thesis unfolding v res.case using ok by blast
  next
    case (Some x)
    obtain ds r where x: "x = (ds, r)" by (cases x)
    obtain i where i: "i < length ?refs" "?P (?refs ! i)" "x = ?refs ! i"
      using Some [unfolded find_Some_iff] by (elim exE conjE)
    have "(ds, r) \<in> set ?refs"
      using nth_mem [OF i(1)] unfolding i(3) [symmetric] x .
    moreover have "map_of (sc_remotes cfg) r = None"
      using i(2) unfolding i(3) [symmetric] x by simp
    ultimately show ?thesis by (auto simp: validate_def Some x)
  qed
qed

section \<open>Size estimates\<close>

definition size_units :: "(string \<times> nat) list" where
  "size_units =
     [('''', 1), (''B'', 1), (''K'', 1024), (''KB'', 1024), (''M'', 1048576), (''MB'', 1048576),
      (''G'', 1073741824), (''GB'', 1073741824), (''T'', 1099511627776), (''TB'', 1099511627776)]"


lemma trim_nat_str [simp]: "trim (nat_str n) = nat_str n"
  using trim_number [of "''''" 1 "''''" False n] by (simp add: bandwidth_prefixes_def bandwidth_units_def)

lemma trim_Nil [simp]: "trim [] = []"
  by (simp add: trim_def trim_start_def trim_end_def trim_seqs.simps [of _ "[]"] ws_seqs_def)

lemma size_unit_facts:
  assumes "(u, m) \<in> set size_units"
  shows "takeWhile (\<lambda>c. \<not> is_alpha c) (nat_str n @ u) = nat_str n"
    and "dropWhile (\<lambda>c. \<not> is_alpha c) (nat_str n @ u) = u"
    and "trim u = u" and "size_multiplier u = Some (word_of_nat m)" and "0 < m" "m < 2 ^ 53"
    and "trim (nat_str n @ u) = nat_str n @ u"
proof -
  have na: "\<And>c. c \<in> set (nat_str n) \<Longrightarrow> \<not> is_alpha c"
    using set_nat_str [of n] digit_facts(4) by blast
  have u: "u = [] \<or> is_alpha (hd u) \<and> solid (hd u) \<and> solid (last u)"
    using assms by (auto simp: size_units_def solid_letters)
  show "takeWhile (\<lambda>c. \<not> is_alpha c) (nat_str n @ u) = nat_str n"
    and "dropWhile (\<lambda>c. \<not> is_alpha c) (nat_str n @ u) = u"
    using na u by (cases u; simp)+
  show "trim u = u"
    using u by (cases "u = []") (simp_all add: trim_solid)
  obtain d ds where d: "nat_str n = d # ds" "d \<in> set ''0123456789''" by (rule nat_str_Cons)
  show "trim (nat_str n @ u) = nat_str n @ u"
  proof (cases "u = []")
    case False
    then show ?thesis using u digit_facts(3) [OF d(2)] by (simp add: trim_solid d(1))
  qed simp
  show "size_multiplier u = Some (word_of_nat m)" "0 < m" "m < 2 ^ 53"
    using assms unfolding size_units_def list.set insert_iff empty_iff prod.inject
    by (elim disjE conjE FalseE; simp add: size_multiplier_def)+
qed

lemma parse_size_str_number:
  assumes "(u, m) \<in> set size_units" "n * m < 2 ^ 53"
  shows "parse_size_str (nat_str n @ u) = Some (word_of_nat (n * m))"
proof -
  note f = size_unit_facts [OF assms(1)]
  have n: "n < 2 ^ 53" using assms(2) f(5) by (cases m) (simp_all add: le_less_trans)
  have "f64_mul (Fin (of_nat n)) (f64_of_u64 (word_of_nat m)) = Fin (of_nat (n * m))"
  proof -
    have "unat (word_of_nat m :: u64) = m"
      using f(6) by (simp add: unat_of_nat take_bit_eq_mod)
    then have "f64_of_u64 (word_of_nat m) = Fin (of_nat m)"
      using f64_of_u64_exact [of "word_of_nat m"] f(6) by simp
    then show ?thesis using round_f64_nat [OF assms(2)] by simp
  qed
  then show ?thesis
    unfolding parse_size_str_def Let_def f(1,2,3,4) trim_nat_str parse_f64_nat_str [OF n]
    using f64_to_u64_nat [OF assms(2)] by (simp del: f64_mul.simps f64_to_u64.simps)
qed

lemma str_find_absent:
  assumes "c \<in> set p" "c \<notin> set s"
  shows "str_find p s = None"
  using assms(2)
proof (induction s)
  case (Cons x s)
  have "\<not> prefix p (x # s)"
    using assms(1) Cons.prems set_mono_prefix by fastforce
  with Cons show ?case by simp
qed (use assms in auto)

text \<open>
  The size estimate of \<open>zfs send -n -v\<close> is read correctly: from the first line that
  announces one, a decimal number with a binary unit gives that many bytes, exactly, for every
  value below 2^53.
\<close>

theorem parse_estimated_size_line:
  assumes "lines output = before @ [''total estimated size is '' @ nat_str n @ u] @ after"
    and "\<And>l. l \<in> set before \<Longrightarrow> str_find ''estimated size is'' l = None"
    and "(u, m) \<in> set size_units" and "n * m < 2 ^ 53"
  shows "parse_estimated_size output = Inr (word_of_nat (n * m))"
proof -
  let ?rest = "nat_str n @ u"
  have fd: "find (\<lambda>l. str_find ''estimated size is'' l \<noteq> None) (lines output) =
      Some (''total estimated size is '' @ ?rest)"
    unfolding assms(1) using assms(2) by (induction before) auto
  have "CHR '' '' \<notin> set ?rest"
    using set_nat_str [of n] assms(3) by (auto simp: size_units_def)
  then have none: "str_find ''estimated size is '' ?rest = None"
    by (intro str_find_absent [of "CHR '' ''"]) simp_all
  have "str_find ''estimated size is '' (''total estimated size is '' @ ?rest) = Some (''total '', ?rest)"
    by simp
  then show ?thesis
    unfolding parse_estimated_size_def fd option.case
    using none size_unit_facts(7) [OF assms(3), of n] parse_size_str_number [OF assms(3,4)]
    by simp
qed

lemma parse_estimated_size_line_witness:
  "parse_estimated_size (''total estimated size is '' @ nat_str 25 @ ''M'') = Inr 26214400"
proof -
  have ns: "nat_str 25 = ''25''" by (simp add: nat_str.simps digit_char_def)
  have "lines (''total estimated size is '' @ nat_str 25 @ ''M'') =
      [] @ [''total estimated size is '' @ nat_str 25 @ ''M''] @ []"
    unfolding ns by (simp add: lines.simps)
  from parse_estimated_size_line [OF this, of 1048576] show ?thesis
    by (simp add: size_units_def)
qed

text \<open>One dataset that is mapped to a remote nobody declared.\<close>

definition orphan_config :: source_config where
  "orphan_config = \<lparr>sc_name = ''nas'', sc_remotes = [],
     sc_datasets = [(''tank/home'', [(''offsite'', ''backup/home'')])],
     sc_retention = \<lparr>recent = 7, weekly_for_days = 30, monthly_for_days = 365\<rparr>\<rparr>"

lemma validate_correct_witness:
  "validate orphan_config = Err (UnknownRemote ''tank/home'' ''offsite'')"
proof -
  have "\<not> (\<forall>(dataset, targets) \<in> set (sc_datasets orphan_config).
      \<forall>(r, t) \<in> set targets. map_of (sc_remotes orphan_config) r \<noteq> None)"
    by (simp add: orphan_config_def)
  then show ?thesis
    using validate_correct [of orphan_config]
    by (cases "validate orphan_config") (auto simp: orphan_config_def)
qed

end
