(* ===== verification/Handshake.thy ===== *)
theory Handshake
  imports Listing Codec Config
begin

text \<open>
  The handshake of the protocol (\<open>src/protocol/handshake.rs\<close>): version gate, client name and
  allowlist on the server, and the exchange of \<open>ClientHello\<close>, \<open>ServerStatus\<close> and \<open>ServerHello\<close>
  as each side performs it on its own connection. \<open>J\<close> is \<open>serde_json\<close> on the messages.
\<close>

section \<open>The code\<close>

definition CARGO_PKG_VERSION :: string where
  "CARGO_PKG_VERSION = ''0.3.0''"

text \<open>Major and minor number; a missing or unreadable one makes the version incompatible.\<close>

definition major_minor :: "string \<Rightarrow> (nat \<times> nat) option" where
  "major_minor v =
     (case splitn 3 (CHR ''.'') v of
        a # b # _ \<Rightarrow>
          (case (parse_uint u64_max a, parse_uint u64_max b) of
             (Some major, Some minor) \<Rightarrow> Some (major, minor)
           | _ \<Rightarrow> None)
      | _ \<Rightarrow> None)"

definition version_compatible :: "string \<Rightarrow> string \<Rightarrow> bool" where
  "version_compatible client server =
     (case (major_minor client, major_minor server) of
        (Some c, Some s) \<Rightarrow> c = s
      | _ \<Rightarrow> False)"

definition client_handshake :: "json_api \<Rightarrow> string \<Rightarrow> string \<Rightarrow> ('w, server_hello) io" where
  "client_handshake J target client_name =
     io_bind (io_context ''writing ClientHello''
       (io_xmit (encode_json (ser_client_hello J)
          \<lparr>ch_version = CARGO_PKG_VERSION, ch_client_name = client_name, ch_target = target\<rparr>))) (\<lambda>_.
     io_bind (io_context ''reading version ServerStatus'' (io_recv (decode_json (de_server_status J))))
       (\<lambda>version_status.
     if \<not> ss_ok version_status
     then io_fail (Message (''server rejected connection: '' @ ss_message version_status))
     else io_context ''reading ServerHello'' (io_recv (decode_json (de_server_hello J)))))"

record server_handshake_result =
  hs_target :: string
  hs_zfs_receive_opts :: "string list"

text \<open>A \<open>ServerStatus\<close> on the wire.\<close>

definition send_status :: "json_api \<Rightarrow> bool \<Rightarrow> string \<Rightarrow> ('w, unit) io" where
  "send_status J ok msg =
     io_xmit (encode_json (ser_server_status J) \<lparr>ss_ok = ok, ss_message = msg\<rparr>)"

definition last_of :: "'a list \<Rightarrow> 'a option" where
  "last_of xs = (if xs = [] then None else Some (last xs))"

definition server_handshake ::
    "'w os \<Rightarrow> chrono \<Rightarrow> json_api \<Rightarrow> server_config \<Rightarrow> string list \<Rightarrow>
     ('w, server_handshake_result option) io" where
  "server_handshake S C J config permitted_clients =
     io_bind (io_context ''reading ClientHello'' (io_recv (decode_json (de_client_hello J)))) (\<lambda>request.
     if \<not> version_compatible (ch_version request) CARGO_PKG_VERSION
     then io_bind (send_status J False
            (''version mismatch: client '' @ ch_version request @ '', server '' @ CARGO_PKG_VERSION))
            (\<lambda>_. io_return None)
     else
     io_bind (send_status J True ''ok'') (\<lambda>_.
     if ch_client_name request \<notin> set permitted_clients
     then io_bind (send_status J False (''unknown client: '' @ ch_client_name request))
            (\<lambda>_. io_return None)
     else
     (case map_of (sv_clients config) (ch_client_name request) of
        None \<Rightarrow> io_fail (Message ''client in permitted_clients but missing from config'')
      | Some client_cfg \<Rightarrow>
          if ch_target request \<notin> set (cc_allow client_cfg)
          then io_bind (send_status J False (''dataset not allowed: '' @ ch_target request))
                 (\<lambda>_. io_return None)
          else
          io_bind (io_context ''checking resume token'' (get_resume_token S (ch_target request)))
            (\<lambda>resume_token.
          io_bind (io_context ''listing snapshots'' (list_snapshots S (ch_target request))) (\<lambda>raw_snaps.
          let head = last_of (sort_chronological C (filter_zrb C raw_snaps))
          in io_bind (io_xmit (encode_json (ser_server_hello J)
               \<lparr>sh_version = CARGO_PKG_VERSION, sh_head = head, sh_resume_token = resume_token\<rparr>)) (\<lambda>_.
             io_return (Some \<lparr>hs_target = ch_target request,
                              hs_zfs_receive_opts = cc_zfs_receive_opts client_cfg\<rparr>)))))))"

section \<open>Sending and receiving a message\<close>

lemma xmit_json:
  assumes "json_round_trip ser de m" "wcap (outp s) = None"
  obtains t where "ser m = Inr t"
    "io_xmit (encode_json ser m) s = (Ok (), s\<lparr>outp := (outp s)\<lparr>wbytes := wbytes (outp s) @ bytes_of_str t @ [newline_byte]\<rparr>\<rparr>)"
  using assms by (auto simp: json_round_trip_def io_xmit_def encode_json_def split: sum.splits)

lemma recv_json:
  assumes "json_round_trip ser de m" "ser m = Inr t"
    and "rbytes (inp s) = bytes_of_str t @ newline_byte # rest"
  shows "io_recv (decode_json de) s = (Ok m, s\<lparr>inp := (inp s)\<lparr>rbytes := rest\<rparr>\<rparr>)"
proof -
  have t: "newline \<notin> set t" "utf8_valid t" "de t = Inr m"
    using assms(1,2) by (simp_all add: json_round_trip_def)
  show ?thesis
    using read_line_message [OF t(1,2) assms(3)] t
    by (simp add: io_recv_def decode_json_def)
qed

text \<open>The bytes of one message.\<close>

definition json_line :: "('m \<Rightarrow> string + string) \<Rightarrow> 'm \<Rightarrow> u8 list" where
  "json_line ser m = (case ser m of Inr t \<Rightarrow> bytes_of_str t @ [newline_byte] | Inl e \<Rightarrow> [])"

lemma xmit_json_line:
  assumes "json_round_trip ser de m" "wcap (outp s) = None"
  shows "io_xmit (encode_json ser m) s =
    (Ok (), s\<lparr>outp := (outp s)\<lparr>wbytes := wbytes (outp s) @ json_line ser m\<rparr>\<rparr>)"
  by (rule xmit_json [OF assms]) (simp add: json_line_def)

lemma recv_json_line:
  assumes "json_round_trip ser de m" "rbytes (inp s) = json_line ser m @ rest"
  shows "io_recv (decode_json de) s = (Ok m, s\<lparr>inp := (inp s)\<lparr>rbytes := rest\<rparr>\<rparr>)"
proof -
  obtain t where "ser m = Inr t"
    using assms(1) by (auto simp: json_round_trip_def split: sum.splits)
  with assms show ?thesis by (intro recv_json [OF assms(1)]) (simp_all add: json_line_def)
qed

section \<open>Versions\<close>

lemma dot_not_in_nat_str [simp]: "CHR ''.'' \<notin> set (nat_str n)"
  using set_nat_str [of n] by auto

lemma parse_uint_nat_str:
  assumes "n \<le> bound"
  shows "parse_uint bound (nat_str n) = Some n"
proof -
  obtain d ds where d: "nat_str n = d # ds" "d \<in> set ''0123456789''" by (rule nat_str_Cons)
  then show ?thesis
    using digits_val_nat_str [of n] assms digit_facts(6) [OF d(2)] by (simp add: parse_uint_def Let_def)
qed

lemma major_minor_dotted:
  assumes "a \<le> u64_max" "b \<le> u64_max"
  shows "major_minor (nat_str a @ ''.'' @ nat_str b @ ''.'' @ patch) = Some (a, b)"
  using assms by (simp add: major_minor_def splitn_3 parse_uint_nat_str)

text \<open>
  The version gate compares major and minor number and ignores the patch level.
\<close>

theorem version_compatible_dotted:
  assumes "a \<le> u64_max" and "b \<le> u64_max" and "a' \<le> u64_max" and "b' \<le> u64_max"
  shows "version_compatible (nat_str a @ ''.'' @ nat_str b @ ''.'' @ patch)
      (nat_str a' @ ''.'' @ nat_str b' @ ''.'' @ patch') \<longleftrightarrow> a = a' \<and> b = b'"
  unfolding version_compatible_def major_minor_dotted [OF assms(1,2)] major_minor_dotted [OF assms(3,4)]
  by simp

lemma version_compatible_self: "version_compatible CARGO_PKG_VERSION CARGO_PKG_VERSION"
  by (simp add: version_compatible_def major_minor_def CARGO_PKG_VERSION_def splitn_3 parse_uint_def
      digit_val_def u64_max_def)

section \<open>The two sides together\<close>

text \<open>The requests and answers of a handshake, as messages.\<close>

definition hello_request :: "string \<Rightarrow> string \<Rightarrow> client_hello" where
  "hello_request client target =
     \<lparr>ch_version = CARGO_PKG_VERSION, ch_client_name = client, ch_target = target\<rparr>"

definition ok_status :: server_status where
  "ok_status = \<lparr>ss_ok = True, ss_message = ''ok''\<rparr>"

lemma client_handshake_reads:
  assumes "json_round_trip (ser_client_hello J) (de_client_hello J) (hello_request client target)"
    and "wcap (outp s) = None"
    and "json_round_trip (ser_server_status J) (de_server_status J) ok_status"
    and "rbytes (inp s) = json_line (ser_server_status J) ok_status @ rest"
  shows "client_handshake J target client s =
    io_context ''reading ServerHello'' (io_recv (decode_json (de_server_hello J)))
      (s\<lparr>outp := (outp s)\<lparr>wbytes := wbytes (outp s) @ json_line (ser_client_hello J) (hello_request client target)\<rparr>,
         inp := (inp s)\<lparr>rbytes := rest\<rparr>\<rparr>)"
proof -
  let ?s = "s\<lparr>outp := (outp s)\<lparr>wbytes := wbytes (outp s) @ json_line (ser_client_hello J) (hello_request client target)\<rparr>\<rparr>"
  have 1: "io_xmit (encode_json (ser_client_hello J) \<lparr>ch_version = CARGO_PKG_VERSION,
      ch_client_name = client, ch_target = target\<rparr>) s = (Ok (), ?s)"
    using xmit_json_line [OF assms(1,2)] by (simp add: hello_request_def)
  have 2: "io_recv (decode_json (de_server_status J)) ?s =
      (Ok ok_status, ?s\<lparr>inp := (inp ?s)\<lparr>rbytes := rest\<rparr>\<rparr>)"
    by (rule recv_json_line [OF assms(3)]) (simp add: assms(4))
  show ?thesis
    using 1 2 by (simp add: client_handshake_def io_bind_def io_context_def io_match_def io_return_def)
      (simp add: ok_status_def)
qed

text \<open>Both sides of an accepted handshake, with all they write and leave unread.\<close>

lemma client_handshake_accepts:
  assumes "json_round_trip (ser_client_hello J) (de_client_hello J) (hello_request client target)"
    and "json_round_trip (ser_server_status J) (de_server_status J) ok_status"
    and "json_round_trip (ser_server_hello J) (de_server_hello J) hello"
    and "wcap (outp c) = None"
    and "rbytes (inp c) = json_line (ser_server_status J) ok_status @ json_line (ser_server_hello J) hello @ rest"
  shows "client_handshake J target client c = (Ok hello,
    online ((inp c)\<lparr>rbytes := rest\<rparr>)
      ((outp c)\<lparr>wbytes := wbytes (outp c) @ json_line (ser_client_hello J) (hello_request client target)\<rparr>)
      (notices c) c)"
proof -
  let ?c = "c\<lparr>outp := (outp c)\<lparr>wbytes := wbytes (outp c) @ json_line (ser_client_hello J)
    (hello_request client target)\<rparr>, inp := (inp c)\<lparr>rbytes := json_line (ser_server_hello J) hello @ rest\<rparr>\<rparr>"
  have "io_recv (decode_json (de_server_hello J)) ?c = (Ok hello, ?c\<lparr>inp := (inp ?c)\<lparr>rbytes := rest\<rparr>\<rparr>)"
    by (rule recv_json_line [OF assms(3)]) simp
  then show ?thesis
    by (simp add: client_handshake_reads [OF assms(1,4,2,5)] io_context_def io_match_def io_return_def online_def)
qed

lemma server_handshake_accepts:
  assumes "json_round_trip (ser_client_hello J) (de_client_hello J) (hello_request client target)"
    and "json_round_trip (ser_server_status J) (de_server_status J) ok_status"
    and "json_round_trip (ser_server_hello J) (de_server_hello J) hello"
    and "hello = \<lparr>sh_version = CARGO_PKG_VERSION,
           sh_head = last_of (sort_chronological C (filter_zrb C raw)), sh_resume_token = token\<rparr>"
    and "rbytes (inp s) = json_line (ser_client_hello J) (hello_request client target) @ rest"
    and "wcap (outp s) = None"
    and "client \<in> set permitted" and "map_of (sv_clients config) client = Some cfg"
    and "target \<in> set (cc_allow cfg)"
    and "get_resume_token S target s = (Ok token, s1)"
    and "list_snapshots S target s1 = (Ok raw, s2)"
  shows "server_handshake S C J config permitted s =
    (Ok (Some \<lparr>hs_target = target, hs_zfs_receive_opts = cc_zfs_receive_opts cfg\<rparr>),
     online ((inp s)\<lparr>rbytes := rest\<rparr>)
       ((outp s)\<lparr>wbytes := wbytes (outp s) @ json_line (ser_server_status J) ok_status @
          json_line (ser_server_hello J) hello\<rparr>) (notices s) s2)"
proof -
  let ?w1 = "json_line (ser_server_status J) ok_status"
  let ?i = "(inp s)\<lparr>rbytes := rest\<rparr>" and ?o1 = "(outp s)\<lparr>wbytes := wbytes (outp s) @ ?w1\<rparr>"
  have 1: "io_recv (decode_json (de_client_hello J)) s =
      (Ok (hello_request client target), online ?i (outp s) (notices s) s)"
    using recv_json_line [OF assms(1,5)] by (simp add: online_def)
  have 2: "send_status J True ''ok'' (online ?i (outp s) (notices s) s) = (Ok (), online ?i ?o1 (notices s) s)"
    using xmit_json_line [OF assms(2), of "online ?i (outp s) (notices s) s"] assms(6)
    by (simp add: send_status_def ok_status_def)
  have 3: "get_resume_token S target (online ?i ?o1 (notices s) s) = (Ok token, online ?i ?o1 (notices s) s1)"
    by (rule offlineD [OF offline_commands(8) assms(10)])
  have 4: "list_snapshots S target (online ?i ?o1 (notices s) s1) = (Ok raw, online ?i ?o1 (notices s) s2)"
    by (rule offlineD [OF offline_commands(3) assms(11)])
  have 5: "io_xmit (encode_json (ser_server_hello J) hello) (online ?i ?o1 (notices s) s2) =
      (Ok (), online ?i (?o1\<lparr>wbytes := wbytes ?o1 @ json_line (ser_server_hello J) hello\<rparr>) (notices s) s2)"
    using xmit_json_line [OF assms(3), of "online ?i ?o1 (notices s) s2"] assms(6) by simp
  show ?thesis
    using 1 2 3 4 5 assms(7-9)
    by (simp add: server_handshake_def io_bind_def io_context_def io_match_def io_return_def Let_def
        hello_request_def version_compatible_self assms(4) [symmetric])
qed

text \<open>
  C14. A successful handshake gives both sides the same view: for a permitted client and an
  allowed dataset the server proceeds with that dataset and the client's receive options, and
  the client, reading what the server wrote, obtains the newest zrb snapshot of the dataset and
  its resume token. (Every message involved survives \<open>serde_json\<close>.)
\<close>

theorem handshake_agreement:
  fixes s :: "'w st"
  assumes "json_round_trip (ser_client_hello J) (de_client_hello J) (hello_request client target)"
    and "json_round_trip (ser_server_status J) (de_server_status J) ok_status"
    and "json_round_trip (ser_server_hello J) (de_server_hello J) hello"
    and "hello = \<lparr>sh_version = CARGO_PKG_VERSION,
           sh_head = last_of (sort_chronological C (filter_zrb C raw)), sh_resume_token = token\<rparr>"
    and "rbytes (inp s) = json_line (ser_client_hello J) (hello_request client target) @ rest"
    and "outp s = \<lparr>wbytes = [], wcap = None\<rparr>"
    and "client \<in> set permitted" and "map_of (sv_clients config) client = Some cfg"
    and "target \<in> set (cc_allow cfg)"
    and "get_resume_token S target s = (Ok token, s1)"
    and "list_snapshots S target s1 = (Ok raw, s2)"
    and "wcap (outp c) = None"
  shows "\<exists>s'. server_handshake S C J config permitted s =
      (Ok (Some \<lparr>hs_target = target, hs_zfs_receive_opts = cc_zfs_receive_opts cfg\<rparr>), s') \<and>
    rbytes (inp s') = rest \<and>
    (rbytes (inp c) = wbytes (outp s') \<longrightarrow> (\<exists>c'. client_handshake J target client c = (Ok hello, c')))"
proof -
  have "wcap (outp s) = None" by (simp add: assms(6))
  note server = server_handshake_accepts [OF assms(1-5) this assms(7-11)]
  show ?thesis
    using server client_handshake_accepts [OF assms(1-3,12), of "[]"] assms(6) by simp
qed

section \<open>Rejections\<close>

text \<open>
  A client of another version learns why it is rejected: the server answers with one
  \<open>ServerStatus\<close> and ends the session without an error, and the client fails with its message.
\<close>

theorem version_mismatch_reported:
  assumes "json_round_trip (ser_client_hello J) (de_client_hello J) request"
    and "\<not> version_compatible (ch_version request) CARGO_PKG_VERSION"
    and "msg = ''version mismatch: client '' @ ch_version request @ '', server '' @ CARGO_PKG_VERSION"
    and "json_round_trip (ser_server_status J) (de_server_status J) \<lparr>ss_ok = False, ss_message = msg\<rparr>"
    and "rbytes (inp s) = json_line (ser_client_hello J) request @ rest"
    and "outp s = \<lparr>wbytes = [], wcap = None\<rparr>"
    and "json_round_trip (ser_client_hello J) (de_client_hello J) (hello_request client target)"
    and "wcap (outp c) = None"
  shows "\<exists>s'. server_handshake S C J config permitted s = (Ok None, s') \<and> cmds s' = cmds s \<and>
    (rbytes (inp c) = wbytes (outp s') \<longrightarrow>
      (\<exists>c'. client_handshake J target client c = (Err (Message (''server rejected connection: '' @ msg)), c')))"
proof -
  let ?st = "\<lparr>ss_ok = False, ss_message = msg\<rparr>"
  let ?w = "json_line (ser_server_status J) ?st"
  note run = io_bind_def io_context_def io_match_def io_return_def
  have "server_handshake S C J config permitted s =
      (Ok None, s\<lparr>inp := (inp s)\<lparr>rbytes := rest\<rparr>, outp := \<lparr>wbytes = ?w, wcap = None\<rparr>\<rparr>)"
    using recv_json_line [OF assms(1,5)]
      xmit_json_line [OF assms(4), of "s\<lparr>inp := (inp s)\<lparr>rbytes := rest\<rparr>\<rparr>"] assms(2,6)
    by (simp add: server_handshake_def run send_status_def assms(3))
  moreover have "\<exists>c'. client_handshake J target client c = (Err (Message (''server rejected connection: '' @ msg)), c')"
    if "rbytes (inp c) = ?w"
  proof -
    let ?c = "c\<lparr>outp := (outp c)\<lparr>wbytes := wbytes (outp c) @ json_line (ser_client_hello J) (hello_request client target)\<rparr>\<rparr>"
    have 1: "io_xmit (encode_json (ser_client_hello J) \<lparr>ch_version = CARGO_PKG_VERSION,
        ch_client_name = client, ch_target = target\<rparr>) c = (Ok (), ?c)"
      using xmit_json_line [OF assms(7,8)] by (simp add: hello_request_def)
    have 2: "io_recv (decode_json (de_server_status J)) ?c = (Ok ?st, ?c\<lparr>inp := (inp ?c)\<lparr>rbytes := []\<rparr>\<rparr>)"
      by (rule recv_json_line [OF assms(4)]) (simp add: that)
    show ?thesis
      using 1 2 by (simp add: client_handshake_def run io_fail_def)
  qed
  ultimately show ?thesis by simp
qed

text \<open>
  An unknown client does not learn why it is rejected. The server, having already accepted
  the version, sends a second \<open>ServerStatus\<close> with the reason; the client expects a \<open>ServerHello\<close>
  next, cannot read the status as one, and fails with a JSON error instead.
\<close>

theorem unknown_client_message_lost:
  assumes "json_round_trip (ser_client_hello J) (de_client_hello J) (hello_request client target)"
    and "json_round_trip (ser_server_status J) (de_server_status J) ok_status"
    and "json_round_trip (ser_server_status J) (de_server_status J)
           \<lparr>ss_ok = False, ss_message = ''unknown client: '' @ client\<rparr>"
    and "ser_server_status J \<lparr>ss_ok = False, ss_message = ''unknown client: '' @ client\<rparr> = Inr t"
    and "de_server_hello J t = Inl e"
    and "rbytes (inp s) = json_line (ser_client_hello J) (hello_request client target) @ rest"
    and "outp s = \<lparr>wbytes = [], wcap = None\<rparr>" and "client \<notin> set permitted"
    and "wcap (outp c) = None"
  shows "\<exists>s'. server_handshake S C J config permitted s = (Ok None, s') \<and>
    (rbytes (inp c) = wbytes (outp s') \<longrightarrow>
      (\<exists>c'. client_handshake J target client c = (Err (WithContext ''reading ServerHello'' (Json e)), c')))"
proof -
  let ?rej = "\<lparr>ss_ok = False, ss_message = ''unknown client: '' @ client\<rparr>"
  let ?i = "(inp s)\<lparr>rbytes := rest\<rparr>"
  let ?w1 = "json_line (ser_server_status J) ok_status" and ?w2 = "json_line (ser_server_status J) ?rej"
  note run = io_bind_def io_context_def io_match_def io_return_def io_fail_def
  have 1: "send_status J True ''ok'' (s\<lparr>inp := ?i\<rparr>) = (Ok (), s\<lparr>inp := ?i, outp := \<lparr>wbytes = ?w1, wcap = None\<rparr>\<rparr>)"
    using xmit_json_line [OF assms(2), of "s\<lparr>inp := ?i\<rparr>"] assms(7)
    by (simp add: send_status_def ok_status_def)
  have 2: "send_status J False (''unknown client: '' @ client) (s\<lparr>inp := ?i, outp := \<lparr>wbytes = ?w1, wcap = None\<rparr>\<rparr>) =
      (Ok (), s\<lparr>inp := ?i, outp := \<lparr>wbytes = ?w1 @ ?w2, wcap = None\<rparr>\<rparr>)"
    using xmit_json_line [OF assms(3), of "s\<lparr>inp := ?i, outp := \<lparr>wbytes = ?w1, wcap = None\<rparr>\<rparr>"]
    by (simp add: send_status_def)
  have "server_handshake S C J config permitted s =
      (Ok None, s\<lparr>inp := ?i, outp := \<lparr>wbytes = ?w1 @ ?w2, wcap = None\<rparr>\<rparr>)"
    using recv_json_line [OF assms(1,6)] 1 2 assms(8)
    by (simp add: server_handshake_def run hello_request_def version_compatible_self)
  moreover have "\<exists>c'. client_handshake J target client c = (Err (WithContext ''reading ServerHello'' (Json e)), c')"
    if "rbytes (inp c) = ?w1 @ ?w2"
  proof -
    have t: "newline \<notin> set t" "utf8_valid t"
      using assms(3,4) by (simp_all add: json_round_trip_def)
    have w2: "?w2 = bytes_of_str t @ newline_byte # []"
      using assms(4) by (simp add: json_line_def)
    let ?c = "c\<lparr>outp := (outp c)\<lparr>wbytes := wbytes (outp c) @ json_line (ser_client_hello J)
      (hello_request client target)\<rparr>, inp := (inp c)\<lparr>rbytes := ?w2\<rparr>\<rparr>"
    have "rbytes (inp ?c) = bytes_of_str t @ newline_byte # []" using w2 by simp
    from read_line_message [OF t this]
    have "io_recv (decode_json (de_server_hello J)) ?c = (Err (Json e), ?c\<lparr>inp := (inp ?c)\<lparr>rbytes := []\<rparr>\<rparr>)"
      using t(1) assms(5) by (simp add: io_recv_def decode_json_def)
    then show ?thesis
      by (simp add: client_handshake_reads [OF assms(1,9,2) that] run)
  qed
  ultimately show ?thesis by simp
qed

section \<open>Witnesses\<close>

lemma version_compatible_dotted_witness:
  "version_compatible (nat_str 0 @ ''.'' @ nat_str 3 @ ''.'' @ ''0'') (nat_str 0 @ ''.'' @ nat_str 3 @ ''.'' @ ''9-rc1'')"
  using version_compatible_dotted [of 0 3 0 3 "''0''" "''9-rc1''"] by (simp add: u64_max_def)

definition hs_client :: string where "hs_client = ''laptop''"
definition hs_dataset :: string where "hs_dataset = ''t''"

definition hs_config :: server_config where
  "hs_config = \<lparr>sv_resume_hold_days = 7,
     sv_clients = [(''laptop'', \<lparr>cc_allow = [''t''], cc_zfs_receive_opts = [''-F'']\<rparr>)],
     sv_retention = \<lparr>recent = 7, weekly_for_days = 30, monthly_for_days = 365\<rparr>\<rparr>"

lemma example_json_sel [simp]:
  "ser_server_hello example_json m = Inr (json_hello (sh_version m) (sh_head m) (sh_resume_token m))"
  "ser_client_hello example_json ch = Inr (json_client ch)"
  "ser_server_status example_json st = Inr (json_status (ss_ok st) (ss_message st))"
  "de_server_hello example_json = read_hello" "de_client_hello example_json = read_client"
  "de_server_status example_json =
     (\<lambda>s. map_sum id (\<lambda>(ok, msg). \<lparr>ss_ok = ok, ss_message = msg\<rparr>) (read_status s))"
  by (simp_all add: example_json_def)

lemma example_json_hello_request:
  "json_round_trip (ser_client_hello example_json) (de_client_hello example_json) (hello_request ''laptop'' ''t'')"
  by (simp add: json_round_trip_def json_eval utf8_valid_def hello_request_def CARGO_PKG_VERSION_def)

lemma example_json_ok_status:
  "json_round_trip (ser_server_status example_json) (de_server_status example_json) ok_status"
  by (simp add: json_round_trip_def json_eval utf8_valid_def ok_status_def)

definition hs_state :: "u8 list \<Rightarrow> unit st" where
  "hs_state bs = st0\<lparr>inp := \<lparr>rbytes = bs, rerr = None, rsizes = []\<rparr>\<rparr>"

lemma unknown_client_message_lost_witness:
  "\<exists>s'. server_handshake listing_os gregorian example_json hs_config []
      (hs_state (json_line (ser_client_hello example_json) (hello_request ''laptop'' ''t''))) = (Ok None, s')"
proof -
  have rej: "json_round_trip (ser_server_status example_json) (de_server_status example_json)
      \<lparr>ss_ok = False, ss_message = ''unknown client: '' @ ''laptop''\<rparr>"
    by (simp add: json_round_trip_def json_eval utf8_valid_def)
  have lost: "de_server_hello example_json (json_status False (''unknown client: '' @ ''laptop'')) =
      Inl ''missing field `version`''"
    by (simp add: json_eval)
  show ?thesis
    using unknown_client_message_lost [OF example_json_hello_request example_json_ok_status rej _ lost,
        where s="hs_state (json_line (ser_client_hello example_json) (hello_request ''laptop'' ''t''))"
          and rest="[]" and permitted="[]" and c=st0 and S=listing_os and C=gregorian and config=hs_config]
    by (fastforce simp: hs_state_def st0_def)
qed

definition old_request :: client_hello where
  "old_request = \<lparr>ch_version = ''0.2.9'', ch_client_name = ''laptop'', ch_target = ''t''\<rparr>"

lemma version_mismatch_reported_witness:
  "\<exists>s'. server_handshake listing_os gregorian example_json hs_config []
      (hs_state (json_line (ser_client_hello example_json) old_request)) = (Ok None, s') \<and> cmds s' = []"
proof -
  have req: "json_round_trip (ser_client_hello example_json) (de_client_hello example_json) old_request"
    by (simp add: json_round_trip_def json_eval utf8_valid_def old_request_def)
  have bad: "\<not> version_compatible (ch_version old_request) CARGO_PKG_VERSION"
    by (simp add: version_compatible_def major_minor_def CARGO_PKG_VERSION_def splitn_3 parse_uint_def
        digit_val_def u64_max_def old_request_def)
  have rej: "json_round_trip (ser_server_status example_json) (de_server_status example_json)
      \<lparr>ss_ok = False, ss_message =
        ''version mismatch: client '' @ ch_version old_request @ '', server '' @ CARGO_PKG_VERSION\<rparr>"
    by (simp add: json_round_trip_def json_eval utf8_valid_def old_request_def CARGO_PKG_VERSION_def)
  show ?thesis
    using version_mismatch_reported [OF req bad refl rej _ _ example_json_hello_request,
        where s="hs_state (json_line (ser_client_hello example_json) old_request)" and rest="[]"
          and permitted="[]" and c=st0 and S=listing_os and C=gregorian and config=hs_config]
    by (fastforce simp: hs_state_def st0_def)
qed

definition hs_hello :: server_hello where
  "hs_hello = \<lparr>sh_version = CARGO_PKG_VERSION, sh_head = Some ''t@zrb-2026-05-06T00:00:00Z'',
     sh_resume_token = None\<rparr>"

definition hs_raw :: "string list" where
  "hs_raw = [''t@zrb-2026-05-06T00:00:00Z'', ''t@manual'', ''t@zrb-2026-05-05T00:00:00Z'']"

lemma handshake_agreement_witness:
  "\<exists>s'. server_handshake listing_os gregorian example_json hs_config [''laptop'']
      (hs_state (json_line (ser_client_hello example_json) (hello_request ''laptop'' ''t''))) =
    (Ok (Some \<lparr>hs_target = ''t'', hs_zfs_receive_opts = [''-F'']\<rparr>), s')"
proof -
  have hello: "json_round_trip (ser_server_hello example_json) (de_server_hello example_json) hs_hello"
    by (simp add: json_round_trip_def json_eval utf8_valid_def hs_hello_def CARGO_PKG_VERSION_def)
  have eq: "hs_hello = \<lparr>sh_version = CARGO_PKG_VERSION,
      sh_head = last_of (sort_chronological gregorian (filter_zrb gregorian hs_raw)), sh_resume_token = None\<rparr>"
    by (simp add: hs_hello_def hs_raw_def last_of_def filter_zrb_def is_zrb_def parse_example
        sort_chronological_def less_eq_datetime_def)
  let ?s = "hs_state (json_line (ser_client_hello example_json) (hello_request ''laptop'' ''t''))"
  have tok: "get_resume_token listing_os ''t'' ?s =
      (Ok None, ?s\<lparr>cmds := [[''get'', ''--json'', ''receive_resume_token'', ''t'']]\<rparr>)"
    by (simp add: get_resume_token_def run_def listing_os_def io_match_def io_bind_def io_result_def
        io_return_def decode_property_json_def parse_json_def two_snapshots_def map_token_value_def
        hs_state_def st0_def)
  have lst: "list_snapshots listing_os ''t'' (?s\<lparr>cmds := [[''get'', ''--json'', ''receive_resume_token'', ''t'']]\<rparr>) =
      (Ok hs_raw, ?s\<lparr>cmds := [[''get'', ''--json'', ''receive_resume_token'', ''t''],
        [''list'', ''-t'', ''snapshot'', ''--json'', ''t'']]\<rparr>)"
    by (simp add: list_snapshots_def run_def listing_os_def io_match_def io_result_def io_return_def
        decode_list_json_def parse_json_def two_snapshots_def hs_raw_def hs_state_def st0_def)
  show ?thesis
    using handshake_agreement [OF example_json_hello_request example_json_ok_status hello eq _ _ _ _ _ tok lst,
        where rest="[]" and permitted="[''laptop'']" and c=st0 and config=hs_config
          and cfg="\<lparr>cc_allow = [''t''], cc_zfs_receive_opts = [''-F'']\<rparr>"]
    by (fastforce simp: hs_state_def st0_def hs_config_def)
qed

end
