(* ===== verification/Holds.thy ===== *)
theory Holds
  imports Listing
begin

text \<open>
  Transfer Holds: the part that the server (\<open>place_server_transfer_hold\<close> in
  \<open>src/ops/server.rs\<close>) and the client (\<open>place_transfer_hold\<close> in \<open>src/ops/send.rs\<close>) have in
  common, as an interface: an operation that moves the hold with one tag to a new snapshot. The
  facts about the order of its commands are proved once, for every such operation.
\<close>

section \<open>Placing the new hold and releasing the old ones\<close>

text \<open>Both functions end with these loops; failures are only logged.\<close>

definition release_all :: "'w os \<Rightarrow> string \<Rightarrow> string list \<Rightarrow> ('w, unit) io" where
  "release_all S tag olds =
     io_for olds (\<lambda>old. io_match (release_hold S old tag) (\<lambda>_. io_return ()) (\<lambda>e. io_return ()))"

definition hold_then_release :: "'w os \<Rightarrow> string \<Rightarrow> string \<Rightarrow> string list \<Rightarrow> ('w, unit) io" where
  "hold_then_release S tag new olds =
     io_match (hold_snapshot S new tag) (\<lambda>_. release_all S tag olds) (\<lambda>e. io_return ())"

lemma run_unit_cmds: "cmds (snd (run_unit S argv s)) = cmds s @ [argv]"
  by (simp add: run_unit_def io_bind_def run_def Let_def io_return_def split: prod.split proc_out.split)

lemma hold_snapshot_cmds: "hold_snapshot S new tag s = (r, s') \<Longrightarrow> cmds s' = cmds s @ [[''hold'', tag, new]]"
  using run_unit_cmds [of S "[''hold'', tag, new]" s] by (simp add: hold_snapshot_def)

lemma hold_snapshot_no_panic: "hold_snapshot S new tag s \<noteq> (Panic p, s')"
  using panics_commands(11) [of "\<lambda>_. False" S new tag] by (auto simp: panics_in_def)

lemma release_hold_cmds: "cmds (snd (release_hold S old tag s)) = cmds s @ [[''release'', tag, old]]"
  by (auto simp: release_hold_def io_match_def run_def Let_def io_return_def io_fail_def
      split: prod.split proc_out.split res.split err.split)

lemma release_hold_no_panic: "release_hold S old tag s \<noteq> (Panic p, s')"
  using panics_release [of "\<lambda>_. False" S old tag] by (auto simp: panics_in_def)

lemma release_all_run:
  "\<exists>s'. release_all S tag olds s = (Ok (), s') \<and>
     cmds s' = cmds s @ map (\<lambda>old. [''release'', tag, old]) olds"
proof (induction olds arbitrary: s)
  case Nil
  then show ?case by (simp add: release_all_def io_return_def)
next
  case (Cons old olds)
  obtain r s1 where r: "release_hold S old tag s = (r, s1)" by fastforce
  have c: "cmds s1 = cmds s @ [[''release'', tag, old]]"
    using release_hold_cmds [of S old tag s] r by simp
  have "release_all S tag (old # olds) s = release_all S tag olds s1"
    using r release_hold_no_panic [of S old tag s]
    by (cases r) (simp_all add: release_all_def io_bind_def io_match_def io_return_def)
  with Cons.IH [of s1] c show ?case by auto
qed

lemma release_all_emits [emits_intro]:
  "(\<And>old. old \<in> set olds \<Longrightarrow> P [''release'', tag, old]) \<Longrightarrow> emits P (release_all S tag olds)"
  by (auto simp: release_all_def intro!: emits_intro)

lemma hold_then_release_emits [emits_intro]:
  "P [''hold'', tag, new] \<Longrightarrow> (\<And>old. old \<in> set olds \<Longrightarrow> P [''release'', tag, old]) \<Longrightarrow>
   emits P (hold_then_release S tag new olds)"
  by (auto simp: hold_then_release_def intro!: emits_intro)

lemma hold_then_release_holds:
  "\<exists>rest. cmds (snd (hold_then_release S tag new olds s)) = cmds s @ [''hold'', tag, new] # rest"
proof -
  obtain r s1 where r: "hold_snapshot S new tag s = (r, s1)" by fastforce
  obtain s2 where "release_all S tag olds s1 = (Ok (), s2)"
      "cmds s2 = cmds s1 @ map (\<lambda>old. [''release'', tag, old]) olds"
    using release_all_run by blast
  with r hold_snapshot_cmds [OF r] show ?thesis
    by (cases r) (simp_all add: hold_then_release_def io_match_def io_return_def)
qed

lemma list_zrb_no_panic: "list_zrb S C dataset s \<noteq> (Panic p, s')"
proof -
  have "panics_in (\<lambda>_. False) (list_zrb S C dataset)"
    unfolding list_zrb_def by (intro panics_intro)
  then show ?thesis by (auto simp: panics_in_def)
qed

lemma find_held_in_no_panic: "find_held_snapshots_in S snaps tag s \<noteq> (Panic p, s')"
  using panics_commands(13) [of "\<lambda>_. False" S snaps tag] by (auto simp: panics_in_def)

lemma read_only_list [simp]: "emits read_only (list_zrb S C dataset)"
  "emits read_only (find_held_snapshots_in S snaps tag)" "emits read_only (find_held_snapshots S dataset tag)"
  by (auto intro!: emits_intro)

section \<open>The interface\<close>

text \<open>
  \<open>mover\<close> first only reports (which snapshots exist, which are held), and may give up; otherwise
  it places the hold on some snapshot \<open>new\<close> and, when that succeeded, releases the old ones,
  among which \<open>new\<close> is not.
\<close>

locale hold_mover =
  fixes S :: "'w os"
    and mover :: "('w, unit) io"
    and tag :: string
  assumes phases: "\<exists>s1 pre. cmds s1 = cmds s @ pre \<and> list_all read_only pre \<and>
    (mover s = (Ok (), s1) \<or>
     (\<exists>new olds. new \<notin> set olds \<and> mover s = hold_then_release S tag new olds s1))"
begin

lemma never_fails: "fst (mover s) = Ok ()"
proof -
  obtain s1 where cases: "mover s = (Ok (), s1) \<or> (\<exists>new olds. mover s = hold_then_release S tag new olds s1)"
    using phases [of s] by blast
  have "fst (hold_then_release S tag new olds s1) = Ok ()" for new olds
  proof -
    obtain r s2 where r: "hold_snapshot S new tag s1 = (r, s2)" by fastforce
    show ?thesis
      using r hold_snapshot_no_panic [of S new tag s1] release_all_run [of S tag olds s2]
      by (cases r) (auto simp: hold_then_release_def io_match_def io_return_def)
  qed
  with cases show ?thesis by auto
qed

lemma order:
  obtains (gave_up) pre where "cmds (snd (mover s)) = cmds s @ pre" "list_all read_only pre"
  | (not_held) pre new where "cmds (snd (mover s)) = cmds s @ pre @ [[''hold'', tag, new]]"
      "list_all read_only pre"
  | (moved) pre new olds s1 s2 where
      "cmds (snd (mover s)) = cmds s @ pre @ [''hold'', tag, new] # map (\<lambda>old. [''release'', tag, old]) olds"
      "list_all read_only pre" "new \<notin> set olds" "hold_snapshot S new tag s1 = (Ok (), s2)"
proof -
  obtain s1 pre where pre: "cmds s1 = cmds s @ pre" "list_all read_only pre"
    and c: "mover s = (Ok (), s1) \<or> (\<exists>new olds. new \<notin> set olds \<and> mover s = hold_then_release S tag new olds s1)"
    using phases [of s] by blast
  show thesis
  proof (cases "mover s = (Ok (), s1)")
    case True
    with pre show thesis by (intro gave_up) simp_all
  next
    case False
    with c obtain new olds where new: "new \<notin> set olds" and m: "mover s = hold_then_release S tag new olds s1"
      by blast
    obtain r s2 where r: "hold_snapshot S new tag s1 = (r, s2)" by fastforce
    note cs = hold_snapshot_cmds [OF r]
    show thesis
    proof (cases r)
      case (Ok u)
      obtain s3 where "release_all S tag olds s2 = (Ok (), s3)"
        "cmds s3 = cmds s2 @ map (\<lambda>old. [''release'', tag, old]) olds"
        using release_all_run by blast
      with moved [of pre new olds s1 s2] show thesis
        using pre new m r cs Ok by (simp add: hold_then_release_def io_match_def)
    next
      case (Err e)
      with not_held [of pre new] show thesis
        using pre m r cs by (simp add: hold_then_release_def io_match_def io_return_def)
    next
      case (Panic p)
      with r hold_snapshot_no_panic [of S new tag s1 p s2] show thesis by simp
    qed
  qed
qed

end

section \<open>The holds of a pool\<close>

text \<open>What a hold or release that succeeds does to the set of holds.\<close>

definition hold_effect :: "string list \<Rightarrow> (string \<times> string) set \<Rightarrow> (string \<times> string) set" where
  "hold_effect argv H =
     (case argv of
        [c, tag, snap] \<Rightarrow>
          if c = ''hold'' then insert (snap, tag) H
          else if c = ''release'' then H - {(snap, tag)} else H
      | _ \<Rightarrow> H)"

lemma releases_keep:
  assumes "set took \<subseteq> set (map (\<lambda>old. [''release'', tag, old]) olds)" "new \<notin> set olds"
    and "(new, tag) \<in> H"
  shows "(new, tag) \<in> fold hold_effect took H"
  using assms(1,3)
proof (induction took arbitrary: H)
  case (Cons c took)
  obtain old where "c = [''release'', tag, old]" "old \<in> set olds" using Cons.prems(1) by auto
  with Cons.prems assms(2) have "(new, tag) \<in> hold_effect c H" by (auto simp: hold_effect_def)
  with Cons show ?case by simp
qed simp

context hold_mover
begin

text \<open>
  At no moment of a completed move is the tag without a snapshot: once the new hold is placed,
  whichever of the following releases take effect, it stays.
\<close>

lemma no_gap:
  assumes "[''release'', tag, old] \<in> set (drop (length (cmds s)) (cmds (snd (mover s))))"
  shows "\<exists>pre new rest s1 s2. cmds (snd (mover s)) = cmds s @ pre @ [''hold'', tag, new] # rest \<and>
    list_all read_only pre \<and> hold_snapshot S new tag s1 = (Ok (), s2) \<and> old \<noteq> new \<and>
    (\<forall>took H. set took \<subseteq> set rest \<longrightarrow> (new, tag) \<in> fold hold_effect took (insert (new, tag) H))"
proof (cases rule: order [of s])
  case (gave_up pre)
  with assms show ?thesis by (auto simp: list_all_iff)
next
  case (not_held pre new)
  with assms show ?thesis by (auto simp: list_all_iff)
next
  case (moved pre new olds s1 s2)
  have "[''release'', tag, old] \<notin> set pre" using moved(2) by (auto simp: list_all_iff)
  with assms moved(1,3) have "old \<noteq> new" by auto
  with moved releases_keep [where tag=tag and new=new and olds=olds] show ?thesis
    by (intro exI [of _ pre] exI [of _ new] exI [of _ "map (\<lambda>old. [''release'', tag, old]) olds"]
        exI [of _ s1] exI [of _ s2]) simp
qed

end

section \<open>A pool with a hold\<close>

text \<open>For witnesses: of two snapshots the older one is held.\<close>

definition held_answer :: "string \<Rightarrow> string list \<Rightarrow> proc_out" where
  "held_answer tag argv =
     Exited True
       (if hd argv = ''holds''
        then hold_lines [(''t@zrb-2026-05-05T00:00:00Z'', tag, ''now'')] else [])
       []"

definition held_os :: "string \<Rightarrow> unit os" where
  "held_os tag = static_os (held_answer tag) (\<lambda>_. Inr two_snapshots) (DateTime 0)"

end
