(* ===== verification/Server.thy ===== *)
theory Server
  imports Handshake Holds
begin

text \<open>
  The receiving side (\<open>src/ops/server.rs\<close>): handshake, \<open>zfs receive\<close> fed from the stream, the
  server's Transfer Hold, and the annotation of an interrupted receive. The signal handlers
  only set the flag that \<open>cancel\<close> stands for: its value after each chunk.
\<close>

section \<open>The code\<close>

definition RECEIVED_TAG :: string where
  "RECEIVED_TAG = ''zrb:received''"

definition place_server_transfer_hold :: "'w os \<Rightarrow> chrono \<Rightarrow> string \<Rightarrow> ('w, unit) io" where
  "place_server_transfer_hold S C dataset =
     io_match (list_zrb S C dataset)
       (\<lambda>snaps. case last_of snaps of
                  None \<Rightarrow> io_return ()
                | Some newest \<Rightarrow>
                    io_bind (io_match (find_held_snapshots_in S snaps RECEIVED_TAG)
                               (\<lambda>v. io_return v) (\<lambda>e. io_return []))
                      (\<lambda>v. hold_then_release S RECEIVED_TAG newest (filter (\<lambda>s. s \<noteq> newest) v)))
       (\<lambda>e. io_return ())"

definition annotate_resume_if_needed :: "'w os \<Rightarrow> chrono \<Rightarrow> string \<Rightarrow> ('w, unit) io" where
  "annotate_resume_if_needed S C dataset =
     io_bind (io_context ''checking resume token for annotation'' (get_resume_token S dataset)) (\<lambda>token.
     if token = None then io_return ()
     else
     io_bind (io_context ''checking resume-since for annotation'' (get_resume_since S C dataset)) (\<lambda>since.
     if since \<noteq> None then io_return ()
     else
     io_bind (io_now S) (\<lambda>now.
       io_context ''setting resume-since'' (set_resume_since S C dataset now))))"

text \<open>
  Reading the stream into the receiving process: what was delivered to its standard input is
  part of the result, and an error of the stream is a value here, as in the code's \<open>match\<close>.
\<close>

definition receive_stream ::
    "(nat \<Rightarrow> bool) \<Rightarrow> zfs_receive \<Rightarrow> ('w, (err + bool) \<times> zfs_receive) io" where
  "receive_stream cancel recv s =
     (case read_stream_with_cancel cancel 0 (inp s) (zr_stdin recv) of
        (Ok b, i, w) \<Rightarrow> (Ok (Inr b, recv\<lparr>zr_stdin := w\<rparr>), s\<lparr>inp := i\<rparr>)
      | (Err e, i, w) \<Rightarrow> (Ok (Inl e, recv\<lparr>zr_stdin := w\<rparr>), s\<lparr>inp := i\<rparr>)
      | (Panic p, i, w) \<Rightarrow> (Panic p, s\<lparr>inp := i\<rparr>))"

definition server_transfer ::
    "'w os \<Rightarrow> chrono \<Rightarrow> json_api \<Rightarrow> (nat \<Rightarrow> bool) \<Rightarrow> server_handshake_result \<Rightarrow> ('w, unit) io" where
  "server_transfer S C J cancel hs =
     io_bind (io_context ''spawning zfs receive'' (receive S (hs_target hs) (hs_zfs_receive_opts hs)))
       (\<lambda>recv.
     io_bind (receive_stream cancel recv) (\<lambda>(stream_result, recv).
     case stream_result of
       Inr cancelled \<Rightarrow>
         if cancelled
         then io_bind (io_match (finish S recv) (\<lambda>_. io_return ()) (\<lambda>e. io_return ()))
                (\<lambda>_. annotate_resume_if_needed S C (hs_target hs))
         else io_match (finish S recv)
                (\<lambda>_. io_bind (place_server_transfer_hold S C (hs_target hs))
                       (\<lambda>_. send_status J True ''ok''))
                (\<lambda>e. io_bind (annotate_resume_if_needed S C (hs_target hs))
                       (\<lambda>_. send_status J False (display_err e)))
     | Inl e \<Rightarrow>
         io_bind (io_match (finish S recv) (\<lambda>_. io_return None) (\<lambda>e. io_return (Some e)))
           (\<lambda>recv_err. io_bind (annotate_resume_if_needed S C (hs_target hs))
              (\<lambda>_. send_status J False
                     (case recv_err of None \<Rightarrow> ''stream error'' | Some e \<Rightarrow> display_err e)))))"

definition run_server_on ::
    "'w os \<Rightarrow> chrono \<Rightarrow> json_api \<Rightarrow> server_config \<Rightarrow> string list \<Rightarrow> (nat \<Rightarrow> bool) \<Rightarrow> ('w, unit) io" where
  "run_server_on S C J config permitted_clients cancel =
     io_bind (server_handshake S C J config permitted_clients) (\<lambda>hs.
     case hs of
       None \<Rightarrow> io_return ()
     | Some hs \<Rightarrow>
         io_bind (io_context ''reading ClientReady'' (io_recv (decode_json (de_client_ready J)))) (\<lambda>ready.
         if \<not> cr_ok ready then io_return () else server_transfer S C J cancel hs))"

section \<open>The server's hold is a hold mover\<close>

interpretation server_hold: hold_mover S "place_server_transfer_hold S C dataset" RECEIVED_TAG for S C dataset
proof
  fix s
  obtain r s1 where r: "list_zrb S C dataset s = (r, s1)" by fastforce
  obtain pre1 where pre1: "cmds s1 = cmds s @ pre1" "list_all read_only pre1"
    using emitsD [OF read_only_list(1) r] by blast
  show "\<exists>s1 pre. cmds s1 = cmds s @ pre \<and> list_all read_only pre \<and>
    (place_server_transfer_hold S C dataset s = (Ok (), s1) \<or>
     (\<exists>new olds. new \<notin> set olds \<and>
        place_server_transfer_hold S C dataset s = hold_then_release S RECEIVED_TAG new olds s1))"
  proof (cases "\<exists>snaps newest. r = Ok snaps \<and> last_of snaps = Some newest")
    case False
    then have "place_server_transfer_hold S C dataset s = (Ok (), s1)"
      using r list_zrb_no_panic [of S C dataset s]
      by (cases r) (auto simp: place_server_transfer_hold_def io_match_def io_return_def split: option.split)
    with pre1 show ?thesis by blast
  next
    case True
    then obtain snaps newest where ok: "r = Ok snaps" "last_of snaps = Some newest" by blast
    obtain q s2 where q: "find_held_snapshots_in S snaps RECEIVED_TAG s1 = (q, s2)" by fastforce
    obtain pre2 where pre2: "cmds s2 = cmds s1 @ pre2" "list_all read_only pre2"
      using emitsD [OF read_only_list(2) q] by blast
    define olds where "olds = filter (\<lambda>s. s \<noteq> newest) (case q of Ok v \<Rightarrow> v | _ \<Rightarrow> [])"
    have "place_server_transfer_hold S C dataset s = hold_then_release S RECEIVED_TAG newest olds s2"
      using r ok q find_held_in_no_panic [of S snaps RECEIVED_TAG s1]
      by (cases q) (simp_all add: place_server_transfer_hold_def io_match_def io_bind_def io_return_def olds_def)
    moreover have "newest \<notin> set olds" by (simp add: olds_def)
    ultimately show ?thesis using pre1 pre2 by (intro exI [of _ s2] exI [of _ "pre1 @ pre2"]) auto
  qed
qed

section \<open>Properties\<close>

text \<open>
  After a completed receive the server moves its hold without a gap: when it releases an old
  snapshot, the hold on the newest one is already in place, it is a different snapshot, and it
  stays whichever of the releases take effect; and the operation never fails.
\<close>

theorem server_hold_no_gap:
  assumes "[''release'', RECEIVED_TAG, old] \<in>
    set (drop (length (cmds s)) (cmds (snd (place_server_transfer_hold S C dataset s))))"
  shows "fst (place_server_transfer_hold S C dataset s) = Ok () \<and>
    (\<exists>pre new rest s1 s2. cmds (snd (place_server_transfer_hold S C dataset s)) =
        cmds s @ pre @ [''hold'', RECEIVED_TAG, new] # rest \<and>
      list_all read_only pre \<and> hold_snapshot S new RECEIVED_TAG s1 = (Ok (), s2) \<and> old \<noteq> new \<and>
      (\<forall>took H. set took \<subseteq> set rest \<longrightarrow>
         (new, RECEIVED_TAG) \<in> fold hold_effect took (insert (new, RECEIVED_TAG) H)))"
  using server_hold.never_fails server_hold.no_gap [OF assms] by blast

text \<open>What serving a target dataset may start.\<close>

definition server_command :: "string \<Rightarrow> string list \<Rightarrow> string list \<Rightarrow> bool" where
  "server_command target opts argv \<longleftrightarrow>
     argv \<in> {[''get'', ''--json'', ''receive_resume_token'', target],
             [''get'', ''--json'', ''zrb:resume-since'', target],
             [''list'', ''-t'', ''snapshot'', ''--json'', target],
             [''receive'', ''-s'', target] @ opts} \<or>
     (\<exists>ts. argv = [''set'', ''zrb:resume-since='' @ ts, target]) \<or>
     (\<exists>snaps. argv = [''holds'', ''-H''] @ snaps) \<or>
     (\<exists>snap. argv = [''hold'', RECEIVED_TAG, snap] \<or> argv = [''release'', RECEIVED_TAG, snap])"

lemma server_command_simps [simp]:
  "server_command t opts [''get'', ''--json'', ''receive_resume_token'', t]"
  "server_command t opts [''get'', ''--json'', ''zrb:resume-since'', t]"
  "server_command t opts [''list'', ''-t'', ''snapshot'', ''--json'', t]"
  "server_command t opts (''receive'' # ''-s'' # t # opts)"
  "server_command t opts [''set'', ''zrb:resume-since='' @ ts, t]"
  "server_command t opts (''holds'' # ''-H'' # snaps)"
  "server_command t opts [''hold'', RECEIVED_TAG, snap]"
  "server_command t opts [''release'', RECEIVED_TAG, snap]"
  by (simp_all add: server_command_def)

lemma server_command_set [simp]:
  "server_command t opts [CHR ''s'' # CHR ''e'' # ''t'', CHR ''z'' # CHR ''r'' # CHR ''b'' # CHR '':'' #
     CHR ''r'' # CHR ''e'' # CHR ''s'' # CHR ''u'' # CHR ''m'' # CHR ''e'' # CHR ''-'' # CHR ''s'' #
     CHR ''i'' # CHR ''n'' # CHR ''c'' # CHR ''e'' # CHR ''='' # ts, t]"
  using server_command_simps(5) [of t opts ts] by simp

lemma emits_receive_stream [emits_intro]: "emits P (receive_stream cancel recv)"
  by (rule emits_same_cmds) (simp add: receive_stream_def split: prod.split res.split)

lemma emits_place_server_hold:
  "emits (server_command t opts) (place_server_transfer_hold S C t)"
  unfolding place_server_transfer_hold_def by (auto intro!: emits_intro)

lemma emits_annotate: "emits (server_command t opts) (annotate_resume_if_needed S C t)"
  unfolding annotate_resume_if_needed_def by (auto intro!: emits_intro)

lemma emits_send_status [emits_intro]: "emits P (send_status J ok msg)"
  unfolding send_status_def by (auto intro!: emits_intro)

lemma emits_server_transfer:
  "emits (server_command (hs_target hs) (hs_zfs_receive_opts hs)) (server_transfer S C J cancel hs)"
  unfolding server_transfer_def
  by (auto intro!: emits_intro emits_place_server_hold emits_annotate)

text \<open>What an accepted handshake says about its outcome.\<close>

definition allowed :: "server_config \<Rightarrow> string list \<Rightarrow> string \<Rightarrow> string list \<Rightarrow> bool" where
  "allowed config permitted target opts \<longleftrightarrow>
     (\<exists>client cfg. client \<in> set permitted \<and> map_of (sv_clients config) client = Some cfg \<and>
        target \<in> set (cc_allow cfg) \<and> opts = cc_zfs_receive_opts cfg)"

lemma server_handshake_Some:
  assumes "server_handshake S C J config permitted s = (Ok (Some hs), s')"
  shows "allowed config permitted (hs_target hs) (hs_zfs_receive_opts hs)"
proof -
  have "returns (\<lambda>r. \<forall>hs. r = Some hs \<longrightarrow> allowed config permitted (hs_target hs) (hs_zfs_receive_opts hs))
      (server_handshake S C J config permitted)"
    unfolding server_handshake_def Let_def
    by (intro returns_intro) (auto simp: allowed_def)
  with assms show ?thesis by (blast dest: returnsD)
qed

lemma emits_server_handshake:
  assumes "\<And>client cfg target. client \<in> set permitted \<Longrightarrow> map_of (sv_clients config) client = Some cfg \<Longrightarrow>
    target \<in> set (cc_allow cfg) \<Longrightarrow>
    P [''get'', ''--json'', ''receive_resume_token'', target] \<and>
    P [''list'', ''-t'', ''snapshot'', ''--json'', target]"
  shows "emits P (server_handshake S C J config permitted)"
  unfolding server_handshake_def Let_def send_status_def
  by (intro emits_intro) (use assms in auto)

lemma emits_run_server_on:
  "emits (\<lambda>c. \<exists>target opts. allowed config permitted_clients target opts \<and> server_command target opts c)
    (run_server_on S C J config permitted_clients cancel)"
proof -
  let ?P = "\<lambda>c. \<exists>target opts. allowed config permitted_clients target opts \<and> server_command target opts c"
  have hs: "emits ?P (server_handshake S C J config permitted_clients)"
  proof (rule emits_server_handshake)
    fix client cfg target
    assume "client \<in> set permitted_clients" "map_of (sv_clients config) client = Some cfg"
      "target \<in> set (cc_allow cfg)"
    then have "allowed config permitted_clients target (cc_zfs_receive_opts cfg)"
      by (auto simp: allowed_def)
    then show "?P [''get'', ''--json'', ''receive_resume_token'', target] \<and>
        ?P [''list'', ''-t'', ''snapshot'', ''--json'', target]"
      using server_command_simps(1,3) by blast
  qed
  show ?thesis
    unfolding run_server_on_def
  proof (rule emits_bind_result [OF hs])
    fix hs s s'
    assume run: "server_handshake S C J config permitted_clients s = (Ok hs, s')"
    have "emits ?P (server_transfer S C J cancel h)" if "hs = Some h" for h
      by (rule emits_mono [OF emits_server_transfer]) (use server_handshake_Some [OF run [unfolded that]] in blast)
    then show "emits ?P (case hs of None \<Rightarrow> io_return ()
       | Some hs \<Rightarrow>
           io_bind (io_context ''reading ClientReady'' (io_recv (decode_json (de_client_ready J)))) (\<lambda>ready.
           if \<not> cr_ok ready then io_return () else server_transfer S C J cancel hs))"
      by (intro emits_intro)
  qed
qed


section \<open>Witness\<close>

lemma server_hold_run:
  "place_server_transfer_hold (held_os RECEIVED_TAG) gregorian ''t'' st0 =
     (Ok (), st0\<lparr>cmds :=
       [[''list'', ''-t'', ''snapshot'', ''--json'', ''t''],
        [''holds'', ''-H'', ''t@zrb-2026-05-05T00:00:00Z'', ''t@zrb-2026-05-06T00:00:00Z''],
        [''hold'', RECEIVED_TAG, ''t@zrb-2026-05-06T00:00:00Z''],
        [''release'', RECEIVED_TAG, ''t@zrb-2026-05-05T00:00:00Z'']]\<rparr>)"
proof -
  have "list_zrb (held_os RECEIVED_TAG) gregorian ''t'' s =
      (Ok [''t@zrb-2026-05-05T00:00:00Z'', ''t@zrb-2026-05-06T00:00:00Z''],
       s\<lparr>cmds := cmds s @ [[''list'', ''-t'', ''snapshot'', ''--json'', ''t'']]\<rparr>)" for s
    by (simp add: list_zrb_def list_snapshots_def run_def held_os_def held_answer_def
      io_match_def io_bind_def io_result_def io_return_def decode_list_json_def parse_json_def
      two_snapshots_def filter_zrb_def is_zrb_def parse_example sort_chronological_def
      less_eq_datetime_def)
  moreover have "parse_held_snapshots_for_tag
      (hold_lines [(''t@zrb-2026-05-05T00:00:00Z'', RECEIVED_TAG, ''now'')]) RECEIVED_TAG =
      [''t@zrb-2026-05-05T00:00:00Z'']"
    by code_simp
  ultimately show ?thesis
    by (simp add: place_server_transfer_hold_def last_of_def io_match_def io_bind_def io_return_def
      find_held_snapshots_in_def hold_then_release_def release_all_def hold_snapshot_def run_unit_def
      release_hold_def run_def held_os_def held_answer_def st0_def)
qed

lemma server_hold_no_gap_witness:
  "fst (place_server_transfer_hold (held_os RECEIVED_TAG) gregorian ''t'' st0) = Ok ()"
proof -
  have "length (cmds st0) = 0" by (simp add: st0_def)
  then show ?thesis
    using server_hold_no_gap [of "''t@zrb-2026-05-05T00:00:00Z''" st0 "held_os RECEIVED_TAG" gregorian "''t''"]
    by (simp add: server_hold_run)
qed

text \<open>
  \<open>server\<close> resets the flag and installs the signal handlers; \<open>hup k\<close> says whether a hang-up has
  arrived after the \<open>k\<close>-th chunk. The connection is standard input and output.
\<close>

definition server ::
    "'w os \<Rightarrow> chrono \<Rightarrow> json_api \<Rightarrow> server_config \<Rightarrow> string list \<Rightarrow> (nat \<Rightarrow> bool) \<Rightarrow> ('w, unit) io" where
  "server S C J config permitted_clients hup = run_server_on S C J config permitted_clients hup"

end
