(* ===== verification/Send.thy ===== *)
theory Send
  imports Handshake Holds
begin

text \<open>
  The sending side (\<open>src/ops/send.rs\<close>) and its connection (\<open>src/ssh/transport.rs\<close>): choosing what
  to transfer, one transfer over a connection, the client's Transfer Hold, and the dispatch of
  many transfers, one after the other or as tasks.

  Each remote of each dataset has a connection of its own; \<open>connect\<close> puts its two ends into the
  state. The progress observer is only looked at through its calls (\<open>notices\<close>); \<open>progress\<close> says
  whether there is one. A cancellation token is the function that tells its state after the
  \<open>k\<close>-th chunk. Tasks that run in parallel are taken one at a time in an order that is a
  parameter: what they share (the pool, the observer) is only changed by whole commands and
  calls. The remotes of a dataset are a hash map, iterated in an order the program does not
  choose: their list stands for any order of completion. Logging and the systemd watchdog are
  left out.
\<close>

section \<open>The connection\<close>

definition ssh_argv :: "remote_config \<Rightarrow> string list \<Rightarrow> string list" where
  "ssh_argv remote extra_opts =
     (case rc_port remote of None \<Rightarrow> [] | Some port \<Rightarrow> [''-p'', nat_str port]) @
     (case rc_user remote of None \<Rightarrow> [] | Some user \<Rightarrow> [''-l'', user]) @
     (case rc_ssh_key remote of None \<Rightarrow> [] | Some key \<Rightarrow> [''-i'', key]) @
     rc_ssh_opts remote @ extra_opts @ [rc_host remote, ''zrb server'']"

definition ssh_destination :: "remote_config \<Rightarrow> string" where
  "ssh_destination remote =
     (case rc_port remote of
        Some p \<Rightarrow> rc_host remote @ '':'' @ nat_str p
      | None \<Rightarrow> rc_host remote)"

definition connect :: "'w os \<Rightarrow> remote_config \<Rightarrow> string list \<Rightarrow> ('w, unit) io" where
  "connect S remote extra_opts s =
     (let (out, w) = ssh_spawn S (ssh_argv remote extra_opts) (env s)
      in case out of
           Inl source \<Rightarrow> (Err (SshSpawn (ssh_destination remote) source), s\<lparr>env := w\<rparr>)
         | Inr (i, o') \<Rightarrow> (Ok (), s\<lparr>env := w, inp := i, outp := o'\<rparr>))"

section \<open>What to transfer\<close>

datatype transfer_decision =
    AlreadyUpToDate
  | FullSend
  | ResumeSend string
  | IncrementalSend string

definition suffix_of :: "string \<Rightarrow> string \<Rightarrow> string" where
  "suffix_of dflt s = (case split_once (CHR ''@'') s of None \<Rightarrow> dflt | Some (d, n) \<Rightarrow> n)"

definition diverged :: "string \<Rightarrow> err" where
  "diverged head_name = Message
     (''histories have diverged: the Remote'' @ [CHR 0x27] @ ''s most recent snapshot `'' @ head_name @
      ''` does not exist locally.'' @ [newline, newline] @
      ''This usually means the snapshot was deleted on this machine while not yet deleted on the '' @
      ''Remote, or the Remote was restored from a different backup.'' @ [newline, newline] @
      ''To recover: delete any snapshots on the Remote that are newer than the most recent '' @
      ''snapshot shared with this machine, then retry.'')"

definition decide_transfer :: "server_hello \<Rightarrow> string list \<Rightarrow> string \<Rightarrow> transfer_decision res" where
  "decide_transfer hello local_snaps latest =
     (let latest_suffix = suffix_of latest latest;
          already_on_server =
            (case Option.bind (sh_head hello) (split_once (CHR ''@'')) of
               None \<Rightarrow> False
             | Some (_, n) \<Rightarrow> n = latest_suffix)
      in if already_on_server then Ok AlreadyUpToDate
         else case sh_resume_token hello of
           Some token \<Rightarrow> Ok (ResumeSend token)
         | None \<Rightarrow>
             (case sh_head hello of
                None \<Rightarrow> Ok FullSend
              | Some remote_head \<Rightarrow>
                  let head_name = suffix_of [] remote_head
                  in case find (\<lambda>s. case split_once (CHR ''@'') s of
                                      None \<Rightarrow> False
                                    | Some (_, n) \<Rightarrow> n = head_name) local_snaps of
                       Some base \<Rightarrow> Ok (IncrementalSend base)
                     | None \<Rightarrow> Err (diverged head_name)))"

section \<open>The size estimate\<close>

text \<open>\<open>Command::output\<close>: standard output and standard error, whatever the exit status.\<close>

definition command_output :: "'w os \<Rightarrow> string list \<Rightarrow> ('w, string \<times> string) io" where
  "command_output S argv s =
     (let (out, w) = zfs_output S argv (env s);
          s' = s\<lparr>env := w, cmds := cmds s @ [argv]\<rparr>
      in case out of
           SpawnFailed e \<Rightarrow> (Err (Message e), s')
         | Exited success stdout stderr \<Rightarrow> (Ok (stdout, stderr), s'))"

definition estimate_from_output :: "string \<Rightarrow> u64" where
  "estimate_from_output output =
     (case parse_estimated_size output of Inr n \<Rightarrow> n | Inl e \<Rightarrow> 0)"

definition estimate_resume_size :: "'w os \<Rightarrow> string \<Rightarrow> string list \<Rightarrow> ('w, u64) io" where
  "estimate_resume_size S token opts =
     io_match (command_output S ([''send'', ''-n'', ''-v'', ''-t'', token] @ opts))
       (\<lambda>(stdout, stderr). io_return (estimate_from_output (stderr @ [newline] @ stdout)))
       (\<lambda>e. io_return 0)"

definition display_estimator_error :: "estimator_error \<Rightarrow> string" where
  "display_estimator_error e =
     (case e of
        LineMissing \<Rightarrow> ''expected '' @ [CHR 0x27] @ ''estimated size is <value><unit>'' @ [CHR 0x27] @
          '' line not found in output''
      | MalformedValue v \<Rightarrow> ''could not parse size value '' @ [CHR 0x27] @ v @ [CHR 0x27])"

definition estimate_size :: "'w os \<Rightarrow> string option \<Rightarrow> string \<Rightarrow> string list \<Rightarrow> ('w, u64) io" where
  "estimate_size S base latest opts =
     io_bind (io_context ''running zfs send -n -v''
         (command_output S ([''send'', ''-n'', ''-v''] @
            (case base of None \<Rightarrow> [] | Some b \<Rightarrow> [''-i'', b]) @ [latest] @ opts)))
       (\<lambda>(stdout, stderr).
          case parse_estimated_size (stdout @ [newline] @ stderr) of
            Inr sz \<Rightarrow> io_return sz
          | Inl e \<Rightarrow> io_fail (Message (display_estimator_error e)))"

section \<open>One transfer\<close>

definition remote_receive_error :: "string \<Rightarrow> err" where
  "remote_receive_error msg = Message
     (''remote error: '' @ msg @ [newline] @
      ''hint: the target dataset may need `zfs rollback` or the snapshots may conflict with the '' @
      ''send stream; check `zfs allow` delegation on the server'')"

text \<open>\<open>downcast_ref\<close> looks through the contexts that were put around an error.\<close>

fun is_cancelled :: "err \<Rightarrow> bool" where
  "is_cancelled (WithContext m e) = is_cancelled e"
| "is_cancelled e = (e = Cancelled)"

definition notify :: "bool \<Rightarrow> send_event \<Rightarrow> ('w, unit) io" where
  "notify progress e = (if progress then io_notice e else io_return ())"

definition send_ready :: "json_api \<Rightarrow> bool \<Rightarrow> string \<Rightarrow> ('w, unit) io" where
  "send_ready J ok msg =
     io_xmit (encode_json (ser_client_ready J) \<lparr>cr_ok = ok, cr_message = msg\<rparr>)"

text \<open>
  The call of \<open>write_stream\<close> with the callback that records the bytes sent and reports them; its
  error is a value here, since the code looks at it.
\<close>

definition stream_out ::
    "remote_config \<Rightarrow> string \<Rightarrow> bool \<Rightarrow> (nat \<Rightarrow> bool) \<Rightarrow> rstream \<Rightarrow> u64 \<Rightarrow> ('w, err + u64) io" where
  "stream_out remote_cfg row_key progress cancel zfs_out total_bytes s =
     (case write_stream (rc_bandwidth_limit remote_cfg) total_bytes cancel zfs_out (outp s) of
        (r, src', dest', calls) \<Rightarrow>
          let s' = s\<lparr>outp := dest', notices := notices s @
                (if progress then map (\<lambda>(b, t). RemoteProgress row_key b) calls else [])\<rparr>;
              bytes_sent = (if calls = [] then 0 else fst (last calls))
          in (case r of
                Ok _ \<Rightarrow> (Ok (Inr bytes_sent), s')
              | Err e \<Rightarrow> (Ok (Inl e), s')
              | Panic p \<Rightarrow> (Panic p, s')))"

text \<open>Starting \<open>zfs send\<close>, with the estimated size.\<close>

definition open_stream ::
    "'w os \<Rightarrow> remote_config \<Rightarrow> string \<Rightarrow> transfer_decision \<Rightarrow> ('w, rstream \<times> u64) io" where
  "open_stream S remote_cfg latest decision =
     (let opts = rc_zfs_send_opts remote_cfg;
          full_or_incremental = (\<lambda>base.
            io_bind (io_match (estimate_size S base latest opts) io_return (\<lambda>e. io_return 0)) (\<lambda>estimate.
            io_bind (io_context ''zfs send'' (send_incremental S base latest opts)) (\<lambda>out.
              io_return (out, estimate))))
      in case decision of
           ResumeSend token \<Rightarrow>
             io_bind (estimate_resume_size S token opts) (\<lambda>size.
             io_bind (io_context ''zfs send -t'' (send_resume S token opts)) (\<lambda>out.
               io_return (out, size)))
         | IncrementalSend base \<Rightarrow> full_or_incremental (Some base)
         | _ \<Rightarrow> full_or_incremental None)"

text \<open>Streaming, and the server's verdict.\<close>

definition stream_and_confirm ::
    "json_api \<Rightarrow> remote_config \<Rightarrow> string \<Rightarrow> bool \<Rightarrow> (nat \<Rightarrow> bool) \<Rightarrow> rstream \<Rightarrow> u64 \<Rightarrow> ('w, u64) io" where
  "stream_and_confirm J remote_cfg row_key progress cancel zfs_out total_bytes =
     io_bind (stream_out remote_cfg row_key progress cancel zfs_out total_bytes) (\<lambda>streamed.
     case streamed of
       Inl e \<Rightarrow>
         if e \<noteq> Cancelled
         then io_match (io_recv (decode_json (de_server_status J)))
                (\<lambda>status. io_fail (if \<not> ss_ok status then remote_receive_error (ss_message status)
                                  else WithContext ''transferring stream'' e))
                (\<lambda>_. io_fail (WithContext ''transferring stream'' e))
         else io_fail (WithContext ''transferring stream'' e)
     | Inr bytes_sent \<Rightarrow>
         io_bind (io_context ''reading ServerStatus'' (io_recv (decode_json (de_server_status J))))
           (\<lambda>status. if ss_ok status then io_return bytes_sent
                     else io_fail (remote_receive_error (ss_message status))))"

text \<open>The choice and what follows from it, once the server has said hello.\<close>

definition send_after_hello ::
    "'w os \<Rightarrow> json_api \<Rightarrow> string \<Rightarrow> string list \<Rightarrow> remote_config \<Rightarrow> string \<Rightarrow> bool \<Rightarrow>
     (nat \<Rightarrow> bool) \<Rightarrow> server_hello \<Rightarrow> ('w, u64) io" where
  "send_after_hello S J latest local_snaps remote_cfg row_key progress cancel hello =
     io_bind (io_res (decide_transfer hello local_snaps latest)) (\<lambda>decision.
     if decision = AlreadyUpToDate
     then io_bind (io_catch (send_ready J False ''already up to date'')) (\<lambda>_. io_return 0)
     else
     io_bind (io_catch (open_stream S remote_cfg latest decision)) (\<lambda>stream_res.
     case stream_res of
       Inl e \<Rightarrow>
         io_bind (io_catch (send_ready J False (display_err e))) (\<lambda>_. io_fail e)
     | Inr (zfs_out, total_bytes) \<Rightarrow>
         io_bind (io_context ''writing ClientReady'' (send_ready J True ''ok'')) (\<lambda>_.
         io_bind (notify progress (RemoteStarted row_key total_bytes)) (\<lambda>_.
           stream_and_confirm J remote_cfg row_key progress cancel zfs_out total_bytes))))"

definition send_on ::
    "'w os \<Rightarrow> json_api \<Rightarrow> string \<Rightarrow> string list \<Rightarrow> remote_config \<Rightarrow> string \<Rightarrow> string \<Rightarrow> string \<Rightarrow> bool \<Rightarrow>
     (nat \<Rightarrow> bool) \<Rightarrow> ('w, u64) io" where
  "send_on S J latest local_snaps remote_cfg target client_name row_key progress cancel =
     io_bind (client_handshake J target client_name)
       (send_after_hello S J latest local_snaps remote_cfg row_key progress cancel)"

section \<open>The client's Transfer Hold\<close>

definition transfer_tag :: "string \<Rightarrow> string" where
  "transfer_tag remote_name = ''zrb:'' @ remote_name"

definition place_transfer_hold :: "'w os \<Rightarrow> string \<Rightarrow> string \<Rightarrow> string \<Rightarrow> ('w, unit) io" where
  "place_transfer_hold S dataset snap remote_name =
     (let tag = transfer_tag remote_name
      in io_bind (io_match (find_held_snapshots S dataset tag) (\<lambda>v. io_return v) (\<lambda>e. io_return []))
           (\<lambda>v. hold_then_release S tag snap (filter (\<lambda>s. s \<noteq> snap) v)))"

section \<open>One remote\<close>

record send_context =
  sx_latest :: string
  sx_local_snaps :: "string list"
  sx_remote_name :: string
  sx_remote_cfg :: remote_config
  sx_target :: string
  sx_client_name :: string
  sx_progress :: bool
  sx_cancel :: "nat \<Rightarrow> bool"

definition dataset_of :: "string \<Rightarrow> string" where
  "dataset_of latest = (case split_once (CHR ''@'') latest of None \<Rightarrow> latest | Some (d, n) \<Rightarrow> d)"

text \<open>The arrow is U+2192, three bytes.\<close>

definition row_key_for :: "string \<Rightarrow> string \<Rightarrow> string" where
  "row_key_for latest remote_name =
     dataset_of latest @ '' '' @ [CHR 0xE2, CHR 0x86, CHR 0x92] @ '' '' @ remote_name"

definition row_key :: "send_context \<Rightarrow> string" where
  "row_key ctx = row_key_for (sx_latest ctx) (sx_remote_name ctx)"

definition send_to_remote :: "'w os \<Rightarrow> json_api \<Rightarrow> send_context \<Rightarrow> ('w, unit) io" where
  "send_to_remote S J ctx =
     io_bind (connect S (sx_remote_cfg ctx) []) (\<lambda>_.
     io_bind (io_catch (send_on S J (sx_latest ctx) (sx_local_snaps ctx) (sx_remote_cfg ctx)
         (sx_target ctx) (sx_client_name ctx) (row_key ctx) (sx_progress ctx) (sx_cancel ctx)))
       (\<lambda>outcome.
     io_bind (io_elapsed S) (\<lambda>elapsed_s.
     case outcome of
       Inr bytes \<Rightarrow>
         if bytes = 0 then notify (sx_progress ctx) (RemoteUpToDate (row_key ctx))
         else io_bind (place_transfer_hold S (dataset_of (sx_latest ctx)) (sx_latest ctx) (sx_remote_name ctx))
                (\<lambda>_. notify (sx_progress ctx) (RemoteCompleted (row_key ctx) elapsed_s bytes))
     | Inl e \<Rightarrow>
         io_bind (notify (sx_progress ctx)
                    (if is_cancelled e then RemoteSkipped (row_key ctx)
                     else RemoteFailed (row_key ctx) (display_err e)))
           (\<lambda>_. io_fail e))))"

section \<open>All remotes of a dataset\<close>

fun collect_tasks ::
    "remote_targets \<Rightarrow> string list option \<Rightarrow> (string, remote_config) hmap \<Rightarrow>
     (string \<times> remote_config \<times> string) list res" where
  "collect_tasks [] remote_filter all_remotes = Ok []"
| "collect_tasks ((remote_name, target) # rest) remote_filter all_remotes =
     (if (case remote_filter of None \<Rightarrow> False | Some filt \<Rightarrow> remote_name \<notin> set filt)
      then collect_tasks rest remote_filter all_remotes
      else case map_of all_remotes remote_name of
        None \<Rightarrow> Err (Message (''remote '' @ [CHR 0x27] @ remote_name @ [CHR 0x27] @ '' not in config''))
      | Some remote_cfg \<Rightarrow>
          (case collect_tasks rest remote_filter all_remotes of
             Ok tasks \<Rightarrow> Ok ((remote_name, remote_cfg, target) # tasks)
           | Err e \<Rightarrow> Err e
           | Panic p \<Rightarrow> Panic p))"

type_synonym cancel_map = "(string, nat \<Rightarrow> bool) hmap"

definition cancel_for :: "cancel_map option \<Rightarrow> string \<Rightarrow> nat \<Rightarrow> bool" where
  "cancel_for cm key =
     (case Option.bind cm (\<lambda>m. map_of m key) of None \<Rightarrow> (\<lambda>k. False) | Some c \<Rightarrow> c)"

definition task_context ::
    "string \<Rightarrow> string list \<Rightarrow> string \<Rightarrow> bool \<Rightarrow> cancel_map option \<Rightarrow> string \<times> remote_config \<times> string \<Rightarrow>
     send_context" where
  "task_context latest local_snaps client_name progress cm task =
     (case task of (remote_name, remote_cfg, target) \<Rightarrow>
        \<lparr>sx_latest = latest, sx_local_snaps = local_snaps, sx_remote_name = remote_name,
         sx_remote_cfg = remote_cfg, sx_target = target, sx_client_name = client_name,
         sx_progress = progress, sx_cancel = cancel_for cm (row_key_for latest remote_name)\<rparr>)"

text \<open>The sequential loop: every task runs, whatever the others did.\<close>

fun run_tasks :: "('w, unit) io list \<Rightarrow> bool \<Rightarrow> ('w, bool) io" where
  "run_tasks [] any_failed = io_return any_failed"
| "run_tasks (t # ts) any_failed =
     io_match t (\<lambda>_. run_tasks ts any_failed)
       (\<lambda>e. run_tasks ts (any_failed \<or> \<not> is_cancelled e))"

text \<open>The loop over the finished tasks of a \<open>JoinSet\<close>: a task that panicked does not match
  \<open>Ok((row_key, Err(e)))\<close>.\<close>

fun join_tasks :: "('w, unit) io list \<Rightarrow> bool \<Rightarrow> ('w, bool) io" where
  "join_tasks [] any_failed = io_return any_failed"
| "join_tasks (t # ts) any_failed =
     io_bind (io_join t) (\<lambda>joined.
       join_tasks ts (any_failed \<or> (case joined of Err e \<Rightarrow> \<not> is_cancelled e | _ \<Rightarrow> False)))"

definition dispatch_tasks ::
    "'w os \<Rightarrow> json_api \<Rightarrow> string \<Rightarrow> string list \<Rightarrow> string \<Rightarrow> (string \<times> remote_config \<times> string) list \<Rightarrow>
     bool \<Rightarrow> bool \<Rightarrow> cancel_map option \<Rightarrow> ('w, unit) io" where
  "dispatch_tasks S J latest local_snaps client_name tasks sequential progress cm =
     (let runs = map (\<lambda>t. send_to_remote S J (task_context latest local_snaps client_name progress cm t)) tasks
      in io_bind (if sequential then run_tasks runs False else join_tasks runs False) (\<lambda>any_failed.
         if any_failed then io_fail (Message ''one or more remotes failed'') else io_return ()))"

section \<open>All datasets\<close>

definition send_one_dataset ::
    "'w os \<Rightarrow> chrono \<Rightarrow> json_api \<Rightarrow> string \<Rightarrow> source_config \<Rightarrow> string list option \<Rightarrow> bool \<Rightarrow> bool \<Rightarrow>
     cancel_map option \<Rightarrow> ('w, unit) io" where
  "send_one_dataset S C J dataset config remote_filter sequential progress cm =
     io_bind (io_context (''listing local snapshots for '' @ dataset) (list_zrb S C dataset)) (\<lambda>local_snaps.
     case last_of local_snaps of
       None \<Rightarrow> io_fail (Message (''no local snapshots for '' @ [CHR 0x27] @ dataset @ [CHR 0x27] @
                 ''; run `zrb snapshot` first''))
     | Some latest \<Rightarrow>
         (case map_of (sc_datasets config) dataset of
            None \<Rightarrow> io_fail (Message (''dataset '' @ [CHR 0x27] @ dataset @ [CHR 0x27] @ '' not found in config''))
          | Some dataset_remotes \<Rightarrow>
              io_bind (io_res (collect_tasks dataset_remotes remote_filter (sc_remotes config))) (\<lambda>tasks.
                dispatch_tasks S J latest local_snaps (sc_name config) tasks sequential progress cm)))"

text \<open>
  The loops of \<open>send\<close>: sequential, where a panic unwinds, and over the finished tasks in the
  order they finish, where the first one that panicked ends the operation with its \<open>JoinError\<close>
  (and aborts the tasks that have not finished).
\<close>

fun send_sequential :: "(string \<Rightarrow> ('w, unit) io) \<Rightarrow> string list \<Rightarrow> bool \<Rightarrow> ('w, bool) io" where
  "send_sequential one [] failed = io_return failed"
| "send_sequential one (ds # dss) failed =
     io_match (one ds) (\<lambda>_. send_sequential one dss failed) (\<lambda>e. send_sequential one dss True)"

fun send_parallel :: "(string \<Rightarrow> ('w, unit) io) \<Rightarrow> string list \<Rightarrow> bool \<Rightarrow> ('w, bool) io" where
  "send_parallel one [] failed = io_return failed"
| "send_parallel one (ds # dss) failed =
     io_bind (io_join (one ds)) (\<lambda>joined.
     case joined of
       Ok _ \<Rightarrow> send_parallel one dss failed
     | Err e \<Rightarrow> send_parallel one dss True
     | Panic p \<Rightarrow> io_fail (Message (''task panicked with message '' @ p)))"

definition send ::
    "'w os \<Rightarrow> chrono \<Rightarrow> json_api \<Rightarrow> string list \<Rightarrow> string list option \<Rightarrow> source_config \<Rightarrow> bool \<Rightarrow> bool \<Rightarrow>
     cancel_map option \<Rightarrow> ('w, unit) io" where
  "send S C J datasets remote_filter config sequential progress cm =
     (let one = (\<lambda>ds. send_one_dataset S C J ds config remote_filter sequential progress cm)
      in io_bind (if sequential then send_sequential one datasets False
                  else send_parallel one datasets False) (\<lambda>failed.
         io_bind (notify progress AllDone) (\<lambda>_.
         if failed then io_fail (Message ''one or more datasets failed to send'') else io_return ())))"

section \<open>Which processes the operations start\<close>

lemma emits_connect [emits_intro]: "emits P (connect S remote extra)"
  by (rule emits_same_cmds) (simp add: connect_def Let_def split: prod.split sum.split)

lemma emits_command_output [emits_intro]:
  assumes "P argv"
  shows "emits P (command_output S argv)"
proof (rule emitsI)
  fix s
  show "\<exists>cs. cmds (snd (command_output S argv s)) = cmds s @ cs \<and> list_all P cs"
    using assms by (intro exI [of _ "[argv]"])
      (simp add: command_output_def Let_def split: prod.split proc_out.split)
qed

lemma emits_catch [emits_intro]: "emits P m \<Longrightarrow> emits P (io_catch m)"
  by (auto simp: io_catch_def intro!: emits_intro)

lemma emits_notify [emits_intro]: "emits P (notify progress e)"
  by (auto simp: notify_def intro!: emits_intro)

lemma emits_send_ready [emits_intro]: "emits P (send_ready J ok msg)"
  by (auto simp: send_ready_def intro!: emits_intro)

lemma emits_stream_out [emits_intro]: "emits P (stream_out cfg key progress cancel zfs_out total_bytes)"
  by (rule emits_same_cmds) (simp add: stream_out_def Let_def split: prod.split res.split)

lemma emits_client_handshake [emits_intro]: "emits P (client_handshake J target client)"
  by (auto simp: client_handshake_def intro!: emits_intro)

lemma emits_stream_and_confirm [emits_intro]:
  "emits P (stream_and_confirm J cfg key progress cancel zfs_out total_bytes)"
  by (auto simp: stream_and_confirm_def intro!: emits_intro)

lemma emits_open_stream [emits_intro]:
  assumes "\<And>args. P (''send'' # args)"
  shows "emits P (open_stream S cfg latest decision)"
  unfolding open_stream_def Let_def
  by (cases decision) (auto simp: estimate_size_def estimate_resume_size_def assms
      intro!: emits_intro split: sum.split)

lemma emits_send_on [emits_intro]:
  assumes "\<And>args. P (''send'' # args)"
  shows "emits P (send_on S J latest local_snaps cfg target client key progress cancel)"
  unfolding send_on_def send_after_hello_def using assms by (auto intro!: emits_intro emits_open_stream)

lemma emits_place_transfer_hold:
  assumes "P [''list'', ''-t'', ''snapshot'', ''--json'', dataset]" "\<And>xs. P ([''holds'', ''-H''] @ xs)"
    and "P [''hold'', transfer_tag remote, snap]" "\<And>old. P [''release'', transfer_tag remote, old]"
  shows "emits P (place_transfer_hold S dataset snap remote)"
  unfolding place_transfer_hold_def Let_def using assms by (auto intro!: emits_intro)

section \<open>The client's hold is a hold mover\<close>

interpretation client_hold: hold_mover S "place_transfer_hold S dataset snap remote" "transfer_tag remote"
  for S dataset snap remote
proof
  fix s
  obtain q s1 where q: "find_held_snapshots S dataset (transfer_tag remote) s = (q, s1)" by fastforce
  obtain pre where pre: "cmds s1 = cmds s @ pre" "list_all read_only pre"
    using emitsD [OF read_only_list(3) q] by blast
  define olds where "olds = filter (\<lambda>x. x \<noteq> snap) (case q of Ok v \<Rightarrow> v | _ \<Rightarrow> [])"
  have "place_transfer_hold S dataset snap remote s = hold_then_release S (transfer_tag remote) snap olds s1"
    using q panics_commands(14) [of "\<lambda>_. False" S dataset "transfer_tag remote"]
    by (cases q) (auto simp: place_transfer_hold_def Let_def io_match_def io_bind_def io_return_def olds_def
        panics_in_def)
  moreover have "snap \<notin> set olds" by (simp add: olds_def)
  ultimately show "\<exists>s1 pre. cmds s1 = cmds s @ pre \<and> list_all read_only pre \<and>
      (place_transfer_hold S dataset snap remote s = (Ok (), s1) \<or>
       (\<exists>new olds. new \<notin> set olds \<and>
          place_transfer_hold S dataset snap remote s = hold_then_release S (transfer_tag remote) new olds s1))"
    using pre by blast
qed

lemma place_transfer_hold_holds:
  "\<exists>rest. cmds (snd (place_transfer_hold S dataset snap remote s)) = cmds s @ rest \<and>
     [''hold'', transfer_tag remote, snap] \<in> set rest"
proof -
  obtain q s1 where q: "find_held_snapshots S dataset (transfer_tag remote) s = (q, s1)" by fastforce
  obtain pre where pre: "cmds s1 = cmds s @ pre"
    using emitsD [OF read_only_list(3) q] by blast
  obtain olds where run: "place_transfer_hold S dataset snap remote s =
      hold_then_release S (transfer_tag remote) snap olds s1"
    using q panics_commands(14) [of "\<lambda>_. False" S dataset "transfer_tag remote"]
    by (cases q) (auto simp: place_transfer_hold_def Let_def io_match_def io_bind_def io_return_def panics_in_def)
  show ?thesis
    using hold_then_release_holds [of S "transfer_tag remote" snap olds s1] unfolding run
    by (auto simp: pre)
qed

section \<open>Properties of the choice\<close>

text \<open>The part of a snapshot name behind the at sign.\<close>

definition snap_name :: "string \<Rightarrow> string option" where
  "snap_name s = map_option snd (split_once (CHR ''@'') s)"

lemma snap_name_at [simp]: "CHR ''@'' \<notin> set d \<Longrightarrow> snap_name (d @ CHR ''@'' # n) = Some n"
  using split_once_append [of "CHR ''@''" d n] by (simp add: snap_name_def)

lemma suffix_of_snap_name: "suffix_of dflt s = (case snap_name s of None \<Rightarrow> dflt | Some n \<Rightarrow> n)"
  by (simp add: suffix_of_def snap_name_def split: option.split)

lemma decide_transfer_cases:
  "decide_transfer hello local_snaps latest =
     (if Option.bind (sh_head hello) snap_name = Some (suffix_of latest latest) then Ok AlreadyUpToDate
      else case (sh_resume_token hello, sh_head hello) of
        (Some token, _) \<Rightarrow> Ok (ResumeSend token)
      | (None, None) \<Rightarrow> Ok FullSend
      | (None, Some h) \<Rightarrow>
          (case find (\<lambda>s. snap_name s = Some (suffix_of [] h)) local_snaps of
             Some base \<Rightarrow> Ok (IncrementalSend base)
           | None \<Rightarrow> Err (diverged (suffix_of [] h))))"
proof -
  have "(case split_once (CHR ''@'') s of None \<Rightarrow> False | Some (d, n) \<Rightarrow> n = x) \<longleftrightarrow> snap_name s = Some x" for s x
    by (auto simp: snap_name_def split: option.splits)
  moreover have "(case Option.bind (sh_head hello) (split_once (CHR ''@'')) of None \<Rightarrow> False | Some (d, n) \<Rightarrow> n = x) \<longleftrightarrow>
      Option.bind (sh_head hello) snap_name = Some x" for x
    by (cases "sh_head hello") (auto simp: snap_name_def split: option.splits)
  ultimately show ?thesis
    by (simp add: decide_transfer_def Let_def split: option.split)
qed



section \<open>Properties of the hold\<close>

text \<open>
  The Transfer Hold of a remote moves without a gap: when an old hold is released, the new
  one is in place, on another snapshot, and it stays whichever of the releases take effect; and
  placing the hold never fails.
\<close>

theorem client_hold_no_gap:
  assumes "[''release'', transfer_tag remote, old] \<in>
    set (drop (length (cmds s)) (cmds (snd (place_transfer_hold S dataset snap remote s))))"
  shows "fst (place_transfer_hold S dataset snap remote s) = Ok () \<and>
    (\<exists>pre new rest s1 s2. cmds (snd (place_transfer_hold S dataset snap remote s)) =
        cmds s @ pre @ [''hold'', transfer_tag remote, new] # rest \<and>
      list_all read_only pre \<and> hold_snapshot S new (transfer_tag remote) s1 = (Ok (), s2) \<and> old \<noteq> new \<and>
      (\<forall>took H. set took \<subseteq> set rest \<longrightarrow>
         (new, transfer_tag remote) \<in> fold hold_effect took (insert (new, transfer_tag remote) H)))"
  using client_hold.never_fails client_hold.no_gap [OF assms] by blast

text \<open>The hold is only touched after the server confirmed the transfer.\<close>

lemma notify_Ok [simp]:
  "notify progress e s = (Ok (), s\<lparr>notices := notices s @ (if progress then [e] else [])\<rparr>)"
  by (simp add: notify_def io_notice_def io_return_def)

definition exchange :: "'w os \<Rightarrow> json_api \<Rightarrow> send_context \<Rightarrow> ('w, u64) io" where
  "exchange S J ctx = send_on S J (sx_latest ctx) (sx_local_snaps ctx) (sx_remote_cfg ctx)
     (sx_target ctx) (sx_client_name ctx) (row_key ctx) (sx_progress ctx) (sx_cancel ctx)"

definition hold_latest :: "'w os \<Rightarrow> send_context \<Rightarrow> ('w, unit) io" where
  "hold_latest S ctx =
     place_transfer_hold S (dataset_of (sx_latest ctx)) (sx_latest ctx) (sx_remote_name ctx)"

lemma hold_latest_Ok: "\<exists>s'. hold_latest S ctx s = (Ok (), s')"
  using client_hold.never_fails unfolding hold_latest_def by (metis prod.collapse)

lemma comms_hold_latest: "preserves comms (hold_latest S ctx)"
  unfolding hold_latest_def place_transfer_hold_def Let_def hold_then_release_def release_all_def
  by (intro preserves_intro)

text \<open>How the transfer to one remote ends.\<close>

lemma send_to_remote_run:
  obtains (no_connection) e s1 where "connect S (sx_remote_cfg ctx) [] s = (Err e, s1)"
      "send_to_remote S J ctx s = (Err e, s1)"
  | (up_to_date) s1 s2 w where "connect S (sx_remote_cfg ctx) [] s = (Ok (), s1)"
      "exchange S J ctx s1 = (Ok 0, s2)"
      "send_to_remote S J ctx s = (Ok (), s2\<lparr>env := w,
         notices := notices s2 @ (if sx_progress ctx then [RemoteUpToDate (row_key ctx)] else [])\<rparr>)"
      "w = snd (elapsed_secs S (env s2))"
  | (completed) s1 s2 n w t s3 where "connect S (sx_remote_cfg ctx) [] s = (Ok (), s1)"
      "exchange S J ctx s1 = (Ok n, s2)" "n \<noteq> 0" "hold_latest S ctx (s2\<lparr>env := w\<rparr>) = (Ok (), s3)"
      "send_to_remote S J ctx s = (Ok (), s3\<lparr>notices := notices s3 @
         (if sx_progress ctx then [RemoteCompleted (row_key ctx) t n] else [])\<rparr>)"
      "w = snd (elapsed_secs S (env s2))"
  | (failed) s1 s2 e w where "connect S (sx_remote_cfg ctx) [] s = (Ok (), s1)"
      "exchange S J ctx s1 = (Err e, s2)"
      "send_to_remote S J ctx s = (Err e, s2\<lparr>env := w, notices := notices s2 @
         (if sx_progress ctx then [if is_cancelled e then RemoteSkipped (row_key ctx)
                                   else RemoteFailed (row_key ctx) (display_err e)] else [])\<rparr>)"
      "w = snd (elapsed_secs S (env s2))"
  | (panicked) s1 s2 p where "connect S (sx_remote_cfg ctx) [] s = (Ok (), s1)"
      "exchange S J ctx s1 = (Panic p, s2)" "send_to_remote S J ctx s = (Panic p, s2)"
proof -
  note defs = send_to_remote_def exchange_def [symmetric] hold_latest_def [symmetric] io_bind_def
    io_catch_def io_match_def io_return_def io_fail_def
  obtain r1 s1 where c: "connect S (sx_remote_cfg ctx) [] s = (r1, s1)" by fastforce
  obtain r s2 where r: "exchange S J ctx s1 = (r, s2)" by fastforce
  obtain t w where t: "io_elapsed S s2 = (Ok t, s2\<lparr>env := w\<rparr>)" and w: "w = snd (elapsed_secs S (env s2))"
    by (simp add: io_elapsed_def case_prod_beta)
  obtain s3 where h: "hold_latest S ctx (s2\<lparr>env := w\<rparr>) = (Ok (), s3)"
    using hold_latest_Ok by blast
  show thesis
  proof (cases r1)
    case [simp]: (Ok u)
    show thesis
    proof (cases r)
      case (Ok n)
      with c r t h show thesis
        by (cases "n = 0") (auto intro: up_to_date completed simp: defs w)
    next
      case (Err e)
      with c r t show thesis by (intro failed [of s1 e s2 w]) (simp_all add: defs w)
    next
      case (Panic p)
      with c r show thesis by (intro panicked [of s1 p s2]) (simp_all add: defs)
    qed
  next
    case (Err e)
    with c show thesis by (intro no_connection) (simp_all add: defs)
  next
    case (Panic p)
    with c show thesis by (auto simp: connect_def Let_def split: prod.splits sum.splits)
  qed
qed

lemma connect_keeps: "connect S cfg extra s = (r, s') \<Longrightarrow> cmds s' = cmds s \<and> notices s' = notices s"
  by (auto simp: connect_def Let_def split: prod.splits sum.splits)

text \<open>A confirmed transfer places the hold.\<close>

lemma confirmed_send_holds:
  assumes "connect S (sx_remote_cfg ctx) [] s = (Ok (), s1)" "exchange S J ctx s1 = (Ok n, s2)" "n \<noteq> 0"
  shows "fst (send_to_remote S J ctx s) = Ok () \<and>
    (\<exists>rest. cmds (snd (send_to_remote S J ctx s)) = cmds s2 @ rest \<and>
       [''hold'', transfer_tag (sx_remote_name ctx), sx_latest ctx] \<in> set rest)"
proof (cases rule: send_to_remote_run [of S ctx s J])
  case (completed t1 t2 m w t t3)
  then have t2: "t2 = s2" using assms by simp
  obtain rest where "cmds t3 = cmds s2 @ rest"
    "[''hold'', transfer_tag (sx_remote_name ctx), sx_latest ctx] \<in> set rest"
    using completed(4) place_transfer_hold_holds [of S "dataset_of (sx_latest ctx)" "sx_latest ctx"
        "sx_remote_name ctx" "s2\<lparr>env := w\<rparr>"]
    unfolding t2 hold_latest_def by auto
  then show ?thesis using completed(5) by auto
qed (use assms in simp_all)


section \<open>What the observer sees of one remote\<close>

lemma notices_catch [preserves_intro]: "preserves notices m \<Longrightarrow> preserves notices (io_catch m)"
  by (auto simp: io_catch_def intro!: preserves_intro)

lemma notices_send_ready [preserves_intro]: "preserves notices (send_ready J ok msg)"
  by (auto simp: send_ready_def intro!: preserves_intro)

lemma notices_client_handshake [preserves_intro]: "preserves notices (client_handshake J target client)"
  by (auto simp: client_handshake_def intro!: preserves_intro)

lemma comms_command_output [preserves_intro]: "preserves comms (command_output S argv)"
  by (auto simp: preserves_def command_output_def Let_def split: prod.split proc_out.split)

lemma notices_open_stream [preserves_intro]: "preserves notices (open_stream S cfg latest decision)"
proof (rule preserves_notices_comms)
  show "preserves comms (open_stream S cfg latest decision)"
    unfolding open_stream_def Let_def
    by (cases decision) (auto simp: estimate_size_def estimate_resume_size_def
        intro!: preserves_intro split: sum.split)
qed

text \<open>Starting, then a report after each chunk.\<close>

definition started_events :: "string \<Rightarrow> send_event list \<Rightarrow> bool" where
  "started_events key evs \<longleftrightarrow>
     evs = [] \<or> (\<exists>total_bytes bs. evs = RemoteStarted key total_bytes # map (RemoteProgress key) bs)"

text \<open>What streaming reports, and that the wait for the verdict reports nothing.\<close>

definition progress_notices :: "string \<Rightarrow> bool \<Rightarrow> u64 list \<Rightarrow> send_event list" where
  "progress_notices key progress bs = (if progress then map (RemoteProgress key) bs else [])"

lemma stream_out_notices:
  assumes "stream_out cfg key progress cancel zfs_out total_bytes s = (r, s')"
  shows "\<exists>bs. notices s' = notices s @ progress_notices key progress bs"
proof -
  obtain x src dest calls where
    w: "write_stream (rc_bandwidth_limit cfg) total_bytes cancel zfs_out (outp s) = (x, src, dest, calls)"
    by (metis prod_cases4)
  have "notices s' = notices s @ progress_notices key progress (map fst calls)"
    using assms w by (cases x) (auto simp: stream_out_def progress_notices_def case_prod_beta comp_def)
  then show ?thesis by blast
qed

lemma confirm_notices:
  "\<exists>bs. notices (snd (stream_and_confirm J cfg key progress cancel zfs_out total_bytes s)) =
     notices s @ progress_notices key progress bs"
proof -
  obtain r s1 where r: "stream_out cfg key progress cancel zfs_out total_bytes s = (r, s1)" by fastforce
  have rest: "preserves notices (case res of
     Inl e \<Rightarrow>
       if e \<noteq> Cancelled
       then io_match (io_recv (decode_json (de_server_status J)))
              (\<lambda>status. io_fail (if \<not> ss_ok status then remote_receive_error (ss_message status)
                                else WithContext ''transferring stream'' e))
              (\<lambda>_. io_fail (WithContext ''transferring stream'' e))
       else io_fail (WithContext ''transferring stream'' e)
   | Inr bytes_sent \<Rightarrow>
       io_bind (io_context ''reading ServerStatus'' (io_recv (decode_json (de_server_status J))))
         (\<lambda>status. if ss_ok status then io_return bytes_sent
                   else io_fail (remote_receive_error (ss_message status))))" for res
    by (cases res) (auto intro!: preserves_intro)
  have "notices (snd (stream_and_confirm J cfg key progress cancel zfs_out total_bytes s)) = notices s1"
    using r by (cases r) (simp_all add: stream_and_confirm_def io_bind_def rest [unfolded preserves_def])
  with stream_out_notices [OF r] show ?thesis by simp
qed

lemma reports_started:
  "reports (started_events key)
     (io_bind (notify progress (RemoteStarted key total_bytes))
       (\<lambda>_. stream_and_confirm J cfg key progress cancel zfs_out total_bytes))"
  unfolding reports_def
proof
  fix s :: "'w st"
  let ?s = "s\<lparr>notices := notices s @ (if progress then [RemoteStarted key total_bytes] else [])\<rparr>"
  obtain bs where "notices (snd (stream_and_confirm J cfg key progress cancel zfs_out total_bytes ?s)) =
      notices ?s @ progress_notices key progress bs"
    using confirm_notices by blast
  then show "\<exists>evs. notices (snd (io_bind (notify progress (RemoteStarted key total_bytes))
      (\<lambda>_. stream_and_confirm J cfg key progress cancel zfs_out total_bytes) s)) = notices s @ evs \<and>
      started_events key evs"
    by (cases progress) (auto simp: io_bind_def started_events_def progress_notices_def)
qed

lemma reports_send_on: "reports (started_events key) (send_on S J latest snaps cfg target client key progress cancel)"
proof -
  have none: "started_events key []" by (simp add: started_events_def)
  have streaming: "reports (started_events key) (case stream_res of
       Inl e \<Rightarrow>
         io_bind (io_catch (send_ready J False (display_err e))) (\<lambda>_. io_fail e)
     | Inr (zfs_out, total_bytes) \<Rightarrow>
         io_bind (io_context ''writing ClientReady'' (send_ready J True ''ok'')) (\<lambda>_.
         io_bind (notify progress (RemoteStarted key total_bytes)) (\<lambda>_.
           stream_and_confirm J cfg key progress cancel zfs_out total_bytes)))" for stream_res
  proof (cases stream_res)
    case (Inr out)
    obtain zfs_out total_bytes where out: "out = (zfs_out, total_bytes)" by fastforce
    show ?thesis
      unfolding Inr out sum.case prod.case
      by (rule reports_bind [OF _ reports_started none]) (intro preserves_intro)
  qed (simp add: none reports_silent preserves_intro)
  show ?thesis
    unfolding send_on_def send_after_hello_def
    by (intro reports_bind reports_if streaming none preserves_intro reports_silent)
qed

lemma notices_hold_latest: "hold_latest S ctx s = (r, s') \<Longrightarrow> notices s' = notices s"
  using preservesD [OF preserves_notices_comms [OF comms_hold_latest]] .

lemma remote_events:
  assumes "sx_progress ctx" and "send_to_remote S J ctx s = (r, s')" and "\<And>p. r \<noteq> Panic p"
  shows "(\<exists>e. connect S (sx_remote_cfg ctx) [] s = (Err e, s') \<and> r = Err e \<and> notices s' = notices s) \<or>
    (\<exists>pre final. notices s' = notices s @ pre @ [final] \<and> started_events (row_key ctx) pre \<and>
      (case r of
         Ok _ \<Rightarrow> final = RemoteUpToDate (row_key ctx) \<or>
           (\<exists>t n. final = RemoteCompleted (row_key ctx) t n \<and> n \<noteq> 0)
       | Err e \<Rightarrow> final = (if is_cancelled e then RemoteSkipped (row_key ctx)
                            else RemoteFailed (row_key ctx) (display_err e))
       | Panic p \<Rightarrow> False))"
proof -
  have ex: "\<exists>pre. notices s2 = notices s @ pre \<and> started_events (row_key ctx) pre"
    if "connect S (sx_remote_cfg ctx) [] s = (Ok (), s1)" "exchange S J ctx s1 = (q, s2)" for q s1 s2
    using reportsD [OF reports_send_on that(2) [unfolded exchange_def]] connect_keeps [OF that(1)] by simp
  show ?thesis
  proof (cases rule: send_to_remote_run [of S ctx s J])
    case (no_connection e s1)
    with assms(2) connect_keeps [OF no_connection(1)] show ?thesis by auto
  next
    case (up_to_date s1 s2 w)
    with assms(1,2) ex [OF up_to_date(1,2)] show ?thesis by auto
  next
    case (completed s1 s2 n w t s3)
    with assms(1,2) ex [OF completed(1,2)] notices_hold_latest [OF completed(4)] show ?thesis by auto
  next
    case (failed s1 s2 e w)
    with assms(1,2) ex [OF failed(1,2)] show ?thesis by auto
  next
    case (panicked s1 s2 p)
    with assms(2) assms(3) [of p] show ?thesis by simp
  qed
qed

text \<open>
  C23. What the observer is told about one remote: at most one start, then progress reports, then
  exactly one end, and the end says how the transfer went: a failure is reported with its
  message, a cancellation as skipped, a success as completed with a non-zero number of bytes
  or as up to date. Only when the connection cannot even be started nothing is reported.
\<close>

theorem remote_event_protocol:
  assumes "sx_progress ctx" and "send_to_remote S J ctx s = (r, s')" and "\<And>p. r \<noteq> Panic p"
  shows "(\<exists>e. connect S (sx_remote_cfg ctx) [] s = (Err e, s') \<and> r = Err e \<and> notices s' = notices s) \<or>
    (\<exists>pre final. notices s' = notices s @ pre @ [final] \<and> started_events (row_key ctx) pre \<and>
      (case r of
         Ok _ \<Rightarrow> final = RemoteUpToDate (row_key ctx) \<or>
           (\<exists>t n. final = RemoteCompleted (row_key ctx) t n \<and> n \<noteq> 0)
       | Err e \<Rightarrow> final = (if is_cancelled e then RemoteSkipped (row_key ctx)
                            else RemoteFailed (row_key ctx) (display_err e))
       | Panic p \<Rightarrow> False))"
  using remote_events [OF assms] .

section \<open>Many remotes\<close>

text \<open>What the tasks end with, one after the other.\<close>

fun outcomes :: "('w, unit) io list \<Rightarrow> 'w st \<Rightarrow> unit res list \<times> 'w st" where
  "outcomes [] s = ([], s)"
| "outcomes (t # ts) s =
     (let (r, s1) = t s; (rs, s2) = outcomes ts s1 in (r # rs, s2))"

definition real_failure :: "unit res \<Rightarrow> bool" where
  "real_failure r = (case r of Err e \<Rightarrow> \<not> is_cancelled e | _ \<Rightarrow> False)"

definition panicked :: "unit res \<Rightarrow> bool" where
  "panicked r = (case r of Panic p \<Rightarrow> True | _ \<Rightarrow> False)"

lemma real_failure_iff: "real_failure r \<longleftrightarrow> (\<exists>e. r = Err e \<and> \<not> is_cancelled e)"
  by (cases r) (simp_all add: real_failure_def)

lemma join_tasks_outcomes:
  "join_tasks ts b s = (Ok (b \<or> (\<exists>r \<in> set (fst (outcomes ts s)). real_failure r)), snd (outcomes ts s))"
  by (induction ts arbitrary: b s)
    (auto simp: io_return_def io_bind_def io_join_def real_failure_def Let_def case_prod_beta)

lemma run_tasks_outcomes:
  assumes "list_all (\<lambda>r. \<not> panicked r) (fst (outcomes ts s))"
  shows "run_tasks ts b s = (Ok (b \<or> (\<exists>r \<in> set (fst (outcomes ts s)). real_failure r)), snd (outcomes ts s))"
  using assms
proof (induction ts arbitrary: b s)
  case (Cons t ts)
  obtain r s1 where r: "t s = (r, s1)" by fastforce
  with Cons.prems have "list_all (\<lambda>r. \<not> panicked r) (fst (outcomes ts s1))" "\<not> panicked r"
    by (simp_all add: Let_def case_prod_beta)
  with Cons.IH [of s1] r show ?case
    by (cases r) (auto simp: io_match_def real_failure_def panicked_def Let_def case_prod_beta)
qed (simp add: io_return_def)

text \<open>The transfers of \<open>dispatch_tasks\<close>.\<close>

definition task_runs ::
    "'w os \<Rightarrow> json_api \<Rightarrow> string \<Rightarrow> string list \<Rightarrow> string \<Rightarrow> bool \<Rightarrow> cancel_map option \<Rightarrow>
     (string \<times> remote_config \<times> string) list \<Rightarrow> ('w, unit) io list" where
  "task_runs S J latest snaps client progress cm =
     map (\<lambda>t. send_to_remote S J (task_context latest snaps client progress cm t))"

text \<open>
  C22. One remote does not affect the others: the sequential and the parallel mode both run every
  transfer to its end, and fail exactly when one of them failed for a reason other than the
  user's cancellation. A panic ends the sequential mode, while the parallel mode takes it for a
  success.
\<close>

theorem dispatch_runs_all:
  assumes "outcomes (task_runs S J latest snaps client progress cm tasks) s = (rs, s')"
    and "\<And>r p. sequential \<Longrightarrow> r \<in> set rs \<Longrightarrow> r \<noteq> Panic p"
  shows "dispatch_tasks S J latest snaps client tasks sequential progress cm s =
    (if \<exists>r \<in> set rs. \<exists>e. r = Err e \<and> \<not> is_cancelled e
     then Err (Message ''one or more remotes failed'') else Ok (), s')"
proof -
  have "sequential \<Longrightarrow> list_all (\<lambda>r. \<not> panicked r) rs"
    using assms(2) by (auto simp: list_all_iff panicked_def split: res.split)
  then show ?thesis
    using assms(1) run_tasks_outcomes [of "task_runs S J latest snaps client progress cm tasks" s False]
      join_tasks_outcomes [of "task_runs S J latest snaps client progress cm tasks" False s]
    by (cases sequential) (auto simp: dispatch_tasks_def task_runs_def [symmetric] Let_def io_bind_def
        io_fail_def io_return_def real_failure_iff)
qed

text \<open>
  In the parallel mode a transfer that panics is taken for a success: the verdict only looks
  at the tasks that ended with an error, so when all the others succeed, or when there are no
  others, the dispatch succeeds.
\<close>

theorem parallel_panic_is_success:
  assumes "outcomes (task_runs S J latest snaps client progress cm tasks) s = (rs, s')"
    and "Panic p \<in> set rs" and "\<And>r e. r \<in> set rs \<Longrightarrow> r \<noteq> Err e"
  shows "dispatch_tasks S J latest snaps client tasks False progress cm s = (Ok (), s')"
proof -
  have "\<not> (\<exists>r \<in> set rs. real_failure r)"
    using assms(3) by (auto simp: real_failure_iff)
  with assms(1) show ?thesis
    using join_tasks_outcomes [of "task_runs S J latest snaps client progress cm tasks" False s]
    by (simp add: dispatch_tasks_def task_runs_def [symmetric] Let_def io_bind_def io_return_def)
qed

section \<open>Witnesses\<close>

lemma client_hold_run:
  "place_transfer_hold (held_os (transfer_tag ''nas'')) ''t'' ''t@zrb-2026-05-06T00:00:00Z'' ''nas'' st0 =
     (Ok (), st0\<lparr>cmds :=
       [[''list'', ''-t'', ''snapshot'', ''--json'', ''t''],
        [''holds'', ''-H'', ''t@zrb-2026-05-06T00:00:00Z'', ''t@manual'', ''t@zrb-2026-05-05T00:00:00Z''],
        [''hold'', transfer_tag ''nas'', ''t@zrb-2026-05-06T00:00:00Z''],
        [''release'', transfer_tag ''nas'', ''t@zrb-2026-05-05T00:00:00Z'']]\<rparr>)"
proof -
  have "parse_held_snapshots_for_tag
      (hold_lines [(''t@zrb-2026-05-05T00:00:00Z'', transfer_tag ''nas'', ''now'')]) (transfer_tag ''nas'') =
      [''t@zrb-2026-05-05T00:00:00Z'']"
    by code_simp
  then show ?thesis
    by (simp add: place_transfer_hold_def Let_def find_held_snapshots_def list_snapshots_def io_result_def
        decode_list_json_def parse_json_def two_snapshots_def io_match_def io_bind_def io_return_def
        find_held_snapshots_in_def hold_then_release_def release_all_def hold_snapshot_def run_unit_def
        release_hold_def run_def held_os_def held_answer_def st0_def)
qed

lemma client_hold_no_gap_witness:
  "fst (place_transfer_hold (held_os (transfer_tag ''nas'')) ''t'' ''t@zrb-2026-05-06T00:00:00Z'' ''nas'' st0) = Ok ()"
proof -
  have "length (cmds st0) = 0" by (simp add: st0_def)
  then show ?thesis
    using client_hold_no_gap [of "''nas''" "''t@zrb-2026-05-05T00:00:00Z''" st0 "held_os (transfer_tag ''nas'')"
        "''t''" "''t@zrb-2026-05-06T00:00:00Z''"]
    by (simp add: client_hold_run)
qed

end
