(* ===== verification/EndToEnd.thy ===== *)
theory EndToEnd
  imports Send Server
begin

text \<open>
  Client and server together: a transfer over a faithful connection, where each side reads what
  the other one writes. Nothing new is modelled here; the theory composes \<open>send_on\<close> and
  \<open>run_server_on\<close>.
\<close>

section \<open>Who looks at the connection\<close>

lemma offline_list_zrb [offline_intro]: "offline (list_zrb S C ds)"
  unfolding list_zrb_def by (intro offline_intro)

lemma offline_hold_then_release [offline_intro]: "offline (hold_then_release S tag new olds)"
  unfolding hold_then_release_def release_all_def by (intro offline_intro)

lemma offline_server_hold [offline_intro]: "offline (place_server_transfer_hold S C dataset)"
  unfolding place_server_transfer_hold_def by (intro offline_intro)

lemma offline_annotate [offline_intro]: "offline (annotate_resume_if_needed S C dataset)"
  unfolding annotate_resume_if_needed_def by (intro offline_intro)

lemma offline_command_output [offline_intro]: "offline (command_output S argv)"
  by (auto simp: offline_def command_output_def Let_def split: prod.split proc_out.split)

lemma offline_case_prod [offline_intro]:
  "(\<And>x y. offline (f x y)) \<Longrightarrow> offline (case v of (x, y) \<Rightarrow> f x y)"
  by (cases v) simp

lemma offline_case_sum [offline_intro]:
  "(\<And>x. offline (f x)) \<Longrightarrow> (\<And>y. offline (g y)) \<Longrightarrow> offline (case v of Inl x \<Rightarrow> f x | Inr y \<Rightarrow> g y)"
  by (cases v) simp_all

lemma offline_estimates [offline_intro]:
  "offline (estimate_size S base latest opts)" "offline (estimate_resume_size S token opts)"
  unfolding estimate_size_def estimate_resume_size_def by (intro offline_intro)+

lemma offline_open_stream [offline_intro]: "offline (open_stream S cfg latest decision)"
  unfolding open_stream_def Let_def by (cases decision; simp; intro offline_intro)

lemma appends_case_prod [appends_intro]:
  "(\<And>x y. appends (f x y)) \<Longrightarrow> appends (case v of (x, y) \<Rightarrow> f x y)"
  by (cases v) simp

lemma appends_case_sum [appends_intro]:
  "(\<And>x. appends (f x)) \<Longrightarrow> (\<And>y. appends (g y)) \<Longrightarrow> appends (case v of Inl x \<Rightarrow> f x | Inr y \<Rightarrow> g y)"
  by (cases v) simp_all

lemma appends_steps [appends_intro]:
  "appends (send_status J ok msg)" "appends (send_ready J ok msg)" "appends (notify progress e)"
  "appends (receive_stream cancel recv)"
  unfolding send_status_def send_ready_def notify_def
  by (auto intro!: appends_intro appends_same simp: preserves_def receive_stream_def
      split: prod.split res.split)

lemma appends_catch [appends_intro]: "appends m \<Longrightarrow> appends (io_catch m)"
  unfolding io_catch_def by (intro appends_intro)

lemma appends_stream_out [appends_intro]: "appends (stream_out cfg key progress cancel zfs_out total_bytes)"
  unfolding appends_def
  by (auto simp: stream_out_def Let_def split: prod.split res.split dest!: write_stream_appends)

lemma appends_stream_and_confirm [appends_intro]:
  "appends (stream_and_confirm J cfg key progress cancel zfs_out total_bytes)"
  unfolding stream_and_confirm_def by (intro appends_intro)

lemma appends_server_transfer [appends_intro]: "appends (server_transfer S C J cancel hs)"
  unfolding server_transfer_def
  by (intro appends_intro appends_offline offline_intro)
section \<open>The client's side\<close>

lemma last_progress:
  "cs \<noteq> [] \<Longrightarrow> progress_calls total_bytes (\<lambda>k. False) k sent cs \<noteq> [] \<and>
     fst (last (progress_calls total_bytes (\<lambda>k. False) k sent cs)) = word_of_nat (sent + length (concat cs))"
proof (induction cs arbitrary: k sent)
  case (Cons c cs)
  show ?case
  proof (cases "cs = []")
    case False
    with Cons.IH [of "Suc k" "sent + length c"] show ?thesis by (simp add: add.assoc)
  qed simp
qed simp

definition unthrottled :: "u64 option \<Rightarrow> nat \<Rightarrow> bool" where
  "unthrottled rate n \<longleftrightarrow> (\<forall>k \<le> n. \<not> throttle_panics rate (word_of_nat k))"

lemma stream_out_run:
  assumes "wcap (outp s) = None" "rerr zfs_out = None"
    and "unthrottled (rc_bandwidth_limit cfg) (length (rbytes zfs_out))"
  shows "\<exists>evs. stream_out cfg key progress (\<lambda>k. False) zfs_out total_bytes s =
    (Ok (Inr (word_of_nat (length (rbytes zfs_out)))),
     online (inp s) ((outp s)\<lparr>wbytes := wbytes (outp s) @ encode_stream (rbytes zfs_out)\<rparr>) (notices s @ evs) s)"
proof -
  obtain x src' dest' calls where
    w: "write_stream (rc_bandwidth_limit cfg) total_bytes (\<lambda>k. False) zfs_out (outp s) = (x, src', dest', calls)"
    by (metis prod_cases4)
  have lim: "\<And>n. n \<le> length (rbytes zfs_out) \<Longrightarrow> \<not> throttle_panics (rc_bandwidth_limit cfg) (word_of_nat n)"
    using assms(3) by (simp add: unthrottled_def)
  note facts = write_stream_emits [OF assms(1,2) lim w]
  show ?thesis
    using facts last_progress [of "chunks (rbytes zfs_out)" total_bytes 0 0]
    by (intro exI [of _ "if progress then map (\<lambda>(b, t). RemoteProgress key b) calls else []"])
      (simp add: stream_out_def w concat_chunks encode_stream_def online_def Let_def)
qed

definition await_verdict :: "json_api \<Rightarrow> u64 \<Rightarrow> ('w, u64) io" where
  "await_verdict J n =
     io_bind (io_context ''reading ServerStatus'' (io_recv (decode_json (de_server_status J))))
       (\<lambda>status. if ss_ok status then io_return n
                 else io_fail (remote_receive_error (ss_message status)))"

definition ready_message :: client_ready where
  "ready_message = \<lparr>cr_ok = True, cr_message = ''ok''\<rparr>"

lemma send_on_opens:
  fixes s :: "'w st"
  assumes "json_round_trip (ser_client_hello J) (de_client_hello J) (hello_request client target)"
    and "json_round_trip (ser_server_status J) (de_server_status J) ok_status"
    and "json_round_trip (ser_server_hello J) (de_server_hello J) hello"
    and "json_round_trip (ser_client_ready J) (de_client_ready J) ready_message"
    and "wcap (outp s) = None"
    and "rbytes (inp s) = json_line (ser_server_status J) ok_status @ json_line (ser_server_hello J) hello @ rest"
    and "decide_transfer hello local_snaps latest = Ok d" and "d \<noteq> AlreadyUpToDate"
    and "open_stream S cfg latest d s = (Ok (zfs_out, total_bytes), s1)"
  shows "send_on S J latest local_snaps cfg target client key progress cancel s =
    stream_and_confirm J cfg key progress cancel zfs_out total_bytes
      (online ((inp s)\<lparr>rbytes := rest\<rparr>)
        ((outp s)\<lparr>wbytes := wbytes (outp s) @ json_line (ser_client_hello J) (hello_request client target) @
           json_line (ser_client_ready J) ready_message\<rparr>)
        (notices s @ (if progress then [RemoteStarted key total_bytes] else [])) s1)"
proof -
  let ?i = "(inp s)\<lparr>rbytes := rest\<rparr>"
  let ?o1 = "(outp s)\<lparr>wbytes := wbytes (outp s) @ json_line (ser_client_hello J) (hello_request client target)\<rparr>"
  let ?o2 = "?o1\<lparr>wbytes := wbytes ?o1 @ json_line (ser_client_ready J) ready_message\<rparr>"
  have 1: "client_handshake J target client s = (Ok hello, online ?i ?o1 (notices s) s)"
    by (rule client_handshake_accepts [OF assms(1-3,5,6)])
  have 2: "open_stream S cfg latest d (online ?i ?o1 (notices s) s) =
      (Ok (zfs_out, total_bytes), online ?i ?o1 (notices s) s1)"
    by (rule offlineD [OF offline_open_stream assms(9)])
  have 3: "send_ready J True ''ok'' (online ?i ?o1 (notices s) s1) = (Ok (), online ?i ?o2 (notices s) s1)"
    using xmit_json_line [OF assms(4), of "online ?i ?o1 (notices s) s1"] assms(5)
    by (simp add: send_ready_def ready_message_def)
  have res: "io_res (Ok d) t = (Ok d, t)" for t :: "'w st"
    by (simp add: io_res_def)
  show ?thesis
    by (simp add: send_on_def send_after_hello_def io_bind_def io_context_def
        io_catch_def io_match_def io_return_def 1 2 3 res assms(7,8))
qed

lemma send_on_streams:
  assumes "json_round_trip (ser_client_hello J) (de_client_hello J) (hello_request client target)"
    and "json_round_trip (ser_server_status J) (de_server_status J) ok_status"
    and "json_round_trip (ser_server_hello J) (de_server_hello J) hello"
    and "json_round_trip (ser_client_ready J) (de_client_ready J) ready_message"
    and "wcap (outp s) = None"
    and "rbytes (inp s) = json_line (ser_server_status J) ok_status @ json_line (ser_server_hello J) hello @ rest"
    and "decide_transfer hello local_snaps latest = Ok d" and "d \<noteq> AlreadyUpToDate"
    and "open_stream S cfg latest d s = (Ok (zfs_out, total_bytes), s1)"
    and "rerr zfs_out = None" and "unthrottled (rc_bandwidth_limit cfg) (length (rbytes zfs_out))"
  shows "\<exists>evs. send_on S J latest local_snaps cfg target client key progress (\<lambda>k. False) s =
    await_verdict J (word_of_nat (length (rbytes zfs_out)))
      (online ((inp s)\<lparr>rbytes := rest\<rparr>)
        ((outp s)\<lparr>wbytes := wbytes (outp s) @ json_line (ser_client_hello J) (hello_request client target) @
           json_line (ser_client_ready J) ready_message @ encode_stream (rbytes zfs_out)\<rparr>)
        (notices s @ evs) s1)"
proof -
  define u where "u = online ((inp s)\<lparr>rbytes := rest\<rparr>)
        ((outp s)\<lparr>wbytes := wbytes (outp s) @ json_line (ser_client_hello J) (hello_request client target) @
           json_line (ser_client_ready J) ready_message\<rparr>)
        (notices s @ (if progress then [RemoteStarted key total_bytes] else [])) s1"
  have "wcap (outp u) = None" using assms(5) by (simp add: u_def)
  then obtain evs where "stream_out cfg key progress (\<lambda>k. False) zfs_out total_bytes u =
      (Ok (Inr (word_of_nat (length (rbytes zfs_out)))),
       online (inp u) ((outp u)\<lparr>wbytes := wbytes (outp u) @ encode_stream (rbytes zfs_out)\<rparr>) (notices u @ evs) u)"
    using stream_out_run [of u zfs_out cfg key progress total_bytes] assms(10,11) by blast
  then show ?thesis
    unfolding send_on_opens [OF assms(1-9)] u_def [symmetric]
    by (intro exI [of _ "(if progress then [RemoteStarted key total_bytes] else []) @ evs"])
      (simp add: stream_and_confirm_def io_bind_run await_verdict_def u_def)
qed

lemma stream_and_confirm_zero_rate:
  assumes "rc_bandwidth_limit cfg = Some 0" "wcap (outp s) = None" "rerr zfs_out = None"
  shows "\<exists>p s'. stream_and_confirm J cfg key progress cancel zfs_out total_bytes s = (Panic p, s')"
proof -
  obtain p src' dest' where
    "write_stream (Some 0) total_bytes cancel zfs_out (outp s) = (Panic p, src', dest', [])"
    using zero_rate_panics [OF assms(2,3)] by blast
  then show ?thesis
    by (simp add: stream_and_confirm_def io_bind_def stream_out_def assms(1) Let_def)
qed

lemma appends_send_after_hello [appends_intro]:
  "appends (send_after_hello S J latest local_snaps cfg key progress cancel hello)"
  unfolding send_after_hello_def
  by (intro appends_intro) (auto intro!: appends_intro appends_offline offline_intro)

text \<open>Whatever the server answers, the client's request goes out first.\<close>

lemma send_on_request_first:
  assumes "json_round_trip (ser_client_hello J) (de_client_hello J) (hello_request client target)"
    and "wcap (outp s) = None"
    and "send_on S J latest local_snaps cfg target client key progress cancel s = (r, s')"
  shows "prefix (wbytes (outp s) @ json_line (ser_client_hello J) (hello_request client target)) (wbytes (outp s'))"
proof -
  let ?s = "s\<lparr>outp := (outp s)\<lparr>wbytes := wbytes (outp s) @ json_line (ser_client_hello J)
    (hello_request client target)\<rparr>\<rparr>"
  define rest where "rest =
    io_bind (io_context ''reading version ServerStatus'' (io_recv (decode_json (de_server_status J))))
      (\<lambda>version_status. io_bind
        (if \<not> ss_ok version_status
         then io_fail (Message (''server rejected connection: '' @ ss_message version_status))
         else io_context ''reading ServerHello'' (io_recv (decode_json (de_server_hello J))))
        (send_after_hello S J latest local_snaps cfg key progress cancel))"
  have "io_xmit (encode_json (ser_client_hello J) \<lparr>ch_version = CARGO_PKG_VERSION,
      ch_client_name = client, ch_target = target\<rparr>) s = (Ok (), ?s)"
    using xmit_json_line [OF assms(1,2)] by (simp add: hello_request_def)
  then have "send_on S J latest local_snaps cfg target client key progress cancel s = rest ?s"
    unfolding send_on_def client_handshake_def io_bind_assoc rest_def [symmetric]
    by (simp add: io_bind_run io_context_def io_match_def io_return_def)
  moreover have "appends rest"
    unfolding rest_def by (intro appends_intro)
  ultimately show ?thesis
    using appendsD [of rest ?s r s'] assms(3) by simp
qed

section \<open>The server's side\<close>

lemma receive_stdin: "receive T target opts s = (Ok recv, s') \<Longrightarrow> wbytes (zr_stdin recv) = []"
  by (auto simp: receive_def Let_def split: prod.splits sum.splits)

lemma receive_stream_run:
  assumes "rbytes (inp s) = encode_stream bs @ rest" "wcap (zr_stdin recv) = None" "wbytes (zr_stdin recv) = []"
  shows "receive_stream (\<lambda>k. False) recv s =
    (Ok (Inr False, recv\<lparr>zr_stdin := \<lparr>wbytes = bs, wcap = None\<rparr>\<rparr>), s\<lparr>inp := (inp s)\<lparr>rbytes := rest\<rparr>\<rparr>)"
proof -
  have "read_stream (inp s) (zr_stdin recv) =
      (Ok (), (inp s)\<lparr>rbytes := rest\<rparr>, (zr_stdin recv)\<lparr>wbytes := bs\<rparr>)"
    using read_chunks [OF assms(2), of "inp s" "chunks bs" rest] chunks_length assms(1,3)
    by (simp add: encode_stream_def concat_chunks)
  then show ?thesis
    using assms(2) by (simp add: receive_stream_def read_stream_never_cancelled)
qed

text \<open>
  What the server does when \<open>zfs receive\<close> has exited with \<open>fin\<close>, from state \<open>s\<close> to \<open>s'\<close>, and the
  verdict it then sends.
\<close>

definition settled ::
    "'w os \<Rightarrow> chrono \<Rightarrow> string \<Rightarrow> unit res \<Rightarrow> 'w st \<Rightarrow> 'w st \<Rightarrow> server_status \<Rightarrow> bool" where
  "settled T C target fin s s' verdict \<longleftrightarrow>
     (case fin of
        Ok _ \<Rightarrow> place_server_transfer_hold T C target s = (Ok (), s') \<and> verdict = ok_status
      | Err e \<Rightarrow> annotate_resume_if_needed T C target s = (Ok (), s') \<and>
          verdict = \<lparr>ss_ok = False, ss_message = display_err e\<rparr>
      | Panic p \<Rightarrow> False)"

lemma settled_online:
  "settled T C target fin s s' verdict \<Longrightarrow> settled T C target fin (online i o' n s) (online i o' n s') verdict"
  unfolding settled_def
  by (cases fin) (auto intro: offlineD [OF offline_server_hold] offlineD [OF offline_annotate])

lemma server_transfer_run:
  assumes "rbytes (inp s) = encode_stream bs @ rest" "wcap (outp s) = None"
    and "receive T (hs_target hs) (hs_zfs_receive_opts hs) s = (Ok recv, s3)" "wcap (zr_stdin recv) = None"
    and "finish T (recv\<lparr>zr_stdin := \<lparr>wbytes = bs, wcap = None\<rparr>\<rparr>) s3 = (fin, s4)"
    and "settled T C (hs_target hs) fin s4 s5 verdict"
    and "json_round_trip (ser_server_status J) (de_server_status J) verdict"
  shows "server_transfer T C J (\<lambda>k. False) hs s =
    (Ok (), online ((inp s)\<lparr>rbytes := rest\<rparr>)
       ((outp s)\<lparr>wbytes := wbytes (outp s) @ json_line (ser_server_status J) verdict\<rparr>) (notices s) s5)"
proof -
  let ?i = "(inp s)\<lparr>rbytes := rest\<rparr>" and ?recv = "recv\<lparr>zr_stdin := \<lparr>wbytes = bs, wcap = None\<rparr>\<rparr>"
  have comm: "inp s3 = inp s" "outp s3 = outp s" "notices s3 = notices s"
    using preservesD [OF comms_run(3) assms(3)] by (simp_all add: comms_def)
  have 1: "receive_stream (\<lambda>k. False) recv s3 = (Ok (Inr False, ?recv), online ?i (outp s) (notices s) s3)"
    using receive_stream_run [of s3 bs rest recv] assms(1,4) receive_stdin [OF assms(3)] comm
    by (simp add: online_def)
  have 2: "finish T ?recv (online ?i (outp s) (notices s) s3) = (fin, online ?i (outp s) (notices s) s4)"
    by (rule offlineD [OF offline_run(4) assms(5)])
  have 3: "send_status J (ss_ok verdict) (ss_message verdict) (online ?i (outp s) (notices s) s5) =
      (Ok (), online ?i ((outp s)\<lparr>wbytes := wbytes (outp s) @ json_line (ser_server_status J) verdict\<rparr>)
        (notices s) s5)"
    using xmit_json_line [OF assms(7), of "online ?i (outp s) (notices s) s5"] assms(2)
    by (cases verdict) (simp add: send_status_def)
  show ?thesis
    using assms(3) settled_online [OF assms(6), of ?i "outp s" "notices s"] 1 2 3
    by (cases fin) (auto simp: settled_def ok_status_def server_transfer_def io_bind_def io_context_def
        io_match_def io_return_def)
qed

text \<open>After an accepted handshake the server first waits for the client.\<close>

definition server_rest :: "'w os \<Rightarrow> chrono \<Rightarrow> json_api \<Rightarrow> (nat \<Rightarrow> bool) \<Rightarrow> server_handshake_result \<Rightarrow> ('w, unit) io" where
  "server_rest T C J cancel hs =
     io_bind (io_context ''reading ClientReady'' (io_recv (decode_json (de_client_ready J)))) (\<lambda>ready.
       if \<not> cr_ok ready then io_return () else server_transfer T C J cancel hs)"

lemma run_server_accepted:
  assumes "server_handshake T C J config permitted s = (Ok (Some hs), s')"
  shows "run_server_on T C J config permitted cancel s = server_rest T C J cancel hs s'"
  using assms by (simp add: run_server_on_def server_rest_def io_bind_def)

lemma appends_server_rest: "appends (server_rest T C J cancel hs)"
  unfolding server_rest_def by (intro appends_intro)

lemma server_rest_run:
  assumes "json_round_trip (ser_client_ready J) (de_client_ready J) ready_message"
    and "rbytes (inp s) = json_line (ser_client_ready J) ready_message @ rest"
  shows "server_rest T C J cancel hs s =
    server_transfer T C J cancel hs (online ((inp s)\<lparr>rbytes := rest\<rparr>) (outp s) (notices s) s)"
  using recv_json_line [OF assms]
  by (simp add: server_rest_def io_bind_def io_context_def io_match_def io_return_def ready_message_def online_def)

section \<open>The two sides together\<close>

text \<open>
  A faithful connection: \<open>s\<close>, \<open>s'\<close> are the client before and after, \<open>t\<close>, \<open>t'\<close> the server, and
  each reads exactly what the other one writes.
\<close>

definition connected :: "'w st \<Rightarrow> 'w st \<Rightarrow> 'v st \<Rightarrow> 'v st \<Rightarrow> bool" where
  "connected s s' t t' \<longleftrightarrow>
     outp s = \<lparr>wbytes = [], wcap = None\<rparr> \<and> outp t = \<lparr>wbytes = [], wcap = None\<rparr> \<and>
     rbytes (inp s) = wbytes (outp t') \<and> rbytes (inp t) = wbytes (outp s')"

text \<open>The messages of a transfer survive \<open>serde_json\<close>.\<close>

definition messages_survive ::
    "json_api \<Rightarrow> client_hello \<Rightarrow> server_hello \<Rightarrow> server_status \<Rightarrow> bool" where
  "messages_survive J request hello verdict \<longleftrightarrow>
     json_round_trip (ser_client_hello J) (de_client_hello J) request \<and>
     json_round_trip (ser_server_status J) (de_server_status J) ok_status \<and>
     json_round_trip (ser_server_hello J) (de_server_hello J) hello \<and>
     json_round_trip (ser_client_ready J) (de_client_ready J) ready_message \<and>
     json_round_trip (ser_server_status J) (de_server_status J) verdict"

lemma await_verdict_run:
  assumes "json_round_trip (ser_server_status J) (de_server_status J) verdict"
    and "rbytes (inp s) = json_line (ser_server_status J) verdict"
  shows "fst (await_verdict J n s) =
    (if ss_ok verdict then Ok n else Err (remote_receive_error (ss_message verdict)))"
  using recv_json_line [OF assms(1), of s "[]"] assms(2)
  by (simp add: await_verdict_def io_bind_def io_context_def io_match_def io_return_def io_fail_def)

text \<open>What the client returns when the server confirms everything it is sent.\<close>

lemma send_on_confirmed:
  assumes "messages_survive J (hello_request client target) hello ok_status"
    and "wcap (outp s) = None"
    and "rbytes (inp s) = json_line (ser_server_status J) ok_status @ json_line (ser_server_hello J) hello @
      json_line (ser_server_status J) ok_status"
    and "decide_transfer hello local_snaps latest = Ok d" and "d \<noteq> AlreadyUpToDate"
    and "open_stream S cfg latest d s = (Ok (zfs_out, total_bytes), s1)"
    and "rerr zfs_out = None" and "unthrottled (rc_bandwidth_limit cfg) (length (rbytes zfs_out))"
  shows "fst (send_on S J latest local_snaps cfg target client key progress (\<lambda>k. False) s) =
    Ok (word_of_nat (length (rbytes zfs_out)))"
proof -
  have J: "json_round_trip (ser_client_hello J) (de_client_hello J) (hello_request client target)"
    "json_round_trip (ser_server_status J) (de_server_status J) ok_status"
    "json_round_trip (ser_server_hello J) (de_server_hello J) hello"
    "json_round_trip (ser_client_ready J) (de_client_ready J) ready_message"
    using assms(1) by (simp_all add: messages_survive_def)
  obtain u where "send_on S J latest local_snaps cfg target client key progress (\<lambda>k. False) s =
      await_verdict J (word_of_nat (length (rbytes zfs_out))) u"
    and "rbytes (inp u) = json_line (ser_server_status J) ok_status"
    using send_on_streams [OF J assms(2-8), of key progress] by auto
  then show ?thesis
    using await_verdict_run [OF J(2), of u] by (simp add: ok_status_def)
qed

text \<open>How every exchange begins: the request arrives, so the server accepts it and says hello, which arrives.\<close>

lemma exchange_begins:
  assumes "send_on S J latest local_snaps cfg target client key progress cancel s = (r, s')"
    and "run_server_on T C J config permitted cancel' t = (q, t')"
    and "connected s s' t t'" and "messages_survive J (hello_request client target) hello verdict"
    and "client \<in> set permitted" and "map_of (sv_clients config) client = Some ccfg"
    and "target \<in> set (cc_allow ccfg)"
    and "get_resume_token T target t = (Ok token, t1)" and "list_snapshots T target t1 = (Ok raw, t2)"
    and "hello = \<lparr>sh_version = CARGO_PKG_VERSION,
           sh_head = last_of (sort_chronological C (filter_zrb C raw)), sh_resume_token = token\<rparr>"
  obtains more tail u where "rbytes (inp t) = json_line (ser_client_hello J) (hello_request client target) @ more"
    "rbytes (inp s) = wbytes (outp u) @ tail"
    "wbytes (outp u) = json_line (ser_server_status J) ok_status @ json_line (ser_server_hello J) hello"
    "u = online ((inp t)\<lparr>rbytes := more\<rparr>) (outp u) (notices t) t2" "wcap (outp u) = None"
    "server_rest T C J cancel' \<lparr>hs_target = target, hs_zfs_receive_opts = cc_zfs_receive_opts ccfg\<rparr> u = (q, t')"
proof -
  let ?hs = "\<lparr>hs_target = target, hs_zfs_receive_opts = cc_zfs_receive_opts ccfg\<rparr>"
  have J: "json_round_trip (ser_client_hello J) (de_client_hello J) (hello_request client target)"
    "json_round_trip (ser_server_status J) (de_server_status J) ok_status"
    "json_round_trip (ser_server_hello J) (de_server_hello J) hello"
    using assms(4) by (simp_all add: messages_survive_def)
  have c: "outp s = \<lparr>wbytes = [], wcap = None\<rparr>" "outp t = \<lparr>wbytes = [], wcap = None\<rparr>"
    "rbytes (inp s) = wbytes (outp t')" "rbytes (inp t) = wbytes (outp s')"
    using assms(3) by (simp_all add: connected_def)
  have caps: "wcap (outp s) = None" "wcap (outp t) = None" by (simp_all add: c)
  obtain more where more: "rbytes (inp t) = json_line (ser_client_hello J) (hello_request client target) @ more"
    using send_on_request_first [OF J(1) caps(1) assms(1)] c by (auto simp: prefix_def)
  note accepted = server_handshake_accepts [OF J(1-3) assms(10) more caps(2) assms(5-9)]
  let ?w = "wbytes (outp t) @ json_line (ser_server_status J) ok_status @ json_line (ser_server_hello J) hello"
  define u where "u = online ((inp t)\<lparr>rbytes := more\<rparr>) ((outp t)\<lparr>wbytes := ?w\<rparr>) (notices t) t2"
  have server: "server_rest T C J cancel' ?hs u = (q, t')"
    using assms(2) [unfolded run_server_accepted [OF accepted]] by (simp add: u_def)
  obtain tail where "rbytes (inp s) = wbytes (outp u) @ tail"
    using appendsD [OF appends_server_rest server] c by (auto simp: prefix_def)
  with more server show thesis
    by (intro that [of more u tail]) (simp_all add: u_def c(2) caps(2))
qed

text \<open>The server once the whole stream has arrived.\<close>

lemma server_rest_settled:
  assumes "json_round_trip (ser_client_ready J) (de_client_ready J) ready_message"
    and "json_round_trip (ser_server_status J) (de_server_status J) verdict"
    and "rbytes (inp u) = json_line (ser_client_ready J) ready_message @ encode_stream bs"
    and u: "u = online i (outp u) n t2" "wcap (outp u) = None"
    and run: "server_rest T C J (\<lambda>k. False) hs u = (q, t')"
    and "hs_target hs = target" and "receive T target (hs_zfs_receive_opts hs) t2 = (Ok recv, t3)"
    and "wcap (zr_stdin recv) = None"
    and "finish T (recv\<lparr>zr_stdin := \<lparr>wbytes = bs, wcap = None\<rparr>\<rparr>) t3 = (fin, t4)"
    and "settled T C target fin t4 t5 verdict"
  shows "q = Ok ()" "t' = online (inp t') (outp t') (notices t') t5"
    "wbytes (outp t') = wbytes (outp u) @ json_line (ser_server_status J) verdict"
proof -
  define v where "v = online ((inp u)\<lparr>rbytes := encode_stream bs\<rparr>) (outp u) (notices u) u"
  have "v = online (inp v) (outp v) (notices v) t2"
    unfolding v_def by (subst (4) u(1)) simp
  then have recv: "receive T (hs_target hs) (hs_zfs_receive_opts hs) v = (Ok recv, online (inp v) (outp v) (notices v) t3)"
    using offlineD [OF offline_run(3) assms(8), of "inp v" "outp v" "notices v"] assms(7) by simp
  have fin: "finish T (recv\<lparr>zr_stdin := \<lparr>wbytes = bs, wcap = None\<rparr>\<rparr>)
      (online (inp v) (outp v) (notices v) t3) = (fin, online (inp v) (outp v) (notices v) t4)"
    by (rule offlineD [OF offline_run(4) assms(10)])
  have verdict: "settled T C (hs_target hs) fin (online (inp v) (outp v) (notices v) t4)
      (online (inp v) (outp v) (notices v) t5) verdict"
    using settled_online [OF assms(11)] assms(7) by simp
  have "(q, t') = (Ok (), online ((inp v)\<lparr>rbytes := []\<rparr>)
      ((outp v)\<lparr>wbytes := wbytes (outp v) @ json_line (ser_server_status J) verdict\<rparr>) (notices v)
      (online (inp v) (outp v) (notices v) t5))"
    using server_transfer_run [of v bs "[]", OF _ _ recv assms(9) fin verdict assms(2)]
      server_rest_run [OF assms(1,3), of T C "\<lambda>k. False" hs] run u(2) by (simp add: v_def)
  then show "q = Ok ()" "t' = online (inp t') (outp t') (notices t') t5"
    "wbytes (outp t') = wbytes (outp u) @ json_line (ser_server_status J) verdict"
    by (simp_all add: v_def)
qed

text \<open>
  C2. End to end: over a faithful connection a transfer to a permitted client's dataset delivers
  exactly the bytes of \<open>zfs send\<close> to \<open>zfs receive\<close> (whose exit status \<open>fin\<close> after those bytes
  decides), and both sides agree on the result. When \<open>zfs receive\<close> succeeded, the server has
  moved its hold and the client reports the number of bytes; when it failed, the server has
  annotated the pending receive and the client fails with its message.
\<close>

theorem transfer_end_to_end:
  assumes "send_on S J latest local_snaps cfg target client key progress (\<lambda>k. False) s = (r, s')"
    and "run_server_on T C J config permitted (\<lambda>k. False) t = (q, t')"
    and "connected s s' t t'" and "messages_survive J (hello_request client target) hello verdict"
    and "client \<in> set permitted" and "map_of (sv_clients config) client = Some ccfg"
    and "target \<in> set (cc_allow ccfg)"
    and "get_resume_token T target t = (Ok token, t1)" and "list_snapshots T target t1 = (Ok raw, t2)"
    and "hello = \<lparr>sh_version = CARGO_PKG_VERSION,
           sh_head = last_of (sort_chronological C (filter_zrb C raw)), sh_resume_token = token\<rparr>"
    and "decide_transfer hello local_snaps latest = Ok d" and "d \<noteq> AlreadyUpToDate"
    and "open_stream S cfg latest d s = (Ok (zfs_out, total_bytes), s1)" and "rerr zfs_out = None"
    and "unthrottled (rc_bandwidth_limit cfg) (length (rbytes zfs_out))"
    and "receive T target (cc_zfs_receive_opts ccfg) t2 = (Ok recv, t3)" and "wcap (zr_stdin recv) = None"
    and "finish T (recv\<lparr>zr_stdin := \<lparr>wbytes = rbytes zfs_out, wcap = None\<rparr>\<rparr>) t3 = (fin, t4)"
    and "settled T C target fin t4 t5 verdict"
  shows "q = Ok () \<and> t' = online (inp t') (outp t') (notices t') t5 \<and>
    r = (case fin of
           Ok _ \<Rightarrow> Ok (word_of_nat (length (rbytes zfs_out)))
         | Err e \<Rightarrow> Err (remote_receive_error (display_err e))
         | Panic p \<Rightarrow> Panic p)"
proof -
  let ?ready = "json_line (ser_client_ready J) ready_message"
  let ?stream = "encode_stream (rbytes zfs_out)"
  let ?hs = "\<lparr>hs_target = target, hs_zfs_receive_opts = cc_zfs_receive_opts ccfg\<rparr>"
  have J: "json_round_trip (ser_client_hello J) (de_client_hello J) (hello_request client target)"
    "json_round_trip (ser_server_status J) (de_server_status J) ok_status"
    "json_round_trip (ser_server_hello J) (de_server_hello J) hello"
    "json_round_trip (ser_client_ready J) (de_client_ready J) ready_message"
    "json_round_trip (ser_server_status J) (de_server_status J) verdict"
    using assms(4) by (simp_all add: messages_survive_def)
  have c: "wcap (outp s) = None" "rbytes (inp s) = wbytes (outp t')" "rbytes (inp t) = wbytes (outp s')"
    "outp s = \<lparr>wbytes = [], wcap = None\<rparr>"
    using assms(3) by (simp_all add: connected_def)
  obtain more tail u where more: "rbytes (inp t) = json_line (ser_client_hello J) (hello_request client target) @ more"
    and tail: "rbytes (inp s) = wbytes (outp u) @ tail"
      "wbytes (outp u) = json_line (ser_server_status J) ok_status @ json_line (ser_server_hello J) hello"
    and u: "u = online ((inp t)\<lparr>rbytes := more\<rparr>) (outp u) (notices t) t2" "wcap (outp u) = None"
      "server_rest T C J (\<lambda>k. False) ?hs u = (q, t')"
    by (rule exchange_begins [OF assms(1-10)])
  text \<open>The hello arrives, so the client streams.\<close>
  obtain evs where client: "send_on S J latest local_snaps cfg target client key progress (\<lambda>k. False) s =
      await_verdict J (word_of_nat (length (rbytes zfs_out)))
        (online ((inp s)\<lparr>rbytes := tail\<rparr>)
          ((outp s)\<lparr>wbytes := wbytes (outp s) @ json_line (ser_client_hello J) (hello_request client target) @
             ?ready @ ?stream\<rparr>) (notices s @ evs) s1)"
    using send_on_streams [OF J(1-4) c(1) tail(1) [unfolded tail(2) append_assoc] assms(11-15)] by blast
  then have "outp s' = (outp s)\<lparr>wbytes := wbytes (outp s) @
      json_line (ser_client_hello J) (hello_request client target) @ ?ready @ ?stream\<rparr>"
    using assms(1) by (auto simp: await_verdict_def io_bind_def io_context_def io_match_def
        io_recv_def io_return_def io_fail_def split: prod.splits res.splits if_splits)
  with more c have stream: "rbytes (inp u) = ?ready @ ?stream" by (subst u(1)) simp
  text \<open>The stream arrives, so the server answers with its verdict.\<close>
  have served: "q = Ok ()" "t' = online (inp t') (outp t') (notices t') t5"
      "wbytes (outp t') = wbytes (outp u) @ json_line (ser_server_status J) verdict"
    using server_rest_settled [OF J(4,5) stream u(1,2,3) _ _ assms(17,18,19)] assms(16) by simp_all
  then have "tail = json_line (ser_server_status J) verdict"
    using tail(1) c(2) by simp
  moreover have "r = fst (send_on S J latest local_snaps cfg target client key progress (\<lambda>k. False) s)"
    using assms(1) by simp
  ultimately have "r = (if ss_ok verdict then Ok (word_of_nat (length (rbytes zfs_out)))
      else Err (remote_receive_error (ss_message verdict)))"
    unfolding client by (simp add: await_verdict_run [OF J(5)])
  with served(1,2) assms(19) show ?thesis
    by (cases fin) (auto simp: settled_def ok_status_def)
qed

section \<open>Witness\<close>

text \<open>There is such an exchange: the one in which each side is given what the other one writes.\<close>

lemma exchange_connected:
  fixes s :: "'w st" and t :: "'v st"
  assumes "messages_survive J (hello_request client target) hello verdict"
    and "client \<in> set permitted" and "map_of (sv_clients config) client = Some ccfg"
    and "target \<in> set (cc_allow ccfg)"
    and "get_resume_token T target t = (Ok token, t1)" and "list_snapshots T target t1 = (Ok raw, t2)"
    and "hello = \<lparr>sh_version = CARGO_PKG_VERSION,
           sh_head = last_of (sort_chronological C (filter_zrb C raw)), sh_resume_token = token\<rparr>"
    and "decide_transfer hello local_snaps latest = Ok d" and "d \<noteq> AlreadyUpToDate"
    and "open_stream S cfg latest d s = (Ok (zfs_out, total_bytes), s1)" and "rerr zfs_out = None"
    and "unthrottled (rc_bandwidth_limit cfg) (length (rbytes zfs_out))"
    and "receive T target (cc_zfs_receive_opts ccfg) t2 = (Ok recv, t3)" and "wcap (zr_stdin recv) = None"
    and "finish T (recv\<lparr>zr_stdin := \<lparr>wbytes = rbytes zfs_out, wcap = None\<rparr>\<rparr>) t3 = (fin, t4)"
    and "settled T C target fin t4 t5 verdict"
    and "outp s = \<lparr>wbytes = [], wcap = None\<rparr>" and "outp t = \<lparr>wbytes = [], wcap = None\<rparr>"
    and "rbytes (inp s) = json_line (ser_server_status J) ok_status @ json_line (ser_server_hello J) hello @
      json_line (ser_server_status J) verdict"
    and "rbytes (inp t) = json_line (ser_client_hello J) (hello_request client target) @
      json_line (ser_client_ready J) ready_message @ encode_stream (rbytes zfs_out)"
  shows "connected s (snd (send_on S J latest local_snaps cfg target client key progress (\<lambda>k. False) s))
    t (snd (run_server_on T C J config permitted (\<lambda>k. False) t))"
proof -
  let ?ready = "json_line (ser_client_ready J) ready_message"
  let ?stream = "encode_stream (rbytes zfs_out)"
  let ?hs = "\<lparr>hs_target = target, hs_zfs_receive_opts = cc_zfs_receive_opts ccfg\<rparr>"
  have J: "json_round_trip (ser_client_hello J) (de_client_hello J) (hello_request client target)"
    "json_round_trip (ser_server_status J) (de_server_status J) ok_status"
    "json_round_trip (ser_server_hello J) (de_server_hello J) hello"
    "json_round_trip (ser_client_ready J) (de_client_ready J) ready_message"
    "json_round_trip (ser_server_status J) (de_server_status J) verdict"
    using assms(1) by (simp_all add: messages_survive_def)
  have caps: "wcap (outp s) = None" "wcap (outp t) = None" by (simp_all add: assms(17,18))
  obtain evs where client: "send_on S J latest local_snaps cfg target client key progress (\<lambda>k. False) s =
      await_verdict J (word_of_nat (length (rbytes zfs_out)))
        (online ((inp s)\<lparr>rbytes := json_line (ser_server_status J) verdict\<rparr>)
          ((outp s)\<lparr>wbytes := wbytes (outp s) @ json_line (ser_client_hello J) (hello_request client target) @
             ?ready @ ?stream\<rparr>) (notices s @ evs) s1)"
    using send_on_streams [OF J(1-4) caps(1) assms(19) assms(8-12)] by blast
  have sent: "wbytes (outp (snd (send_on S J latest local_snaps cfg target client key progress (\<lambda>k. False) s))) =
      rbytes (inp t)"
    unfolding client using assms(17,20)
    by (simp add: await_verdict_def io_bind_def io_context_def io_match_def io_recv_def io_return_def io_fail_def
        split: prod.split res.split)
  note accepted = server_handshake_accepts [OF J(1-3) assms(7,20) caps(2) assms(2-6)]
  define u where "u = online ((inp t)\<lparr>rbytes := ?ready @ ?stream\<rparr>)
     ((outp t)\<lparr>wbytes := wbytes (outp t) @ json_line (ser_server_status J) ok_status @
        json_line (ser_server_hello J) hello\<rparr>) (notices t) t2"
  define v where "v = online ((inp u)\<lparr>rbytes := ?stream\<rparr>) (outp u) (notices u) u"
  have rest: "run_server_on T C J config permitted (\<lambda>k. False) t = server_transfer T C J (\<lambda>k. False) ?hs v"
    using run_server_accepted [OF accepted] server_rest_run [OF J(4), of u ?stream T C "\<lambda>k. False" ?hs]
    by (simp add: u_def v_def)
  have recv: "receive T (hs_target ?hs) (hs_zfs_receive_opts ?hs) v = (Ok recv, online (inp v) (outp v) (notices v) t3)"
    using offlineD [OF offline_run(3) assms(13)] by (simp add: v_def u_def)
  have fin: "finish T (recv\<lparr>zr_stdin := \<lparr>wbytes = rbytes zfs_out, wcap = None\<rparr>\<rparr>)
      (online (inp v) (outp v) (notices v) t3) = (fin, online (inp v) (outp v) (notices v) t4)"
    by (rule offlineD [OF offline_run(4) assms(15)])
  have verdict: "settled T C (hs_target ?hs) fin (online (inp v) (outp v) (notices v) t4)
      (online (inp v) (outp v) (notices v) t5) verdict"
    using settled_online [OF assms(16)] by simp
  have "wbytes (outp (snd (run_server_on T C J config permitted (\<lambda>k. False) t))) = rbytes (inp s)"
    unfolding rest
    using server_transfer_run [of v "rbytes zfs_out" "[]", OF _ _ recv assms(14) fin verdict J(5)] assms(18,19)
    by (simp add: v_def u_def)
  with sent assms(17,18) show ?thesis by (simp add: connected_def)
qed

text \<open>An incremental send of three bytes.\<close>

definition xf_cfg :: remote_config where
  "xf_cfg = \<lparr>rc_host = ''nas'', rc_port = None, rc_user = None, rc_ssh_key = None, rc_ssh_opts = [],
     rc_zfs_send_opts = [], rc_bandwidth_limit = None\<rparr>"

definition xf_snaps :: "string list" where
  "xf_snaps = [''d@zrb-2026-05-06T00:00:00Z'', ''d@zrb-2026-05-07T00:00:00Z'']"

definition xf_client :: "unit st" where
  "xf_client = hs_state (json_line (ser_server_status example_json) ok_status @
     json_line (ser_server_hello example_json) hs_hello @ json_line (ser_server_status example_json) ok_status)"

definition xf_server :: "unit st" where
  "xf_server = hs_state (json_line (ser_client_hello example_json) (hello_request ''laptop'' ''t'') @
     json_line (ser_client_ready example_json) ready_message @ encode_stream [1, 2, 3])"

lemma xf_messages: "messages_survive example_json (hello_request ''laptop'' ''t'') hs_hello ok_status"
proof -
  have "json_round_trip (ser_server_hello example_json) (de_server_hello example_json) hs_hello"
    by (simp add: json_round_trip_def json_eval utf8_valid_def hs_hello_def CARGO_PKG_VERSION_def)
  moreover have "json_round_trip (ser_client_ready example_json) (de_client_ready example_json) ready_message"
    by (simp add: json_round_trip_def json_eval utf8_valid_def ready_message_def example_json_def)
  ultimately show ?thesis
    using example_json_hello_request example_json_ok_status unfolding messages_survive_def by blast
qed

lemma xf_decide: "decide_transfer hs_hello xf_snaps ''d@zrb-2026-05-07T00:00:00Z'' =
    Ok (IncrementalSend ''d@zrb-2026-05-06T00:00:00Z'')"
  by (simp add: decide_transfer_def hs_hello_def xf_snaps_def suffix_of_def)

lemma xf_open:
  "open_stream listing_os xf_cfg ''d@zrb-2026-05-07T00:00:00Z'' (IncrementalSend ''d@zrb-2026-05-06T00:00:00Z'') s =
     (Ok (\<lparr>rbytes = [1, 2, 3], rerr = None, rsizes = []\<rparr>, 0),
      s\<lparr>cmds := cmds s @
        [[''send'', ''-n'', ''-v'', ''-i'', ''d@zrb-2026-05-06T00:00:00Z'', ''d@zrb-2026-05-07T00:00:00Z''],
         [''send'', ''-i'', ''d@zrb-2026-05-06T00:00:00Z'', ''d@zrb-2026-05-07T00:00:00Z'']]\<rparr>)"
proof -
  have "parse_estimated_size [newline] = Inl LineMissing"
    by code_simp
  then show ?thesis
    by (simp add: open_stream_def xf_cfg_def estimate_size_def command_output_def listing_os_def
        send_incremental_def spawn_send_def io_bind_def io_match_def io_context_def io_return_def io_fail_def)
qed

lemma xf_token: "get_resume_token listing_os ''t'' s =
    (Ok None, s\<lparr>cmds := cmds s @ [[''get'', ''--json'', ''receive_resume_token'', ''t'']]\<rparr>)"
  by (simp add: get_resume_token_def run_def listing_os_def io_match_def io_bind_def io_result_def
      io_return_def decode_property_json_def parse_json_def two_snapshots_def map_token_value_def)

lemma xf_raw: "list_snapshots listing_os ''t'' s =
    (Ok hs_raw, s\<lparr>cmds := cmds s @ [[''list'', ''-t'', ''snapshot'', ''--json'', ''t'']]\<rparr>)"
  by (simp add: list_snapshots_def run_def listing_os_def io_match_def io_result_def io_return_def
      decode_list_json_def parse_json_def two_snapshots_def hs_raw_def)

lemma xf_hello: "hs_hello = \<lparr>sh_version = CARGO_PKG_VERSION,
    sh_head = last_of (sort_chronological gregorian (filter_zrb gregorian hs_raw)), sh_resume_token = None\<rparr>"
  by (simp add: hs_hello_def hs_raw_def last_of_def filter_zrb_def is_zrb_def parse_example
      sort_chronological_def less_eq_datetime_def)

lemma xf_receive: "receive listing_os ''t'' [''-F''] s =
    (Ok \<lparr>zr_argv = [''receive'', ''-s'', ''t'', ''-F''], zr_stdin = \<lparr>wbytes = [], wcap = None\<rparr>\<rparr>,
     s\<lparr>cmds := cmds s @ [[''receive'', ''-s'', ''t'', ''-F'']]\<rparr>)"
  by (simp add: receive_def listing_os_def Let_def)

lemma xf_finish: "finish listing_os zr s = (Ok (), s)"
  by (simp add: finish_def listing_os_def)

lemma xf_unthrottled: "unthrottled (rc_bandwidth_limit xf_cfg) n"
  by (simp add: unthrottled_def xf_cfg_def throttle_panics_def)

lemma xf_server_cfg:
  "''laptop'' \<in> set [''laptop'']" "map_of (sv_clients hs_config) ''laptop'' = Some \<lparr>cc_allow = [''t''], cc_zfs_receive_opts = [''-F'']\<rparr>"
  "''t'' \<in> set (cc_allow \<lparr>cc_allow = [''t''], cc_zfs_receive_opts = [''-F'']\<rparr>)"
  by (simp_all add: hs_config_def)

lemma xf_recv: "receive listing_os ''t'' (cc_zfs_receive_opts \<lparr>cc_allow = [''t''], cc_zfs_receive_opts = [''-F'']\<rparr>) s =
    (Ok \<lparr>zr_argv = [''receive'', ''-s'', ''t'', ''-F''], zr_stdin = \<lparr>wbytes = [], wcap = None\<rparr>\<rparr>,
     s\<lparr>cmds := cmds s @ [[''receive'', ''-s'', ''t'', ''-F'']]\<rparr>)"
  by (simp add: xf_receive)

lemma xf_held: "place_server_transfer_hold listing_os gregorian ''t'' s =
    (Ok (), snd (place_server_transfer_hold listing_os gregorian ''t'' s))"
  using server_hold.never_fails [of listing_os gregorian "''t''" s] by (simp add: prod_eq_iff)

lemma xf_settled: "settled listing_os gregorian ''t'' (Ok ()) s
    (snd (place_server_transfer_hold listing_os gregorian ''t'' s)) ok_status"
  using xf_held by (simp add: settled_def)

lemma xf_connected:
  "connected xf_client (snd (send_on listing_os example_json ''d@zrb-2026-05-07T00:00:00Z'' xf_snaps xf_cfg ''t'' ''laptop''
      ''row'' True (\<lambda>k. False) xf_client))
    xf_server (snd (run_server_on listing_os gregorian example_json hs_config [''laptop''] (\<lambda>k. False) xf_server))"
proof -
  have d: "IncrementalSend ''d@zrb-2026-05-06T00:00:00Z'' \<noteq> AlreadyUpToDate" by simp
  have start: "outp xf_client = \<lparr>wbytes = [], wcap = None\<rparr>" "outp xf_server = \<lparr>wbytes = [], wcap = None\<rparr>"
    by (simp_all add: xf_client_def xf_server_def hs_state_def st0_def)
  show ?thesis
    by (rule exchange_connected [OF xf_messages xf_server_cfg xf_token xf_raw xf_hello xf_decide d xf_open _
          xf_unthrottled xf_recv _ xf_finish xf_settled start])
      (simp_all add: xf_client_def xf_server_def hs_state_def)
qed

lemma transfer_end_to_end_witness:
  "fst (send_on listing_os example_json ''d@zrb-2026-05-07T00:00:00Z'' xf_snaps xf_cfg ''t'' ''laptop'' ''row''
      True (\<lambda>k. False) xf_client) = Ok 3 \<and>
   fst (run_server_on listing_os gregorian example_json hs_config [''laptop''] (\<lambda>k. False) xf_server) = Ok ()"
proof -
  have d: "IncrementalSend ''d@zrb-2026-05-06T00:00:00Z'' \<noteq> AlreadyUpToDate" by simp
  show ?thesis
    using transfer_end_to_end [OF prod.collapse [symmetric] prod.collapse [symmetric] xf_connected xf_messages
        xf_server_cfg xf_token xf_raw xf_hello xf_decide d xf_open _ xf_unthrottled xf_recv _ xf_finish xf_settled]
    by simp
qed

text \<open>The same transfer from the connection on, and one whose bandwidth limit is zero.\<close>

definition xf_os :: "unit os" where
  "xf_os = listing_os\<lparr>ssh_spawn := \<lambda>argv w. (Inr (inp xf_client, outp xf_client), w)\<rparr>"

definition xf_task :: "u64 option \<Rightarrow> string \<times> remote_config \<times> string" where
  "xf_task limit = (''nas'', xf_cfg\<lparr>rc_bandwidth_limit := limit\<rparr>, ''t'')"

definition xf_ctx :: "u64 option \<Rightarrow> send_context" where
  "xf_ctx limit = task_context ''d@zrb-2026-05-07T00:00:00Z'' xf_snaps ''laptop'' True None (xf_task limit)"

lemma xf_connect: "connect xf_os cfg [] s = (Ok (), online (inp xf_client) (outp xf_client) (notices s) s)"
  by (simp add: connect_def xf_os_def listing_os_def online_def)

lemma xf_os_zfs:
  "command_output xf_os = command_output listing_os" "spawn_send xf_os = spawn_send listing_os"
  by (simp_all add: xf_os_def command_output_def spawn_send_def fun_eq_iff)

lemma xf_open_any:
  "open_stream xf_os (xf_cfg\<lparr>rc_bandwidth_limit := l\<rparr>) ''d@zrb-2026-05-07T00:00:00Z''
     (IncrementalSend ''d@zrb-2026-05-06T00:00:00Z'') s =
   open_stream listing_os xf_cfg ''d@zrb-2026-05-07T00:00:00Z'' (IncrementalSend ''d@zrb-2026-05-06T00:00:00Z'') s"
  by (simp add: open_stream_def estimate_size_def send_incremental_def xf_os_zfs)

lemma xf_exchange_opens:
  "\<exists>s'. exchange xf_os example_json (xf_ctx limit) (online (inp xf_client) (outp xf_client) n s) =
     stream_and_confirm example_json (xf_cfg\<lparr>rc_bandwidth_limit := limit\<rparr>) (row_key (xf_ctx limit)) True (\<lambda>k. False)
       \<lparr>rbytes = [1, 2, 3], rerr = None, rsizes = []\<rparr> 0 s' \<and> wcap (outp s') = None"
proof -
  note J = xf_messages [unfolded messages_survive_def, THEN conjunct1]
    xf_messages [unfolded messages_survive_def, THEN conjunct2, THEN conjunct1]
    xf_messages [unfolded messages_survive_def, THEN conjunct2, THEN conjunct2, THEN conjunct1]
    xf_messages [unfolded messages_survive_def, THEN conjunct2, THEN conjunct2, THEN conjunct2, THEN conjunct1]
  have cap: "wcap (outp (online (inp xf_client) (outp xf_client) n s)) = None"
    by (simp add: xf_client_def hs_state_def st0_def)
  have inp: "rbytes (inp (online (inp xf_client) (outp xf_client) n s)) =
      json_line (ser_server_status example_json) ok_status @ json_line (ser_server_hello example_json) hs_hello @
      json_line (ser_server_status example_json) ok_status"
    by (simp add: xf_client_def hs_state_def)
  have d: "IncrementalSend ''d@zrb-2026-05-06T00:00:00Z'' \<noteq> AlreadyUpToDate" by simp
  have exch: "exchange xf_os example_json (xf_ctx limit) = send_on xf_os example_json ''d@zrb-2026-05-07T00:00:00Z''
      xf_snaps (xf_cfg\<lparr>rc_bandwidth_limit := limit\<rparr>) ''t'' ''laptop'' (row_key (xf_ctx limit)) True (\<lambda>k. False)"
    by (simp add: exchange_def xf_ctx_def task_context_def xf_task_def cancel_for_def)
  show ?thesis
    unfolding exch
    by (intro exI conjI, rule send_on_opens [OF J cap inp xf_decide d trans [OF xf_open_any xf_open]])
      (use cap in simp)
qed

lemma xf_exchange_confirmed:
  "\<exists>s'. exchange xf_os example_json (xf_ctx None) (online (inp xf_client) (outp xf_client) n s) = (Ok 3, s')"
proof -
  let ?s = "online (inp xf_client) (outp xf_client) n s"
  have cap: "wcap (outp ?s) = None"
    by (simp add: xf_client_def hs_state_def st0_def)
  have inp: "rbytes (inp ?s) = json_line (ser_server_status example_json) ok_status @
      json_line (ser_server_hello example_json) hs_hello @ json_line (ser_server_status example_json) ok_status"
    by (simp add: xf_client_def hs_state_def)
  have exch: "exchange xf_os example_json (xf_ctx None) = send_on xf_os example_json ''d@zrb-2026-05-07T00:00:00Z''
      xf_snaps (xf_cfg\<lparr>rc_bandwidth_limit := None\<rparr>) ''t'' ''laptop'' (row_key (xf_ctx None)) True (\<lambda>k. False)"
    by (simp add: exchange_def xf_ctx_def task_context_def xf_task_def cancel_for_def)
  have thr: "unthrottled (rc_bandwidth_limit (xf_cfg\<lparr>rc_bandwidth_limit := None\<rparr>)) k" for k
    using xf_unthrottled [of k] by (simp add: xf_cfg_def)
  have "fst (exchange xf_os example_json (xf_ctx None) ?s) = Ok 3"
    unfolding exch using send_on_confirmed [OF xf_messages cap inp xf_decide _ trans [OF xf_open_any xf_open] _ thr]
    by simp
  then show ?thesis by (metis prod.collapse)
qed

lemma xf_hold: "hold_latest xf_os (xf_ctx None) s =
    (Ok (), s\<lparr>cmds := cmds s @ [[''list'', ''-t'', ''snapshot'', ''--json'', ''d''],
       ''holds'' # ''-H'' # hs_raw, [''hold'', transfer_tag ''nas'', ''d@zrb-2026-05-07T00:00:00Z'']]\<rparr>)"
  by (simp add: hold_latest_def place_transfer_hold_def Let_def find_held_snapshots_def list_snapshots_def
      io_result_def decode_list_json_def parse_json_def two_snapshots_def io_match_def io_bind_def io_return_def
      find_held_snapshots_in_def hold_then_release_def release_all_def hold_snapshot_def run_unit_def hs_raw_def
      run_def xf_os_def listing_os_def xf_ctx_def task_context_def xf_task_def dataset_of_def
      parse_held_snapshots_for_tag_def List.map_filter_def)

lemma xf_run:
  "\<exists>s'. send_to_remote xf_os example_json (xf_ctx None) st0 = (Ok (), s') \<and>
     [''hold'', transfer_tag ''nas'', ''d@zrb-2026-05-07T00:00:00Z''] \<in> set (cmds s')"
proof -
  have "sx_remote_cfg (xf_ctx None) = xf_cfg\<lparr>rc_bandwidth_limit := None\<rparr>"
    by (simp add: xf_ctx_def task_context_def xf_task_def)
  note con = xf_connect [of "sx_remote_cfg (xf_ctx None)" st0]
  obtain s2 where ex: "exchange xf_os example_json (xf_ctx None)
      (online (inp xf_client) (outp xf_client) (notices st0) st0) = (Ok 3, s2)"
    using xf_exchange_confirmed by blast
  have el: "io_elapsed xf_os s2 = (Ok (Fin 1), s2)"
    by (simp add: io_elapsed_def xf_os_def listing_os_def)
  show ?thesis
    using con ex el xf_hold [of s2]
    by (simp add: send_to_remote_def exchange_def [symmetric] hold_latest_def [symmetric] io_bind_def io_catch_def
        io_match_def io_return_def)
qed

lemma xf_panics: "\<exists>p s'. send_to_remote xf_os example_json (xf_ctx (Some 0)) st0 = (Panic p, s')"
proof -
  note con = xf_connect [of "sx_remote_cfg (xf_ctx (Some 0))" st0]
  obtain u where u: "exchange xf_os example_json (xf_ctx (Some 0))
      (online (inp xf_client) (outp xf_client) (notices st0) st0) =
     stream_and_confirm example_json (xf_cfg\<lparr>rc_bandwidth_limit := Some 0\<rparr>) (row_key (xf_ctx (Some 0))) True
       (\<lambda>k. False) \<lparr>rbytes = [1, 2, 3], rerr = None, rsizes = []\<rparr> 0 u" "wcap (outp u) = None"
    using xf_exchange_opens by blast
  obtain p s' where "stream_and_confirm example_json (xf_cfg\<lparr>rc_bandwidth_limit := Some 0\<rparr>)
      (row_key (xf_ctx (Some 0))) True (\<lambda>k. False) \<lparr>rbytes = [1, 2, 3], rerr = None, rsizes = []\<rparr> 0 u = (Panic p, s')"
    using stream_and_confirm_zero_rate [of "xf_cfg\<lparr>rc_bandwidth_limit := Some 0\<rparr>" u
        "\<lparr>rbytes = [1, 2, 3], rerr = None, rsizes = []\<rparr>"] u(2) by fastforce
  with con u(1) show ?thesis
    by (simp add: send_to_remote_def exchange_def [symmetric] io_bind_def io_catch_def io_match_def)
qed


lemma remote_event_protocol_witness:
  "\<exists>s' pre final. send_to_remote xf_os example_json (xf_ctx None) st0 = (Ok (), s') \<and>
     notices s' = pre @ [final] \<and> started_events (row_key (xf_ctx None)) pre"
proof -
  obtain s' where run: "send_to_remote xf_os example_json (xf_ctx None) st0 = (Ok (), s')"
    using xf_run by blast
  have "sx_progress (xf_ctx None)" "notices st0 = []"
    by (simp_all add: xf_ctx_def task_context_def xf_task_def st0_def)
  then show ?thesis
    using remote_event_protocol [OF _ run] run by auto
qed

lemma dispatch_runs_all_witness:
  "(\<exists>s'. dispatch_tasks xf_os example_json ''d@zrb-2026-05-07T00:00:00Z'' xf_snaps ''laptop''
     [xf_task None] True True None st0 = (Ok (), s')) \<and>
   (\<exists>p s'. send_to_remote xf_os example_json (xf_ctx (Some 0)) st0 = (Panic p, s') \<and>
     dispatch_tasks xf_os example_json ''d@zrb-2026-05-07T00:00:00Z'' xf_snaps ''laptop''
       [xf_task (Some 0)] False True None st0 = (Ok (), s'))"
proof
  obtain s' where "send_to_remote xf_os example_json (xf_ctx None) st0 = (Ok (), s')"
    using xf_run by blast
  then have "outcomes (task_runs xf_os example_json ''d@zrb-2026-05-07T00:00:00Z'' xf_snaps ''laptop'' True None
      [xf_task None]) st0 = ([Ok ()], s')"
    by (simp add: task_runs_def xf_ctx_def)
  from dispatch_runs_all [OF this, of True]
  show "\<exists>s'. dispatch_tasks xf_os example_json ''d@zrb-2026-05-07T00:00:00Z'' xf_snaps ''laptop''
     [xf_task None] True True None st0 = (Ok (), s')" by simp
next
  obtain p t where panic: "send_to_remote xf_os example_json (xf_ctx (Some 0)) st0 = (Panic p, t)"
    using xf_panics by blast
  then have "outcomes (task_runs xf_os example_json ''d@zrb-2026-05-07T00:00:00Z'' xf_snaps ''laptop'' True None
      [xf_task (Some 0)]) st0 = ([Panic p], t)"
    by (simp add: task_runs_def xf_ctx_def)
  from dispatch_runs_all [OF this, of False] panic
  show "\<exists>p s'. send_to_remote xf_os example_json (xf_ctx (Some 0)) st0 = (Panic p, s') \<and>
     dispatch_tasks xf_os example_json ''d@zrb-2026-05-07T00:00:00Z'' xf_snaps ''laptop''
       [xf_task (Some 0)] False True None st0 = (Ok (), s')" by simp
qed

lemma parallel_panic_is_success_witness:
  "\<exists>s'. dispatch_tasks xf_os example_json ''d@zrb-2026-05-07T00:00:00Z'' xf_snaps ''laptop''
     [xf_task (Some 0)] False True None st0 = (Ok (), s')"
proof -
  obtain p s' where "send_to_remote xf_os example_json (xf_ctx (Some 0)) st0 = (Panic p, s')"
    using xf_panics by blast
  then have "outcomes (task_runs xf_os example_json ''d@zrb-2026-05-07T00:00:00Z'' xf_snaps ''laptop'' True None
      [xf_task (Some 0)]) st0 = ([Panic p], s')"
    by (simp add: task_runs_def xf_ctx_def)
  from parallel_panic_is_success [OF this, of p] show ?thesis by simp
qed

end
