(* ===== verification/Resume.thy ===== *)
theory Resume
  imports Prune Server EndToEnd
begin

text \<open>
  An interrupted transfer, across the programs that see it: the server dates the partial receive
  (\<open>annotate_resume_if_needed\<close>, \<open>src/ops/server.rs\<close>), and a later \<open>zrb prune\<close> reads the date back
  and decides whether the receive may still be resumed (\<open>src/ops/prune.rs\<close>). What \<open>zfs\<close> is relied
  on for is a predicate: properties read back as they were set and nothing else changes them.
  Last, the send that resumes the receive (\<open>src/ops/send.rs\<close>), and the hold it places.
\<close>

section \<open>The properties of a pool\<close>

definition property_json :: "string \<Rightarrow> string \<Rightarrow> string \<Rightarrow> zfs_json" where
  "property_json dataset property v =
     \<lparr>zo_datasets = [(dataset, \<lparr>di_properties = [(property, \<lparr>pv_value = v\<rparr>)]\<rparr>)]\<rparr>"

text \<open>
  \<open>tok w\<close> and \<open>since w\<close> are the values of \<open>receive_resume_token\<close> and \<open>zrb:resume-since\<close> of the
  dataset in the state \<open>w\<close>, a dash when they are not set. \<open>zfs get\<close> prints them and changes
  nothing, \<open>zfs set\<close> replaces the second one, and the clock touches neither.
\<close>

definition keeps_properties :: "'w os \<Rightarrow> string \<Rightarrow> ('w \<Rightarrow> string) \<Rightarrow> ('w \<Rightarrow> string) \<Rightarrow> bool" where
  "keeps_properties S ds tok since \<longleftrightarrow>
     (\<forall>w. \<exists>out err. zfs_output S [''get'', ''--json'', ''receive_resume_token'', ds] w = (Exited True out err, w) \<and>
        parse_zfs_json S out = Inr (property_json ds ''receive_resume_token'' (tok w))) \<and>
     (\<forall>w. \<exists>out err. zfs_output S [''get'', ''--json'', ''zrb:resume-since'', ds] w = (Exited True out err, w) \<and>
        parse_zfs_json S out = Inr (property_json ds ''zrb:resume-since'' (since w))) \<and>
     (\<forall>w v. \<exists>out err w'. zfs_output S [''set'', ''zrb:resume-since='' @ v, ds] w = (Exited True out err, w') \<and>
        tok w' = tok w \<and> since w' = v) \<and>
     (\<forall>w. tok (snd (utc_now S w)) = tok w \<and> since (snd (utc_now S w)) = since w)"

definition reported :: "'w st \<Rightarrow> string list list \<Rightarrow> 'w st" where
  "reported s argvs = s\<lparr>cmds := cmds s @ argvs\<rparr>"

lemma env_reported [simp]: "env (reported s argvs) = env s" "cmds (reported s argvs) = cmds s @ argvs"
  by (simp_all add: reported_def)

lemma keeps_get_token:
  assumes "keeps_properties S ds tok since"
  shows "get_resume_token S ds s =
    (Ok (map_token_value (Some (tok (env s)))), reported s [[''get'', ''--json'', ''receive_resume_token'', ds]])"
proof -
  obtain out err where "zfs_output S [''get'', ''--json'', ''receive_resume_token'', ds] (env s) =
      (Exited True out err, env s)"
    "parse_zfs_json S out = Inr (property_json ds ''receive_resume_token'' (tok (env s)))"
    using assms unfolding keeps_properties_def by blast
  then show ?thesis
    by (simp add: get_resume_token_def run_def io_match_def io_bind_def io_result_def io_return_def
        decode_property_json_def parse_json_def property_json_def reported_def)
qed

lemma keeps_get_since:
  assumes "keeps_properties S ds tok since"
  shows "get_resume_since S C ds s =
    (Ok (map_since_value C (Some (since (env s)))), reported s [[''get'', ''--json'', ''zrb:resume-since'', ds]])"
proof -
  obtain out err where "zfs_output S [''get'', ''--json'', ''zrb:resume-since'', ds] (env s) =
      (Exited True out err, env s)"
    "parse_zfs_json S out = Inr (property_json ds ''zrb:resume-since'' (since (env s)))"
    using assms unfolding keeps_properties_def by blast
  then show ?thesis
    by (simp add: get_resume_since_def run_def io_match_def io_bind_def io_result_def io_return_def
        decode_property_json_def parse_json_def property_json_def reported_def)
qed

lemma keeps_set_since:
  assumes "keeps_properties S ds tok since"
  obtains s' where "set_resume_since S C ds t s = (Ok (), s')"
    and "cmds s' = cmds s @ [[''set'', ''zrb:resume-since='' @ to_rfc3339 C t, ds]]"
    and "tok (env s') = tok (env s)" and "since (env s') = to_rfc3339 C t"
proof -
  obtain out err w' where "zfs_output S [''set'', ''zrb:resume-since='' @ to_rfc3339 C t, ds] (env s) =
      (Exited True out err, w')" "tok w' = tok (env s)" "since w' = to_rfc3339 C t"
    using assms unfolding keeps_properties_def by blast
  then show thesis
    by (intro that [of "s\<lparr>env := w', cmds := cmds s @ [[''set'', ''zrb:resume-since='' @ to_rfc3339 C t, ds]]\<rparr>"])
      (simp_all add: set_resume_since_def run_unit_def run_def io_bind_def io_return_def)
qed

lemma keeps_now:
  assumes "keeps_properties S ds tok since"
  obtains s' where "io_now S s = (Ok (fst (utc_now S (env s))), s')" and "cmds s' = cmds s"
    and "tok (env s') = tok (env s)" and "since (env s') = since (env s)"
  using assms unfolding keeps_properties_def
  by (intro that [of "s\<lparr>env := snd (utc_now S (env s))\<rparr>"])
    (simp_all add: io_now_def Let_def case_prod_beta)

definition pending :: "string \<Rightarrow> bool" where
  "pending token \<longleftrightarrow> token \<noteq> ''-'' \<and> token \<noteq> ''none''"

section \<open>Annotation and pruning\<close>

text \<open>What pruning does first when a dated partial receive is pending.\<close>

lemma prune_pending:
  assumes pool: "keeps_properties S ds tok since"
    and token: "pending (tok (env u))" and dated: "map_since_value C (Some (since (env u))) = Some t"
    and now: "fst (utc_now S (env u)) = now"
  shows "signed_duration_since now t < int (unat days) * day_nanos \<Longrightarrow>
      fst (prune S C ds config (Some days) dry_run False u) =
        Ok \<lparr>pr_kept = [], pr_deleted = [], pr_resume_skipped = True, pr_hold_skipped = []\<rparr> \<and>
      cmds (snd (prune S C ds config (Some days) dry_run False u)) = cmds u @
        [[''get'', ''--json'', ''receive_resume_token'', ds], [''get'', ''--json'', ''zrb:resume-since'', ds]]"
    and "int (unat days) * day_nanos \<le> signed_duration_since now t \<Longrightarrow>
      \<exists>rest. cmds (snd (prune S C ds config (Some days) False False u)) = cmds u @
        [[''get'', ''--json'', ''receive_resume_token'', ds], [''get'', ''--json'', ''zrb:resume-since'', ds],
         [''receive'', ''-A'', ds]] @ rest"
proof -
  let ?u = "reported u [[''get'', ''--json'', ''receive_resume_token'', ds], [''get'', ''--json'', ''zrb:resume-since'', ds]]"
  obtain v where v: "io_now S ?u = (Ok now, v)" "cmds v = cmds ?u"
    using keeps_now [OF pool, of ?u] now by auto
  have tok: "map_token_value (Some (tok (env u))) \<noteq> None"
    using token by (simp add: map_token_value_def pending_def)
  have run: "prune S C ds config hold_days dry False u =
      prune_decided S C ds config dry True (resume_decision True (Some t) now hold_days) v" for hold_days dry
    using tok dated v(1)
    by (auto simp: prune_def io_bind_def keeps_get_token [OF pool] keeps_get_since [OF pool] reported_def Let_def)
  show "fst (prune S C ds config (Some days) dry_run False u) =
        Ok \<lparr>pr_kept = [], pr_deleted = [], pr_resume_skipped = True, pr_hold_skipped = []\<rparr> \<and>
      cmds (snd (prune S C ds config (Some days) dry_run False u)) = cmds u @
        [[''get'', ''--json'', ''receive_resume_token'', ds], [''get'', ''--json'', ''zrb:resume-since'', ds]]"
    if "signed_duration_since now t < int (unat days) * day_nanos"
    using that v(2) by (simp add: run resume_decision_def prune_decided_def io_return_def)
  show "\<exists>rest. cmds (snd (prune S C ds config (Some days) False False u)) = cmds u @
        [[''get'', ''--json'', ''receive_resume_token'', ds], [''get'', ''--json'', ''zrb:resume-since'', ds],
         [''receive'', ''-A'', ds]] @ rest"
    if "int (unat days) * day_nanos \<le> signed_duration_since now t"
  proof -
    obtain r v1 where abort: "abort_resume S ds v = (r, v1)" by fastforce
    have v1: "cmds v1 = cmds v @ [[''receive'', ''-A'', ds]]"
      using abort by (auto simp: abort_resume_def run_unit_def run_def io_bind_def io_return_def Let_def
          split: prod.splits proc_out.splits if_splits)
    let ?rest = "io_bind (clear_resume_since S ds) (\<lambda>_. prune_snapshots S C ds config False)"
    have "snd (prune S C ds config (Some days) False False u) = (case r of Ok _ \<Rightarrow> snd (?rest v1) | _ \<Rightarrow> v1)"
      using that abort by (simp add: run resume_decision_def prune_decided_def io_bind_def split: res.split)
    moreover have "emits (\<lambda>_. True) ?rest" by (intro emits_intro) simp_all
    ultimately show ?thesis
      using v(2) v1 emitsD [of "\<lambda>_. True" ?rest v1] by (cases r) (force simp: prod_eq_iff)+
  qed
qed

lemma annotate_undated:
  assumes pool: "keeps_properties S ds tok since"
    and "pending (tok (env s))" and "map_since_value C (Some (since (env s))) = None"
    and "fst (utc_now S (env s)) = t"
  obtains s' where "annotate_resume_if_needed S C ds s = (Ok (), s')" and "tok (env s') = tok (env s)"
    and "since (env s') = to_rfc3339 C t"
proof -
  let ?s = "reported s [[''get'', ''--json'', ''receive_resume_token'', ds], [''get'', ''--json'', ''zrb:resume-since'', ds]]"
  obtain s1 where s1: "io_now S ?s = (Ok t, s1)" "tok (env s1) = tok (env s)" "since (env s1) = since (env s)"
    using keeps_now [OF pool, of ?s] assms(4) by auto
  obtain s' where s': "set_resume_since S C ds t s1 = (Ok (), s')" "tok (env s') = tok (env s1)"
      "since (env s') = to_rfc3339 C t"
    using keeps_set_since [OF pool, of C t s1] by blast
  have "map_token_value (Some (tok (env s))) \<noteq> None"
    using assms(2) by (simp add: map_token_value_def pending_def)
  then have "annotate_resume_if_needed S C ds s = (Ok (), s')"
    using assms(3) s1(1) s'(1)
    by (auto simp: annotate_resume_if_needed_def io_bind_def io_context_def io_match_def io_return_def
        keeps_get_token [OF pool] keeps_get_since [OF pool] reported_def)
  with s' s1 show thesis by (intro that) simp_all
qed

text \<open>
  C13. An interrupted receive is protected for the configured time and no longer: the server dates
  the partial receive with its clock; a prune on the same pool within the hold period (as long as
  neither property was changed meanwhile) starts nothing but the two \<open>zfs get\<close> and reports that it
  waits; and a prune after it gives the partial receive up before it does anything else. The clock
  may go in any way, and chrono is assumed to read back the one date that it wrote.
\<close>

theorem interrupted_receive_protected:
  assumes "keeps_properties S ds tok since"
    and "pending (tok (env s))" and "since (env s) = ''-''"
    and "fst (utc_now S (env s)) = t"
    and "parse_rfc3339 C (to_rfc3339 C t) = Some t" and "to_rfc3339 C t \<noteq> ''-''"
    and "annotate_resume_if_needed S C ds s = (r, s')"
    and "tok (env u) = tok (env s')" and "since (env u) = since (env s')"
    and "fst (utc_now S (env u)) = now"
  shows "r = Ok () \<and>
    (if signed_duration_since now t < int (unat days) * day_nanos
     then fst (prune S C ds config (Some days) False False u) =
          Ok \<lparr>pr_kept = [], pr_deleted = [], pr_resume_skipped = True, pr_hold_skipped = []\<rparr> \<and>
        cmds (snd (prune S C ds config (Some days) False False u)) = cmds u @
          [[''get'', ''--json'', ''receive_resume_token'', ds], [''get'', ''--json'', ''zrb:resume-since'', ds]]
     else \<exists>rest. cmds (snd (prune S C ds config (Some days) False False u)) = cmds u @
          [[''get'', ''--json'', ''receive_resume_token'', ds], [''get'', ''--json'', ''zrb:resume-since'', ds],
           [''receive'', ''-A'', ds]] @ rest)"
proof -
  have "map_since_value C (Some (since (env s))) = None"
    using assms(3) by (simp add: map_since_value_def)
  from annotate_undated [OF assms(1,2) this assms(4)]
  have annotated: "r = Ok ()" "tok (env s') = tok (env s)" "since (env s') = to_rfc3339 C t"
    using assms(7) by auto
  then have "pending (tok (env u))" "map_since_value C (Some (since (env u))) = Some t"
    using assms(2,5,6,8,9) by (simp_all add: map_since_value_def)
  from prune_pending [OF assms(1) this assms(10)] annotated(1) show ?thesis by auto
qed

text \<open>
  C36. A stale date makes a fresh interruption expire at once: a server session never clears
  \<open>zrb:resume-since\<close>, a date that is already there is kept when the next receive is interrupted,
  and pruning then counts the hold period from that old date: it gives up a partial receive of
  just now when the old date is more than the hold period ago.
\<close>

theorem stale_date_expires_fresh_receive:
  assumes "keeps_properties S ds tok since"
    and "pending (tok (env s))" and "since (env s) \<noteq> ''-''"
    and "parse_rfc3339 C (since (env s)) = Some old"
    and "int (unat days) * day_nanos \<le> signed_duration_since (fst (utc_now S (env s))) old"
  shows "emits (\<lambda>c. hd c \<noteq> ''inherit'') (run_server_on S C J sv permitted cancel) \<and>
    (\<exists>s'. annotate_resume_if_needed S C ds s = (Ok (), s') \<and> env s' = env s \<and>
      (\<exists>rest. cmds (snd (prune S C ds config (Some days) False False s')) = cmds s' @
          [[''get'', ''--json'', ''receive_resume_token'', ds], [''get'', ''--json'', ''zrb:resume-since'', ds],
           [''receive'', ''-A'', ds]] @ rest))"
proof -
  let ?s' = "reported s [[''get'', ''--json'', ''receive_resume_token'', ds], [''get'', ''--json'', ''zrb:resume-since'', ds]]"
  have dated: "map_since_value C (Some (since (env s))) = Some old"
    using assms(3,4) by (simp add: map_since_value_def)
  have "map_token_value (Some (tok (env s))) \<noteq> None"
    using assms(2) by (simp add: map_token_value_def pending_def)
  then have "annotate_resume_if_needed S C ds s = (Ok (), ?s')"
    using dated
    by (auto simp: annotate_resume_if_needed_def io_bind_def io_context_def io_match_def io_return_def
        keeps_get_token [OF assms(1)] keeps_get_since [OF assms(1)] reported_def)
  moreover have "\<exists>rest. cmds (snd (prune S C ds config (Some days) False False ?s')) = cmds ?s' @
          [[''get'', ''--json'', ''receive_resume_token'', ds], [''get'', ''--json'', ''zrb:resume-since'', ds],
           [''receive'', ''-A'', ds]] @ rest"
    by (rule prune_pending(2) [OF assms(1) _ _ refl]) (use assms(2,5) dated in simp_all)
  moreover have "emits (\<lambda>c. hd c \<noteq> ''inherit'') (run_server_on S C J sv permitted cancel)"
    by (rule emits_mono [OF emits_run_server_on]) (auto simp: server_command_def)
  ultimately show ?thesis by (intro conjI exI [of _ ?s']) simp_all
qed

section \<open>Resuming\<close>

definition resume_argvs :: "send_context \<Rightarrow> string \<Rightarrow> string list set" where
  "resume_argvs ctx token =
     {[''send'', ''-n'', ''-v'', ''-t'', token] @ rc_zfs_send_opts (sx_remote_cfg ctx),
      [''send'', ''-t'', token] @ rc_zfs_send_opts (sx_remote_cfg ctx)}"

lemma emits_resumed_stream:
  assumes "decide_transfer hello (sx_local_snaps ctx) (sx_latest ctx) = Ok (ResumeSend token)"
  shows "emits (\<lambda>c. c \<in> resume_argvs ctx token)
    (send_after_hello S J (sx_latest ctx) (sx_local_snaps ctx) (sx_remote_cfg ctx) key progress cancel hello)"
proof -
  have "emits (\<lambda>c. c \<in> resume_argvs ctx token)
      (open_stream S (sx_remote_cfg ctx) (sx_latest ctx) (ResumeSend token))"
    by (auto simp: open_stream_def estimate_resume_size_def send_resume_def resume_argvs_def Let_def
        intro!: emits_intro)
  then show ?thesis
    by (auto simp: send_after_hello_def assms io_bind_res_Ok intro!: emits_intro split: sum.split)
qed

text \<open>
  C35. A resumed transfer holds the wrong snapshot: it sends what the token stands for, with
  commands that do not name the latest snapshot, and when the server confirms it, the Transfer
  Hold is placed on the latest snapshot all the same, although the remote need not have it.
\<close>

theorem resumed_transfer_holds_latest:
  assumes "connect S (sx_remote_cfg ctx) [] s = (Ok (), s1)"
    and "client_handshake J (sx_target ctx) (sx_client_name ctx) s1 = (Ok hello, s2)"
    and "decide_transfer hello (sx_local_snaps ctx) (sx_latest ctx) = Ok (ResumeSend token)"
    and "fst (send_on S J (sx_latest ctx) (sx_local_snaps ctx) (sx_remote_cfg ctx) (sx_target ctx)
      (sx_client_name ctx) (row_key ctx) (sx_progress ctx) (sx_cancel ctx) s1) = Ok n" and "n \<noteq> 0"
  shows "fst (send_to_remote S J ctx s) = Ok () \<and>
    (\<exists>sent rest. cmds (snd (send_to_remote S J ctx s)) = cmds s @ sent @ rest \<and>
      set sent \<subseteq> resume_argvs ctx token \<and>
      [''hold'', transfer_tag (sx_remote_name ctx), sx_latest ctx] \<in> set rest)"
proof -
  obtain s3 where ex: "exchange S J ctx s1 = (Ok n, s3)"
    using assms(4) unfolding exchange_def [symmetric] by (metis prod.collapse)
  have hs: "emits (\<lambda>c. False) (client_handshake J (sx_target ctx) (sx_client_name ctx))"
    by (intro emits_intro)
  have "cmds s2 = cmds s"
    using emitsD [OF hs assms(2)] connect_keeps [OF assms(1)] by (auto simp: list_all_iff)
  moreover have "send_after_hello S J (sx_latest ctx) (sx_local_snaps ctx) (sx_remote_cfg ctx) (row_key ctx)
      (sx_progress ctx) (sx_cancel ctx) hello s2 = (Ok n, s3)"
    using ex assms(2) by (simp add: exchange_def send_on_def io_bind_def)
  ultimately obtain sent where sent: "cmds s3 = cmds s @ sent" "set sent \<subseteq> resume_argvs ctx token"
    using emitsD [OF emits_resumed_stream [OF assms(3)]] by (metis list_all_iff subsetI)
  show ?thesis
    using confirmed_send_holds [OF assms(1) ex assms(5)] sent by auto
qed

lemma estimate_resume_total:
  obtains n s' where "estimate_resume_size S token opts s = (Ok n, s')"
    "cmds s' = cmds s @ [[''send'', ''-n'', ''-v'', ''-t'', token] @ opts]" "comms s' = comms s"
proof -
  let ?argv = "[''send'', ''-n'', ''-v'', ''-t'', token] @ opts"
  obtain out w where "zfs_output S ?argv (env s) = (out, w)" by fastforce
  then show thesis
    by (cases out) (auto intro!: that simp: estimate_resume_size_def command_output_def io_match_def io_return_def
        comms_def)
qed

lemma send_resume_panics:
  "trace_logged S \<Longrightarrow> \<not> is_char_boundary token (min (length token) 16) \<Longrightarrow>
     send_resume S token opts = io_panic slice_panic"
  by (simp add: send_resume_def)

text \<open>
  C40. The server's token can crash the client: with trace logging, a resume token that has a
  character across its 16th byte makes the transfer panic between the size estimate and the
  start of \<open>zfs send -t\<close>. Nothing is sent, no hold is touched, the server gets no answer to its
  greeting, and the observer hears nothing, neither a start nor an outcome.
\<close>

theorem traced_token_panics:
  assumes "trace_logged S" and "\<not> is_char_boundary token (min (length token) 16)"
    and "connect S (sx_remote_cfg ctx) [] s = (Ok (), s1)"
    and "client_handshake J (sx_target ctx) (sx_client_name ctx) s1 = (Ok hello, s2)"
    and "decide_transfer hello (sx_local_snaps ctx) (sx_latest ctx) = Ok (ResumeSend token)"
  shows "\<exists>s'. send_to_remote S J ctx s = (Panic slice_panic, s') \<and> notices s' = notices s \<and>
    cmds s' = cmds s @ [[''send'', ''-n'', ''-v'', ''-t'', token] @ rc_zfs_send_opts (sx_remote_cfg ctx)] \<and>
    outp s' = outp s2"
proof -
  let ?opts = "rc_zfs_send_opts (sx_remote_cfg ctx)"
  obtain n s3 where est: "estimate_resume_size S token ?opts s2 = (Ok n, s3)"
      "cmds s3 = cmds s2 @ [[''send'', ''-n'', ''-v'', ''-t'', token] @ ?opts]" "comms s3 = comms s2"
    by (rule estimate_resume_total)
  have hs: "emits (\<lambda>c. False) (client_handshake J (sx_target ctx) (sx_client_name ctx))"
    by (intro emits_intro)
  have kept: "cmds s2 = cmds s" "notices s2 = notices s"
    using emitsD [OF hs assms(4)] connect_keeps [OF assms(3)] preservesD [OF notices_client_handshake assms(4)]
    by (auto simp: list_all_iff)
  have out: "outp s3 = outp s2" "notices s3 = notices s2"
    using est(3) by (simp_all add: comms_def)
  have opened: "open_stream S (sx_remote_cfg ctx) (sx_latest ctx) (ResumeSend token) s2 = (Panic slice_panic, s3)"
    using est(1) by (simp add: open_stream_def send_resume_panics [OF assms(1,2)] io_bind_def io_context_def
        io_match_def io_panic_def)
  have "send_after_hello S J (sx_latest ctx) (sx_local_snaps ctx) (sx_remote_cfg ctx) (row_key ctx)
      (sx_progress ctx) (sx_cancel ctx) hello s2 = (Panic slice_panic, s3)"
    by (simp add: send_after_hello_def assms(5) io_bind_res_Ok)
      (simp add: io_bind_def io_catch_def io_match_def opened)
  then have "exchange S J ctx s1 = (Panic slice_panic, s3)"
    using assms(4) by (simp add: exchange_def send_on_def io_bind_def)
  then have "send_to_remote S J ctx s = (Panic slice_panic, s3)"
    using assms(3) by (cases rule: send_to_remote_run [of S ctx s J]) auto
  then show ?thesis using est kept out by simp
qed

section \<open>Witnesses\<close>

text \<open>A pool with one dataset: its token, its date and the clock.\<close>

definition dated_pool :: "(string \<times> string \<times> datetime) os" where
  "dated_pool =
     \<lparr>zfs_output = (\<lambda>argv (token, date, clock).
        case argv of
          [verb, arg, property, ds] \<Rightarrow>
            (Exited True (property @ newline # ds @ newline # (if property = ''zrb:resume-since'' then date else token)) [],
             (token, date, clock))
        | [verb, arg, ds] \<Rightarrow>
            (Exited True [] [],
             (token, if verb = ''set'' then drop (length ''zrb:resume-since='') arg else date, clock))
        | _ \<Rightarrow> (Exited True [] [], (token, date, clock))),
      zfs_spawn_send = (\<lambda>argv w. (Inl ''none'', w)),
      zfs_receive_spawn = (\<lambda>argv w. (Inl ''none'', w)),
      zfs_receive_finish = (\<lambda>argv bs w. (SpawnFailed ''none'', w)),
      utc_now = (\<lambda>(token, date, clock). (clock, (token, date, clock))),
      parse_zfs_json = (\<lambda>txt. case splitn 3 newline txt of
          [property, ds, v] \<Rightarrow> Inr (property_json ds property v) | _ \<Rightarrow> Inl ''no json''),
      ssh_spawn = (\<lambda>argv w. (Inl ''none'', w)),
      elapsed_secs = (\<lambda>w. (Fin 1, w)),
      trace_logged = False\<rparr>"

lemma dated_pool_keeps: "keeps_properties dated_pool ''t'' fst (\<lambda>w. fst (snd w))"
proof -
  have lines: "splitn 3 newline (''receive_resume_token'' @ newline # ''t'' @ newline # v) =
        [''receive_resume_token'', ''t'', v]"
      "splitn 3 newline (''zrb:resume-since'' @ newline # ''t'' @ newline # v) = [''zrb:resume-since'', ''t'', v]" for v
    by (simp_all add: splitn_3)
  then show ?thesis
    unfolding keeps_properties_def dated_pool_def by (simp add: case_prod_beta)
qed

definition pool_state :: "string \<Rightarrow> string \<Rightarrow> datetime \<Rightarrow> (string \<times> string \<times> datetime) st" where
  "pool_state token date clock = \<lparr>env = (token, date, clock), cmds = [], inp = inp st0, outp = outp st0, notices = []\<rparr>"

text \<open>Interrupted on the 5th, pruned on the 8th with a hold of seven days.\<close>

lemma interrupted_receive_protected_witness:
  "\<exists>s'. annotate_resume_if_needed dated_pool gregorian ''t'' (pool_state ''1-abc'' ''-'' (DateTime 1777939200000000000)) =
      (Ok (), s') \<and>
    fst (prune dated_pool gregorian ''t'' prune_cfg (Some 7) False False
      (pool_state ''1-abc'' (fst (snd (env s'))) (DateTime 1778198400000000000))) =
    Ok \<lparr>pr_kept = [], pr_deleted = [], pr_resume_skipped = True, pr_hold_skipped = []\<rparr>"
proof -
  let ?s = "pool_state ''1-abc'' ''-'' (DateTime 1777939200000000000)"
  have date: "parse_rfc3339 gregorian (to_rfc3339 gregorian (DateTime 1777939200000000000)) =
      Some (DateTime 1777939200000000000)" "to_rfc3339 gregorian (DateTime 1777939200000000000) \<noteq> ''-''"
    by (simp_all add: calendar_eval)
  obtain r s' where run: "annotate_resume_if_needed dated_pool gregorian ''t'' ?s = (r, s')" by fastforce
  have s: "pending (fst (env ?s))" "fst (snd (env ?s)) = ''-''"
      "fst (utc_now dated_pool (env ?s)) = DateTime 1777939200000000000"
    by (simp_all add: pool_state_def pending_def dated_pool_def)
  have "fst (env s') = ''1-abc''"
    using annotate_undated [OF dated_pool_keeps s(1) _ s(3), of gregorian] run s(2)
    by (auto simp: map_since_value_def pool_state_def)
  then show ?thesis
    using interrupted_receive_protected [OF dated_pool_keeps s date run,
        of "pool_state ''1-abc'' (fst (snd (env s'))) (DateTime 1778198400000000000)"
        "DateTime 1778198400000000000" 7 prune_cfg] run
    by (simp add: pool_state_def dated_pool_def signed_duration_since_def day_nanos_def)
qed

text \<open>The incremental send of \<open>EndToEnd\<close>, to a server that says it has a token.\<close>

definition token_hello :: "string \<Rightarrow> server_hello" where
  "token_hello tok = hs_hello\<lparr>sh_resume_token := Some tok\<rparr>"

definition token_client :: "string \<Rightarrow> unit st" where
  "token_client tok = hs_state (json_line (ser_server_status example_json) ok_status @
     json_line (ser_server_hello example_json) (token_hello tok) @ json_line (ser_server_status example_json) ok_status)"

definition token_os :: "string \<Rightarrow> unit os" where
  "token_os tok = listing_os\<lparr>ssh_spawn := \<lambda>argv w. (Inr (inp (token_client tok), outp (token_client tok)), w)\<rparr>"

abbreviation resumable_hello :: server_hello where "resumable_hello \<equiv> token_hello ''1-abc''"
abbreviation resume_client :: "unit st" where "resume_client \<equiv> token_client ''1-abc''"
abbreviation resume_os :: "unit os" where "resume_os \<equiv> token_os ''1-abc''"

lemma resume_messages: "messages_survive example_json (hello_request ''laptop'' ''t'') resumable_hello ok_status"
proof -
  have "json_round_trip (ser_server_hello example_json) (de_server_hello example_json) resumable_hello"
    by (simp add: json_round_trip_def json_eval utf8_valid_def hs_hello_def CARGO_PKG_VERSION_def token_hello_def)
  then show ?thesis using xf_messages unfolding messages_survive_def by blast
qed

lemma resume_open:
  "open_stream resume_os (xf_cfg\<lparr>rc_bandwidth_limit := None\<rparr>) latest (ResumeSend tok) s =
     (Ok (\<lparr>rbytes = [1, 2, 3], rerr = None, rsizes = []\<rparr>, 0),
      s\<lparr>cmds := cmds s @ [[''send'', ''-n'', ''-v'', ''-t'', tok], [''send'', ''-t'', tok]]\<rparr>)"
proof -
  have "parse_estimated_size [newline] = Inl LineMissing"
    by code_simp
  then show ?thesis
    by (simp add: open_stream_def xf_cfg_def estimate_resume_size_def command_output_def token_os_def listing_os_def
        send_resume_def spawn_send_def io_bind_def io_match_def io_context_def io_return_def
        estimate_from_output_def)
qed

lemma resumed_transfer_holds_latest_witness:
  "\<exists>sent rest. cmds (snd (send_to_remote resume_os example_json (xf_ctx None) st0)) = sent @ rest \<and>
     set sent \<subseteq> {[''send'', ''-n'', ''-v'', ''-t'', ''1-abc''], [''send'', ''-t'', ''1-abc'']} \<and>
     [''hold'', transfer_tag ''nas'', ''d@zrb-2026-05-07T00:00:00Z''] \<in> set rest"
proof -
  let ?s = "online (inp resume_client) (outp resume_client) (notices st0) st0"
  let ?cfg = "xf_cfg\<lparr>rc_bandwidth_limit := None\<rparr>"
  note J = resume_messages [unfolded messages_survive_def]
  have ctx: "sx_latest (xf_ctx None) = ''d@zrb-2026-05-07T00:00:00Z''" "sx_local_snaps (xf_ctx None) = xf_snaps"
    "sx_remote_cfg (xf_ctx None) = ?cfg" "sx_target (xf_ctx None) = ''t''" "sx_client_name (xf_ctx None) = ''laptop''"
    "sx_cancel (xf_ctx None) = (\<lambda>k. False)" "sx_progress (xf_ctx None)" "sx_remote_name (xf_ctx None) = ''nas''"
    by (simp_all add: xf_ctx_def task_context_def xf_task_def cancel_for_def)
  have cap: "wcap (outp ?s) = None" by (simp add: token_client_def hs_state_def st0_def)
  have inp: "rbytes (inp ?s) = json_line (ser_server_status example_json) ok_status @
      json_line (ser_server_hello example_json) resumable_hello @ json_line (ser_server_status example_json) ok_status"
    by (simp add: token_client_def hs_state_def)
  have con: "connect resume_os ?cfg [] st0 = (Ok (), ?s)"
    by (simp add: connect_def token_os_def listing_os_def online_def)
  obtain s2 where hs: "client_handshake example_json ''t'' ''laptop'' ?s = (Ok resumable_hello, s2)"
    using client_handshake_accepts [of example_json "''laptop''" "''t''" resumable_hello ?s, OF _ _ _ cap inp] J by blast
  have d: "decide_transfer resumable_hello xf_snaps ''d@zrb-2026-05-07T00:00:00Z'' = Ok (ResumeSend ''1-abc'')"
    by (simp add: decide_transfer_def token_hello_def hs_hello_def suffix_of_def)
  have thr: "unthrottled (rc_bandwidth_limit ?cfg) k" for k
    using xf_unthrottled [of k] by (simp add: xf_cfg_def)
  have ex: "fst (send_on resume_os example_json ''d@zrb-2026-05-07T00:00:00Z'' xf_snaps ?cfg ''t'' ''laptop''
      (row_key (xf_ctx None)) True (\<lambda>k. False) ?s) = Ok 3"
    using send_on_confirmed [OF resume_messages cap inp d _ resume_open _ thr] by simp
  show ?thesis
    using resumed_transfer_holds_latest [of resume_os "xf_ctx None" st0 ?s example_json resumable_hello s2 "''1-abc''" 3]
      con hs d ex by (simp add: ctx resume_argvs_def xf_cfg_def st0_def)
qed

definition split_token :: string where
  "split_token = ''1-abcdefghijklm'' @ [CHR 0xC3, CHR 0xA9, CHR ''x'']"

lemma traced_token_panics_witness:
  "\<exists>s'. send_to_remote (token_os split_token\<lparr>trace_logged := True\<rparr>) example_json (xf_ctx None) st0 =
      (Panic slice_panic, s') \<and> cmds s' = [[''send'', ''-n'', ''-v'', ''-t'', split_token]]"
proof -
  let ?S = "token_os split_token\<lparr>trace_logged := True\<rparr>"
  let ?s = "online (inp (token_client split_token)) (outp (token_client split_token)) (notices st0) st0"
  have "utf8_ok [195, 169, 120, 34, 125]"
    by (simp add: utf8_ok.simps [of "[195, 169, 120, 34, 125]"] utf8_len_def cont_byte_def)
  then have hello: "json_round_trip (ser_server_hello example_json) (de_server_hello example_json) (token_hello split_token)"
    by (simp add: json_round_trip_def json_eval utf8_valid_def hs_hello_def CARGO_PKG_VERSION_def token_hello_def
        split_token_def)
  have cap: "wcap (outp ?s) = None" by (simp add: token_client_def hs_state_def st0_def)
  have inp: "rbytes (inp ?s) = json_line (ser_server_status example_json) ok_status @
      json_line (ser_server_hello example_json) (token_hello split_token) @
      json_line (ser_server_status example_json) ok_status"
    by (simp add: token_client_def hs_state_def)
  obtain s2 where hs: "client_handshake example_json ''t'' ''laptop'' ?s = (Ok (token_hello split_token), s2)"
    using client_handshake_accepts [of example_json "''laptop''" "''t''" "token_hello split_token" ?s, OF _ _ hello cap inp]
      resume_messages [unfolded messages_survive_def] by blast
  have con: "connect ?S (sx_remote_cfg (xf_ctx None)) [] st0 = (Ok (), ?s)"
    by (simp add: connect_def token_os_def listing_os_def online_def)
  have d: "decide_transfer (token_hello split_token) xf_snaps ''d@zrb-2026-05-07T00:00:00Z'' = Ok (ResumeSend split_token)"
    by (simp add: decide_transfer_def token_hello_def hs_hello_def suffix_of_def)
  have cut: "\<not> is_char_boundary split_token (min (length split_token) 16)"
    by (simp add: is_char_boundary_def split_token_def char_start_def)
  have ctx: "sx_latest (xf_ctx None) = ''d@zrb-2026-05-07T00:00:00Z''" "sx_local_snaps (xf_ctx None) = xf_snaps"
    "rc_zfs_send_opts (sx_remote_cfg (xf_ctx None)) = []" "sx_target (xf_ctx None) = ''t''"
    "sx_client_name (xf_ctx None) = ''laptop''"
    by (simp_all add: xf_ctx_def task_context_def xf_task_def xf_cfg_def)
  show ?thesis
    using traced_token_panics [OF _ cut con, of example_json "token_hello split_token" s2] hs d
    by (simp add: ctx st0_def) blast
qed

lemma stale_date_expires_fresh_receive_witness:
  "\<exists>s' rest. annotate_resume_if_needed dated_pool gregorian ''t''
      (pool_state ''1-abc'' ''2026-05-05T00:00:00Z'' (DateTime 1778630400000000000)) = (Ok (), s') \<and>
    cmds (snd (prune dated_pool gregorian ''t'' prune_cfg (Some 7) False False s')) = cmds s' @
      [[''get'', ''--json'', ''receive_resume_token'', ''t''], [''get'', ''--json'', ''zrb:resume-since'', ''t''],
       [''receive'', ''-A'', ''t'']] @ rest"
proof -
  let ?s = "pool_state ''1-abc'' ''2026-05-05T00:00:00Z'' (DateTime 1778630400000000000)"
  have s: "pending (fst (env ?s))" "fst (snd (env ?s)) \<noteq> ''-''"
      "parse_rfc3339 gregorian (fst (snd (env ?s))) = Some (DateTime 1777939200000000000)"
      "int (unat (7 :: u32)) * day_nanos \<le>
         signed_duration_since (fst (utc_now dated_pool (env ?s))) (DateTime 1777939200000000000)"
    by (simp_all add: pool_state_def pending_def dated_pool_def calendar_eval signed_duration_since_def)
  from stale_date_expires_fresh_receive [OF dated_pool_keeps s]
  show ?thesis by blast
qed

end
