(* ===== verification/Protection.thy ===== *)
theory Protection
  imports Prune EndToEnd
begin

text \<open>
  Why \<open>zrb\<close> holds snapshots: a transfer leaves a hold on the snapshot that was sent
  (\<open>src/ops/send.rs\<close>), pruning skips what is held (\<open>src/ops/prune.rs\<close>), and so the next transfer
  finds the snapshot that it has in common with the remote and can be incremental. The theory
  follows this across the programs. What \<open>zfs\<close> is relied on for is a predicate on the outside
  world: the set of holds and the set of snapshots, and how the commands read and change them.
\<close>

section \<open>The pool\<close>

definition exited_ok :: "proc_out \<Rightarrow> bool" where
  "exited_ok out = (case out of SpawnFailed e \<Rightarrow> False | Exited success stdout stderr \<Rightarrow> success)"

text \<open>What a command that succeeds does to the set of snapshots; \<open>hold_effect\<close> is the same for the holds.\<close>

definition snapshot_effect :: "string list \<Rightarrow> string set \<Rightarrow> string set" where
  "snapshot_effect argv N =
     (case argv of
        [c, x] \<Rightarrow> if c = ''destroy'' then N - {x} else if c = ''snapshot'' then insert x N else N
      | _ \<Rightarrow> N)"

text \<open>Names are separated by tabs and newlines in what \<open>zfs\<close> prints.\<close>

definition plain_name :: "string \<Rightarrow> bool" where
  "plain_name x \<longleftrightarrow> tab \<notin> set x \<and> newline \<notin> set x"

text \<open>
  \<open>H w\<close> are the holds, as pairs of a snapshot and a tag, and \<open>N w\<close> the snapshots in the state \<open>w\<close>.
  A command that succeeds has its effect, and one that fails has none; a snapshot that exists can
  be held, unless it is held with the tag already; \<open>zfs holds\<close> prints the holds of the
  snapshots it is given, and \<open>zfs list\<close> a dataset's snapshots; nothing else changes the two sets.
\<close>

definition faithful_pool :: "'w os \<Rightarrow> ('w \<Rightarrow> (string \<times> string) set) \<Rightarrow> ('w \<Rightarrow> string set) \<Rightarrow> bool" where
  "faithful_pool S H N \<longleftrightarrow>
     (\<forall>argv w. H (snd (zfs_output S argv w)) =
          (if exited_ok (fst (zfs_output S argv w)) then hold_effect argv (H w) else H w) \<and>
        N (snd (zfs_output S argv w)) =
          (if exited_ok (fst (zfs_output S argv w)) then snapshot_effect argv (N w) else N w)) \<and>
     (\<forall>tag x w. x \<in> N w \<longrightarrow> exited_ok (fst (zfs_output S [''hold'', tag, x] w)) \<or> (x, tag) \<in> H w) \<and>
     (\<forall>xs w out err. fst (zfs_output S (''holds'' # ''-H'' # xs) w) = Exited True out err \<longrightarrow>
        (\<forall>x \<in> set xs. \<forall>tag. plain_name x \<and> plain_name tag \<and> (x, tag) \<in> H w \<longrightarrow> (x, tag) \<in> set (hold_pairs out))) \<and>
     (\<forall>x w. x \<in> N w \<and> plain_name x \<longrightarrow>
        (\<exists>out err j. fst (zfs_output S [''list'', ''-t'', ''snapshot'', ''--json'', dataset_of x] w) = Exited True out err \<and>
           parse_zfs_json S out = Inr j \<and> x \<in> fst ` set (zo_datasets j))) \<and>
     (\<forall>ds w out err j x. fst (zfs_output S [''list'', ''-t'', ''snapshot'', ''--json'', ds] w) = Exited True out err \<and>
        parse_zfs_json S out = Inr j \<and> x \<in> fst ` set (zo_datasets j) \<and> CHR ''@'' \<in> set x \<longrightarrow>
        x \<in> N w \<and> dataset_of x = ds) \<and>
     (\<forall>w. H (snd (utc_now S w)) = H w \<and> N (snd (utc_now S w)) = N w) \<and>
     (\<forall>w. H (snd (elapsed_secs S w)) = H w \<and> N (snd (elapsed_secs S w)) = N w) \<and>
     (\<forall>argv w. H (snd (ssh_spawn S argv w)) = H w \<and> N (snd (ssh_spawn S argv w)) = N w) \<and>
     (\<forall>argv w. H (snd (zfs_spawn_send S argv w)) = H w \<and> N (snd (zfs_spawn_send S argv w)) = N w)"

section \<open>Operations that keep a property of the pool\<close>

text \<open>
  \<open>guards I P m\<close>: \<open>m\<close> keeps the invariant \<open>I\<close> of the outside world, and while it holds all that
  \<open>m\<close> starts satisfies \<open>P\<close>.
\<close>

definition guards :: "('w \<Rightarrow> bool) \<Rightarrow> (string list \<Rightarrow> bool) \<Rightarrow> ('w, 'a) io \<Rightarrow> bool" where
  "guards I P m \<longleftrightarrow> (\<forall>s r s'. m s = (r, s') \<longrightarrow> I (env s) \<longrightarrow>
     I (env s') \<and> (\<exists>cs. cmds s' = cmds s @ cs \<and> list_all P cs))"

named_theorems guards_intro

lemma guardsD:
  assumes "guards I P m" "m s = (r, s')" "I (env s)"
  obtains cs where "I (env s')" "cmds s' = cmds s @ cs" "list_all P cs"
  using assms unfolding guards_def by blast

lemma guards_emits:
  assumes "\<And>s. I (env s) \<Longrightarrow> I (env (snd (m s)))" "emits P m"
  shows "guards I P m"
  unfolding guards_def
proof (intro allI impI)
  fix s r s' assume "m s = (r, s')" "I (env s)"
  with assms(1) [of s] emitsD [OF assms(2)] show "I (env s') \<and> (\<exists>cs. cmds s' = cmds s @ cs \<and> list_all P cs)"
    by (metis snd_conv)
qed

lemma guards_pure [guards_intro]:
  "guards I P (io_return a)" "guards I P (io_fail e)" "guards I P (io_panic p)" "guards I P (io_res r)"
  "guards I P (io_notice n)"
  by (rule guards_emits, simp add: io_return_def io_fail_def io_panic_def io_res_def io_notice_def,
      intro emits_intro)+

lemma guards_match_result:
  assumes "guards I P m" "\<And>s a s'. m s = (Ok a, s') \<Longrightarrow> I (env s) \<Longrightarrow> guards I P (f a)"
    "\<And>e. guards I P (g e)"
  shows "guards I P (io_match m f g)"
  unfolding guards_def
proof (intro allI impI)
  fix s r s' assume run: "io_match m f g s = (r, s')" and I: "I (env s)"
  obtain r1 s1 where m: "m s = (r1, s1)" by fastforce
  obtain cs where cs: "I (env s1)" "cmds s1 = cmds s @ cs" "list_all P cs"
    using guardsD [OF assms(1) m I] .
  show "I (env s') \<and> (\<exists>cs. cmds s' = cmds s @ cs \<and> list_all P cs)"
  proof (cases r1)
    case (Ok a)
    then have "f a s1 = (r, s')" using run m by (simp add: io_match_def)
    from guardsD [OF assms(2) [OF m [unfolded Ok] I] this cs(1)] cs show ?thesis by fastforce
  next
    case (Err e)
    then have "g e s1 = (r, s')" using run m by (simp add: io_match_def)
    from guardsD [OF assms(3) this cs(1)] cs show ?thesis by fastforce
  next
    case (Panic p)
    then show ?thesis using run m cs by (auto simp: io_match_def)
  qed
qed

lemma guards_match [guards_intro]:
  "guards I P m \<Longrightarrow> (\<And>a. guards I P (f a)) \<Longrightarrow> (\<And>e. guards I P (g e)) \<Longrightarrow> guards I P (io_match m f g)"
  by (rule guards_match_result)

lemma guards_bind_result:
  "guards I P m \<Longrightarrow> (\<And>s a s'. m s = (Ok a, s') \<Longrightarrow> I (env s) \<Longrightarrow> guards I P (f a)) \<Longrightarrow> guards I P (io_bind m f)"
  unfolding io_bind_match by (rule guards_match_result) (auto intro: guards_intro)

lemma guards_bind [guards_intro]:
  "guards I P m \<Longrightarrow> (\<And>a. guards I P (f a)) \<Longrightarrow> guards I P (io_bind m f)"
  by (rule guards_bind_result)

lemma guards_context [guards_intro]: "guards I P m \<Longrightarrow> guards I P (io_context msg m)"
  by (auto simp: io_context_def intro!: guards_intro)

lemma guards_catch [guards_intro]: "guards I P m \<Longrightarrow> guards I P (io_catch m)"
  by (auto simp: io_catch_def intro!: guards_intro)

lemma guards_result [guards_intro]: "guards I P (io_result r)"
  by (auto simp: io_result_def intro!: guards_intro split: sum.split)

lemma guards_for [guards_intro]: "(\<And>x. x \<in> set xs \<Longrightarrow> guards I P (f x)) \<Longrightarrow> guards I P (io_for xs f)"
  by (induction xs) (auto intro!: guards_intro)

lemma guards_if [guards_intro]:
  "(b \<Longrightarrow> guards I P m) \<Longrightarrow> (\<not> b \<Longrightarrow> guards I P n) \<Longrightarrow> guards I P (if b then m else n)"
  by simp

lemma guards_case_prod: "(\<And>a b. guards I P (f a b)) \<Longrightarrow> guards I P (case v of (a, b) \<Rightarrow> f a b)"
  by (cases v) simp

lemma guards_run [guards_intro]:
  assumes "\<And>w. I w \<Longrightarrow> I (snd (zfs_output S argv w))" "P argv"
  shows "guards I P (run S argv)" "guards I P (run_unit S argv)" "guards I P (command_output S argv)"
proof -
  have "env (snd (run S argv s)) = snd (zfs_output S argv (env s))"
    "env (snd (command_output S argv s)) = snd (zfs_output S argv (env s))" for s
    by (auto simp: run_def command_output_def Let_def split: prod.split proc_out.split)
  then show "guards I P (run S argv)" "guards I P (command_output S argv)"
    using assms by (auto intro!: guards_emits emits_intro)
  then show "guards I P (run_unit S argv)"
    unfolding run_unit_def by (intro guards_intro)
qed

section \<open>A held snapshot\<close>

definition held :: "('w \<Rightarrow> (string \<times> string) set) \<Rightarrow> ('w \<Rightarrow> string set) \<Rightarrow> string \<Rightarrow> string \<Rightarrow> 'w \<Rightarrow> bool" where
  "held H N x tag w \<longleftrightarrow> (x, tag) \<in> H w \<and> x \<in> N w"

text \<open>What does not take the snapshot or its hold away.\<close>

definition spares :: "string \<Rightarrow> string \<Rightarrow> string list \<Rightarrow> bool" where
  "spares x tag argv \<longleftrightarrow> argv \<noteq> [''destroy'', x] \<and> argv \<noteq> [''release'', tag, x]"

lemma spares_effect:
  "spares x tag argv \<Longrightarrow> (x, tag) \<in> H \<Longrightarrow> (x, tag) \<in> hold_effect argv H"
  "argv \<noteq> [''destroy'', x] \<Longrightarrow> x \<in> N \<Longrightarrow> x \<in> snapshot_effect argv N"
  by (auto simp: spares_def hold_effect_def snapshot_effect_def split: list.split)

lemma pool_exists:
  assumes "faithful_pool S H N" "argv \<noteq> [''destroy'', x]" "x \<in> N w"
  shows "x \<in> N (snd (zfs_output S argv w))"
  using assms spares_effect(2) by (auto simp: faithful_pool_def)

lemma pool_held:
  assumes "faithful_pool S H N" "spares x tag argv" "held H N x tag w"
  shows "held H N x tag (snd (zfs_output S argv w))"
  using assms spares_effect by (auto simp: faithful_pool_def held_def spares_def)

lemma pool_now: "faithful_pool S H N \<Longrightarrow> H (snd (utc_now S w)) = H w \<and> N (snd (utc_now S w)) = N w"
  by (simp add: faithful_pool_def)

lemma pool_holds:
  assumes "faithful_pool S H N" "fst (zfs_output S (''holds'' # ''-H'' # xs) w) = Exited True out err"
    and "x \<in> set xs" "plain_name x" "plain_name tag" "(x, tag) \<in> H w"
  shows "(x, tag) \<in> set (hold_pairs out)"
proof -
  have "\<forall>xs w out err. fst (zfs_output S (''holds'' # ''-H'' # xs) w) = Exited True out err \<longrightarrow>
      (\<forall>x \<in> set xs. \<forall>tag. plain_name x \<and> plain_name tag \<and> (x, tag) \<in> H w \<longrightarrow> (x, tag) \<in> set (hold_pairs out))"
    using assms(1) unfolding faithful_pool_def by (elim conjE)
  with assms(2-) show ?thesis by blast
qed

lemma pool_listed:
  assumes "faithful_pool S H N" "x \<in> N w" "plain_name x"
  obtains out err j where
    "fst (zfs_output S [''list'', ''-t'', ''snapshot'', ''--json'', dataset_of x] w) = Exited True out err"
    "parse_zfs_json S out = Inr j" "x \<in> fst ` set (zo_datasets j)"
proof -
  have "\<forall>x w. x \<in> N w \<and> plain_name x \<longrightarrow>
      (\<exists>out err j. fst (zfs_output S [''list'', ''-t'', ''snapshot'', ''--json'', dataset_of x] w) = Exited True out err \<and>
         parse_zfs_json S out = Inr j \<and> x \<in> fst ` set (zo_datasets j))"
    using assms(1) unfolding faithful_pool_def by (elim conjE)
  with assms(2,3) that show thesis by blast
qed

lemma pool_listed_exists:
  assumes "faithful_pool S H N"
    and "fst (zfs_output S [''list'', ''-t'', ''snapshot'', ''--json'', ds] w) = Exited True out err"
    and "parse_zfs_json S out = Inr j" "x \<in> fst ` set (zo_datasets j)" "CHR ''@'' \<in> set x"
  shows "x \<in> N w \<and> dataset_of x = ds"
proof -
  have "\<forall>ds w out err j x. fst (zfs_output S [''list'', ''-t'', ''snapshot'', ''--json'', ds] w) = Exited True out err \<and>
        parse_zfs_json S out = Inr j \<and> x \<in> fst ` set (zo_datasets j) \<and> CHR ''@'' \<in> set x \<longrightarrow>
        x \<in> N w \<and> dataset_of x = ds"
    using assms(1) unfolding faithful_pool_def by (elim conjE)
  with assms(2-) show ?thesis by blast
qed

lemma guards_held_run:
  assumes "faithful_pool S H N" "spares x tag argv"
  shows "guards (held H N x tag) (spares x tag) (run S argv)"
    "guards (held H N x tag) (spares x tag) (run_unit S argv)"
  using pool_held [OF assms] assms(2) by (auto intro!: guards_intro)

lemma guards_held_now:
  "faithful_pool S H N \<Longrightarrow> guards (held H N x tag) P (io_now S)"
  using pool_now [of S H N] by (intro guards_emits emits_intro) (simp add: io_now_def held_def case_prod_beta)

section \<open>Pruning a pool with a held snapshot\<close>

lemma guards_destroy_loop:
  assumes "faithful_pool S H N" "x \<notin> set snaps"
  shows "guards (held H N x tag) (spares x tag) (destroy_loop S dry_run snaps dels)"
  using assms(2)
proof (induction snaps arbitrary: dels)
  case (Cons y snaps)
  then have "guards (held H N x tag) (spares x tag) (destroy_snapshot S y)"
    unfolding destroy_snapshot_def
    by (auto intro!: guards_intro guards_held_run [OF assms(1)] simp: spares_def)
  with Cons show ?case by (auto intro!: guards_intro)
qed (simp add: guards_intro)

text \<open>The holds that pruning asks for include the one in question.\<close>

lemma batch_holds_held:
  assumes "faithful_pool S H N" "held H N x tag (env s)" "plain_name x" "plain_name tag"
    and "batch_snapshot_holds S candidates s = (Ok m, s')" "x \<in> set candidates"
  shows "tag \<in> set (tags_of m x)"
proof -
  obtain out err where out: "fst (zfs_output S (''holds'' # ''-H'' # candidates) (env s)) = Exited True out err"
    and m: "m = read_holds out"
    using assms(5,6)
    by (auto simp: batch_snapshot_holds_def io_bind_Ok_iff run_def Let_def io_return_def case_prod_beta
        split: if_splits proc_out.splits)
  have "(x, tag) \<in> set (hold_pairs out)"
    using assms(2) by (intro pool_holds [OF assms(1) out assms(6,3,4)]) (simp add: held_def)
  then show ?thesis
    unfolding m tags_of_read_holds by force
qed

lemma guards_prune_snapshots:
  assumes "faithful_pool S H N" "plain_name x" "plain_name tag" "prefix ''zrb:'' tag"
  shows "guards (held H N x tag) (spares x tag) (prune_snapshots S C dataset config dry_run)"
proof -
  note run = guards_held_run [OF assms(1)]
  have list: "guards (held H N x tag) (spares x tag) (list_zrb S C dataset)"
    unfolding list_zrb_def list_snapshots_def by (auto intro!: guards_intro run simp: spares_def)
  have batch: "guards (held H N x tag) (spares x tag) (batch_snapshot_holds S candidates)" for candidates
    unfolding batch_snapshot_holds_def by (auto intro!: guards_intro run simp: spares_def)
  have rest: "guards (held H N x tag) (spares x tag)
      (io_bind (batch_snapshot_holds S candidates) (\<lambda>holds_map.
       let (to_delete, hold_skipped) = classify_candidates candidates holds_map
       in io_bind (destroy_loop S dry_run to_delete []) (\<lambda>dels.
          io_return \<lparr>pr_kept = keeps, pr_deleted = dels, pr_resume_skipped = False,
                     pr_hold_skipped = hold_skipped\<rparr>)))" for candidates keeps
  proof (rule guards_bind_result [OF batch])
    fix s m s' assume "batch_snapshot_holds S candidates s = (Ok m, s')" "held H N x tag (env s)"
    then have "x \<in> set candidates \<Longrightarrow> zrb_holds_from_tags (tags_of m x) \<noteq> []"
      using batch_holds_held [OF assms(1) _ assms(2,3)] assms(4)
      by (auto simp: zrb_holds_from_tags_def filter_empty_conv)
    then show "guards (held H N x tag) (spares x tag)
      (let (to_delete, hold_skipped) = classify_candidates candidates m
       in io_bind (destroy_loop S dry_run to_delete []) (\<lambda>dels.
          io_return \<lparr>pr_kept = keeps, pr_deleted = dels, pr_resume_skipped = False,
                     pr_hold_skipped = hold_skipped\<rparr>))"
      by (auto simp: classify_candidates_eq intro!: guards_intro guards_destroy_loop [OF assms(1)])
  qed
  show ?thesis
    unfolding prune_snapshots_def
    by (rule rest | rule list | rule guards_case_prod | rule guards_held_now [OF assms(1)] | rule guards_pure |
        rule guards_bind)+
qed

lemma guards_prune:
  assumes "faithful_pool S H N" "plain_name x" "plain_name tag" "prefix ''zrb:'' tag"
  shows "guards (held H N x tag) (spares x tag) (prune S C dataset config hold_days dry_run abort_res)"
proof -
  note run = guards_held_run [OF assms(1)] and now = guards_held_now [OF assms(1)]
  have "guards (held H N x tag) (spares x tag) (prune_decided S C dataset config dry_run hs d)" for hs d
    unfolding prune_decided_def abort_resume_def clear_resume_since_def
    by (cases d) (auto intro!: guards_intro run guards_prune_snapshots [OF assms] simp: spares_def)
  then show ?thesis
    unfolding prune_def get_resume_token_def get_resume_since_def Let_def
    by (auto intro!: guards_intro run now simp: spares_def)
qed

text \<open>
  C10. Pruning spares what is held: on a pool that behaves like \<open>zfs\<close>, a snapshot with a hold
  under a \<open>zrb:\<close> tag is not destroyed, and keeps its hold, whatever the Retention Policy says of
  it and whatever the options are, also when the run fails or panics.
\<close>

theorem prune_spares_held:
  assumes "faithful_pool S H N" and "(x, tag) \<in> H (env s)" and "x \<in> N (env s)"
    and "prefix ''zrb:'' tag" and "plain_name x" and "plain_name tag"
    and "prune S C dataset config hold_days dry_run abort_res s = (r, s')"
  shows "[''destroy'', x] \<notin> set (drop (length (cmds s)) (cmds s')) \<and> x \<in> N (env s') \<and> (x, tag) \<in> H (env s')"
proof -
  obtain cs where "held H N x tag (env s')" "cmds s' = cmds s @ cs" "list_all (spares x tag) cs"
    using guardsD [OF guards_prune [OF assms(1,5,6,4)] assms(7)] assms(2,3) by (auto simp: held_def)
  then show ?thesis by (auto simp: held_def list_all_iff spares_def)
qed

section \<open>Sending and what it leaves held\<close>

lemma hold_snapshot_held:
  assumes "faithful_pool S H N" "x \<in> N (env s)" "hold_snapshot S x tag s = (r, s')"
  shows "held H N x tag (env s')"
proof -
  let ?argv = "[''hold'', tag, x]"
  have env: "env s' = snd (zfs_output S ?argv (env s))"
    using assms(3)
    by (auto simp: hold_snapshot_def run_unit_def run_def io_bind_def io_return_def Let_def
        split: prod.splits proc_out.splits if_splits)
  have eff: "H (snd (zfs_output S ?argv w)) = (if exited_ok (fst (zfs_output S ?argv w)) then insert (x, tag) (H w) else H w)"
    for w using assms(1) by (simp add: faithful_pool_def hold_effect_def)
  have "exited_ok (fst (zfs_output S ?argv (env s))) \<or> (x, tag) \<in> H (env s)"
    using assms(1,2) by (simp add: faithful_pool_def)
  moreover have "x \<in> N (snd (zfs_output S ?argv (env s)))"
    by (rule pool_exists [OF assms(1) _ assms(2)]) simp
  ultimately show ?thesis
    by (auto simp: held_def env eff)
qed

lemma hold_then_release_held:
  assumes "faithful_pool S H N" "x \<in> N (env s)" "x \<notin> set olds"
  shows "held H N x tag (env (snd (hold_then_release S tag x olds s)))"
proof -
  obtain r s1 where r: "hold_snapshot S x tag s = (r, s1)" by fastforce
  have s1: "held H N x tag (env s1)" by (rule hold_snapshot_held [OF assms(1,2) r])
  have "guards (held H N x tag) (spares x tag) (release_all S tag olds)"
    unfolding release_all_def release_hold_def using assms(3)
    by (auto intro!: guards_intro guards_held_run [OF assms(1)] simp: spares_def split: err.split)
  then have "held H N x tag (env (snd (release_all S tag olds s1)))"
    using s1 by (metis guardsD prod.collapse)
  with r s1 show ?thesis
    by (cases r) (simp_all add: hold_then_release_def io_match_def io_return_def)
qed

lemma place_transfer_hold_held:
  assumes "faithful_pool S H N" "x \<in> N (env s)" "place_transfer_hold S dataset x remote s = (r, s')"
  shows "held H N x (transfer_tag remote) (env s')"
proof -
  let ?tag = "transfer_tag remote"
  let ?find = "io_match (find_held_snapshots S dataset ?tag) (\<lambda>v. io_return v) (\<lambda>e. io_return [])"
  have "guards (\<lambda>w. x \<in> N w) (\<lambda>_. True) ?find"
    unfolding find_held_snapshots_def list_snapshots_def find_held_snapshots_in_def
    by (auto intro!: guards_intro pool_exists [OF assms(1)])
  moreover obtain q s1 where find: "?find s = (q, s1)" by fastforce
  ultimately have s1: "x \<in> N (env s1)" using assms(2) by (auto elim: guardsD)
  obtain v where q: "q = Ok v"
    using find panics_commands(14) [of "\<lambda>_. False" S dataset ?tag]
    by (auto simp: io_match_def io_return_def panics_in_def split: prod.splits res.splits)
  have "hold_then_release S ?tag x (filter (\<lambda>s. s \<noteq> x) v) s1 = (r, s')"
    using assms(3) find by (simp add: place_transfer_hold_def Let_def io_bind_def q)
  with hold_then_release_held [OF assms(1) s1, of "filter (\<lambda>s. s \<noteq> x) v" ?tag] show ?thesis by simp
qed

text \<open>Nothing before the hold destroys a snapshot.\<close>

lemma guards_comms [guards_intro]:
  "guards I P (io_xmit g)" "guards I P (io_recv f)" "guards I P (notify progress e)"
  "guards I P (stream_out cfg key progress cancel zfs_out total_bytes)"
  by (rule guards_emits, auto simp: io_xmit_def io_recv_def stream_out_def Let_def intro!: emits_intro
      split: prod.split res.split)+

lemma guards_spawn:
  assumes "\<And>argv w. I w \<Longrightarrow> I (snd (ssh_spawn S argv w))" "\<And>argv w. I w \<Longrightarrow> I (snd (zfs_spawn_send S argv w))"
  shows "guards I (\<lambda>_. True) (connect S cfg extra)" "guards I (\<lambda>_. True) (spawn_send S argv)"
proof -
  have "env (snd (connect S cfg extra s)) = snd (ssh_spawn S (ssh_argv cfg extra) (env s))"
    "env (snd (spawn_send S argv s)) = snd (zfs_spawn_send S argv (env s))" for s
    by (auto simp: connect_def spawn_send_def Let_def split: prod.split sum.split)
  with assms show "guards I (\<lambda>_. True) (connect S cfg extra)" "guards I (\<lambda>_. True) (spawn_send S argv)"
    by (auto intro!: guards_emits emits_intro)
qed

lemma guards_exchange:
  assumes "\<And>argv w. I w \<Longrightarrow> I (snd (ssh_spawn S argv w))" "\<And>argv w. I w \<Longrightarrow> I (snd (zfs_spawn_send S argv w))"
    and keep: "\<And>args w. I w \<Longrightarrow> I (snd (zfs_output S (''send'' # args) w))"
  shows "guards I (\<lambda>_. True) (exchange S J ctx)"
proof -
  let ?P = "\<lambda>_ :: string list. True"
  have opens: "guards I ?P (open_stream S cfg latest d)" for cfg latest d
    unfolding open_stream_def estimate_size_def estimate_resume_size_def send_incremental_def send_resume_def Let_def
    by (cases d) (auto intro!: guards_intro guards_spawn [OF assms(1,2)] keep guards_case_prod split: sum.split)
  have confirm: "guards I ?P (stream_and_confirm J cfg key progress cancel zfs_out total_bytes)"
    for cfg key progress cancel zfs_out total_bytes
    unfolding stream_and_confirm_def by (auto intro!: guards_intro split: sum.split)
  show ?thesis
    unfolding exchange_def send_on_def client_handshake_def send_after_hello_def send_ready_def
    by (auto intro!: guards_intro opens confirm split: sum.split)
qed

lemma pool_spawns:
  assumes "faithful_pool S H N"
  shows "H (snd (ssh_spawn S argv w)) = H w" "N (snd (ssh_spawn S argv w)) = N w"
    "H (snd (zfs_spawn_send S argv w)) = H w" "N (snd (zfs_spawn_send S argv w)) = N w"
    "H (snd (elapsed_secs S w)) = H w" "N (snd (elapsed_secs S w)) = N w"
  using assms by (simp_all add: faithful_pool_def)

text \<open>The hold that a confirmed transfer leaves.\<close>

lemma send_leaves_held:
  assumes pool: "faithful_pool S H N" and "sx_latest ctx \<in> N (env s)"
    and "[''hold'', tag, x] \<in> set (drop (length (cmds s)) (cmds (snd (send_to_remote S J ctx s))))"
  shows "held H N (sx_latest ctx) (transfer_tag (sx_remote_name ctx)) (env (snd (send_to_remote S J ctx s)))"
proof -
  have ex: "emits (\<lambda>c. c \<noteq> [''hold'', tag, x]) (exchange S J ctx)"
    unfolding exchange_def by (rule emits_send_on) simp
  have keep: "guards (\<lambda>w. sx_latest ctx \<in> N w) (\<lambda>_. True) (connect S (sx_remote_cfg ctx) [])"
    "guards (\<lambda>w. sx_latest ctx \<in> N w) (\<lambda>_. True) (exchange S J ctx)"
    by (intro guards_spawn guards_exchange pool_exists [OF pool]; simp add: pool_spawns [OF pool])+
  show ?thesis
  proof (cases rule: send_to_remote_run [of S ctx s J])
    case (completed s1 s2 n w t s3)
    have "sx_latest ctx \<in> N (env s1)" using guardsD [OF keep(1) completed(1)] assms(2) by blast
    then have "sx_latest ctx \<in> N (env s2)" using guardsD [OF keep(2) completed(2)] by blast
    then have "sx_latest ctx \<in> N (env (s2\<lparr>env := w\<rparr>))"
      using pool by (simp add: completed(6) faithful_pool_def)
    from place_transfer_hold_held [OF pool this completed(4) [unfolded hold_latest_def]]
    show ?thesis by (simp add: completed(5))
  next
    case (up_to_date s1 s2 w)
    then show ?thesis
      using assms(3) emitsD [OF ex up_to_date(2)] connect_keeps [OF up_to_date(1)] by (auto simp: list_all_iff)
  next
    case (failed s1 s2 e w)
    then show ?thesis
      using assms(3) emitsD [OF ex failed(2)] connect_keeps [OF failed(1)] by (auto simp: list_all_iff)
  next
    case (panicked s1 s2 p)
    then show ?thesis
      using assms(3) emitsD [OF ex panicked(2)] connect_keeps [OF panicked(1)] by (auto simp: list_all_iff)
  next
    case (no_connection e s1)
    then show ?thesis using assms(3) connect_keeps [OF no_connection(1)] by simp
  qed
qed

section \<open>The chain of incremental transfers\<close>

lemma list_zrb_pool:
  assumes "faithful_pool S H N" "x \<in> N (env s)" "plain_name x" "is_zrb C x" "dataset_of x = ds"
  shows "\<exists>local s'. list_zrb S C ds s = (Ok local, s') \<and> x \<in> set local"
proof -
  obtain out err j where
    "fst (zfs_output S [''list'', ''-t'', ''snapshot'', ''--json'', ds] (env s)) = Exited True out err"
    "parse_zfs_json S out = Inr j" "x \<in> fst ` set (zo_datasets j)"
    using pool_listed [OF assms(1-3)] assms(5) by metis
  then have "\<exists>raw s'. list_snapshots S ds s = (Ok raw, s') \<and> x \<in> set raw"
    by (auto simp: list_snapshots_def run_def io_match_def io_result_def io_return_def decode_list_json_def
        parse_json_def Let_def case_prod_beta)
  with assms(4) show ?thesis
    by (auto simp: list_zrb_def io_bind_def io_return_def split: prod.splits)
qed

lemma decide_transfer_incremental:
  assumes "sh_head hello = Some h" "snap_name h = Some n" "sh_resume_token hello = None"
    and "x \<in> set local" "snap_name x = Some n"
  shows "decide_transfer hello local latest = Ok AlreadyUpToDate \<or>
    (\<exists>base \<in> set local. snap_name base = Some n \<and> decide_transfer hello local latest = Ok (IncrementalSend base))"
proof -
  obtain base where "find (\<lambda>s. snap_name s = Some n) local = Some base"
    using assms(4,5) by (cases "find (\<lambda>s. snap_name s = Some n) local") (auto simp: find_None_iff)
  moreover have "base \<in> set local" "snap_name base = Some n"
    using calculation by (auto simp: find_Some_iff)
  ultimately show ?thesis
    using assms(1-3) by (auto simp: decide_transfer_cases suffix_of_snap_name)
qed

text \<open>
  C4. The chain of incremental transfers does not break: after a transfer to a remote was
  confirmed, and whatever pruning the source then does (to any state in which the snapshots and
  holds of before are still there), the snapshot that was sent is not destroyed and still listed;
  and when the remote says that it is its newest one, the next transfer is nothing or an
  increment from it, never a full stream and never the error that the histories have diverged.
\<close>

theorem backup_chain_unbroken:
  assumes "faithful_pool S H N" and "sx_latest ctx \<in> N (env s)"
    and "[''hold'', transfer_tag (sx_remote_name ctx), sx_latest ctx] \<in>
      set (drop (length (cmds s)) (cmds (snd (send_to_remote S J ctx s))))"
    and "plain_name (sx_latest ctx)" and "plain_name (sx_remote_name ctx)" and "is_zrb C (sx_latest ctx)"
    and "H (env (snd (send_to_remote S J ctx s))) \<subseteq> H (env u)" and "N (env (snd (send_to_remote S J ctx s))) \<subseteq> N (env u)"
    and "prune S C (dataset_of (sx_latest ctx)) config hold_days dry_run abort_res u = (r, u')"
    and "sh_head hello = Some h" and "snap_name h = snap_name (sx_latest ctx)" and "sh_resume_token hello = None"
  shows "[''destroy'', sx_latest ctx] \<notin> set (drop (length (cmds u)) (cmds u')) \<and>
    (\<exists>local v. list_zrb S C (dataset_of (sx_latest ctx)) u' = (Ok local, v) \<and> sx_latest ctx \<in> set local \<and>
      (decide_transfer hello local (last local) = Ok AlreadyUpToDate \<or>
       (\<exists>base \<in> set local. snap_name base = snap_name (sx_latest ctx) \<and>
          decide_transfer hello local (last local) = Ok (IncrementalSend base))))"
proof -
  let ?x = "sx_latest ctx" and ?tag = "transfer_tag (sx_remote_name ctx)"
  have tag: "prefix ''zrb:'' ?tag" "plain_name ?tag"
    using assms(5) by (simp_all add: transfer_tag_def plain_name_def)
  have "held H N ?x ?tag (env u)"
    using send_leaves_held [OF assms(1-3)] assms(7,8) by (auto simp: held_def)
  then obtain cs where u': "held H N ?x ?tag (env u')" "cmds u' = cmds u @ cs" "list_all (spares ?x ?tag) cs"
    using guardsD [OF guards_prune [OF assms(1,4) tag(2,1)] assms(9)] by blast
  then have "?x \<in> N (env u')" by (simp add: held_def)
  then obtain local v where listed: "list_zrb S C (dataset_of ?x) u' = (Ok local, v)" "?x \<in> set local"
    using list_zrb_pool [OF assms(1) _ assms(4,6) refl] by blast
  obtain n where n: "snap_name ?x = Some n"
    using assms(6) by (auto simp: is_zrb_def snap_name_def parse_def split: option.splits)
  note next_send = decide_transfer_incremental [OF assms(10) _ assms(12) listed(2) n]
  show ?thesis
    using next_send assms(11) n u'(2,3) listed by (auto simp: list_all_iff spares_def)
qed

section \<open>The remote's side\<close>

text \<open>The one snapshot of a dataset that is newer than all its others.\<close>

definition newest_zrb :: "chrono \<Rightarrow> string set \<Rightarrow> string \<Rightarrow> string \<Rightarrow> bool" where
  "newest_zrb C N ds y \<longleftrightarrow> y \<in> N \<and> dataset_of y = ds \<and> is_zrb C y \<and>
     (\<forall>z \<in> N. dataset_of z = ds \<and> is_zrb C z \<and> z \<noteq> y \<longrightarrow> parse C z < parse C y)"

lemma newest_zrb_subset: "newest_zrb C N ds y \<Longrightarrow> y \<in> N' \<Longrightarrow> N' \<subseteq> N \<Longrightarrow> newest_zrb C N' ds y"
  unfolding newest_zrb_def by blast

lemma is_zrb_at: "is_zrb C z \<Longrightarrow> CHR ''@'' \<in> set z"
  by (auto simp: is_zrb_def elim!: parse_SomeE)

lemma list_snapshots_listed:
  assumes "list_snapshots S ds s = (Ok raw, s')" "z \<in> set raw"
  obtains out err j where
    "fst (zfs_output S [''list'', ''-t'', ''snapshot'', ''--json'', ds] (env s)) = Exited True out err"
    "parse_zfs_json S out = Inr j" "z \<in> fst ` set (zo_datasets j)"
proof (cases "fst (zfs_output S [''list'', ''-t'', ''snapshot'', ''--json'', ds] (env s))")
  case (Exited ok out err)
  then have "ok \<Longrightarrow> (\<exists>j. parse_zfs_json S out = Inr j \<and> z \<in> fst ` set (zo_datasets j))" and ok
    using assms
    by (cases "parse_zfs_json S out"; auto simp: list_snapshots_def run_def io_match_def io_result_def
        io_return_def io_fail_def Let_def decode_list_json_def parse_json_def case_prod_beta
        split: if_splits sum.splits)+
  then show thesis using Exited that by auto
next
  case (SpawnFailed e)
  then show thesis
    using assms
    by (auto simp: list_snapshots_def run_def io_match_def io_return_def io_fail_def Let_def case_prod_beta
        split: if_splits)
qed

lemma list_snapshots_known:
  assumes "faithful_pool S H N" "list_snapshots S ds s = (Ok raw, s')" "z \<in> set raw" "CHR ''@'' \<in> set z"
  shows "z \<in> N (env s) \<and> dataset_of z = ds"
  using list_snapshots_listed [OF assms(2,3)] pool_listed_exists [OF assms(1) _ _ _ assms(4)] by metis

lemma list_newest:
  assumes "faithful_pool S H N" "newest_zrb C (N (env s)) ds y" "plain_name y"
  obtains local s' where "list_zrb S C ds s = (Ok local, s')" "last_of local = Some y"
proof -
  have y: "y \<in> N (env s)" "dataset_of y = ds" "is_zrb C y" using assms(2) by (simp_all add: newest_zrb_def)
  obtain local s' where run: "list_zrb S C ds s = (Ok local, s')" "y \<in> set local"
    using list_zrb_pool [OF assms(1) y(1) assms(3) y(3,2)] by blast
  obtain raw where raw: "list_snapshots S ds s = (Ok raw, s')" "set local = {x \<in> set raw. is_zrb C x}"
      "sorted (map (parse C) local)"
    using list_zrb_correct [OF run(1)] by blast
  have known: "z \<in> N (env s) \<and> dataset_of z = ds" if "z \<in> set raw" "is_zrb C z" for z
    using list_snapshots_known [OF assms(1) raw(1) that(1) is_zrb_at [OF that(2)]] .
  obtain pre z where z: "local = pre @ [z]" using run(2) by (cases local rule: rev_cases) auto
  have "parse C y \<le> parse C z"
    using raw(3) run(2) by (auto simp: z sorted_append)
  moreover have "z \<in> set raw" "is_zrb C z" using raw(2) by (auto simp: z)
  ultimately have "z = y"
    using known [of z] assms(2) unfolding newest_zrb_def by (meson leD)
  then show thesis using that [OF run(1)] by (simp add: z last_of_def)
qed

text \<open>Nothing that only runs commands other than \<open>zfs snapshot\<close> adds a snapshot.\<close>

definition fewer :: "('w \<Rightarrow> string set) \<Rightarrow> string set \<Rightarrow> 'w \<Rightarrow> bool" where
  "fewer N A w \<longleftrightarrow> N w \<subseteq> A"

lemma pool_fewer:
  assumes "faithful_pool S H N" "\<And>x. argv \<noteq> [''snapshot'', x]" "fewer N A w"
  shows "fewer N A (snd (zfs_output S argv w))"
  using assms by (auto simp: fewer_def faithful_pool_def snapshot_effect_def split: list.splits)

lemma guards_prune_any:
  assumes "\<And>argv w. I w \<Longrightarrow> (\<And>x. argv \<noteq> [''snapshot'', x]) \<Longrightarrow> I (snd (zfs_output S argv w))"
    and "\<And>w. I w \<Longrightarrow> I (snd (utc_now S w))"
  shows "guards I (\<lambda>_. True) (prune S C dataset config hold_days dry_run abort_res)"
proof -
  have now: "guards I (\<lambda>_. True) (io_now S)"
    using assms(2) by (intro guards_emits emits_intro) (simp add: io_now_def case_prod_beta)
  have loop: "guards I (\<lambda>_. True) (destroy_loop S dry_run snaps dels)" for dry_run snaps dels
    by (induction snaps arbitrary: dels) (auto simp: destroy_snapshot_def intro!: guards_intro assms(1))
  have snaps: "guards I (\<lambda>_. True) (prune_snapshots S C dataset config dry_run)" for dry_run
    unfolding prune_snapshots_def list_zrb_def list_snapshots_def batch_snapshot_holds_def Let_def
    by (auto intro!: guards_intro guards_case_prod assms(1) now loop)
  have "guards I (\<lambda>_. True) (prune_decided S C dataset config dry_run hs d)" for hs d
    unfolding prune_decided_def abort_resume_def clear_resume_since_def
    by (cases d) (auto intro!: guards_intro assms(1) snaps)
  then show ?thesis
    unfolding prune_def get_resume_token_def get_resume_since_def Let_def
    by (auto intro!: guards_intro assms(1) now)
qed

lemma prune_adds_nothing:
  assumes "faithful_pool S H N" "prune S C dataset config hold_days dry_run abort_res s = (r, s')"
  shows "N (env s') \<subseteq> N (env s)"
proof -
  have "fewer N A (snd (utc_now S w))" if "fewer N A w" for A w
    using that pool_now [OF assms(1)] by (simp add: fewer_def)
  then have "guards (fewer N (N (env s))) (\<lambda>_. True) (prune S C dataset config hold_days dry_run abort_res)"
    by (intro guards_prune_any pool_fewer [OF assms(1)])
  from guardsD [OF this assms(2)] show ?thesis by (auto simp: fewer_def)
qed

text \<open>What the server's hold does to the newest snapshot.\<close>

lemma server_hold_held:
  assumes "faithful_pool S H N" "newest_zrb C (N (env s)) ds y" "plain_name y"
    and "place_server_transfer_hold S C ds s = (r, s')"
  shows "held H N y RECEIVED_TAG (env s') \<and> N (env s') \<subseteq> N (env s)"
proof -
  obtain local s1 where ls: "list_zrb S C ds s = (Ok local, s1)" "last_of local = Some y"
    using list_newest [OF assms(1-3)] .
  let ?find = "io_match (find_held_snapshots_in S local RECEIVED_TAG) (\<lambda>v. io_return v) (\<lambda>e. io_return [])"
  let ?Q = "\<lambda>_ :: string list. True"
  have keep: "guards (\<lambda>w. y \<in> N w) ?Q (list_zrb S C ds)" "guards (\<lambda>w. y \<in> N w) ?Q ?find"
    unfolding list_zrb_def list_snapshots_def find_held_snapshots_in_def
    by (auto intro!: guards_intro pool_exists [OF assms(1)])
  obtain q s2 where find: "?find s1 = (q, s2)" by fastforce
  have "y \<in> N (env s)" using assms(2) by (simp add: newest_zrb_def)
  then have s2: "y \<in> N (env s2)"
    using guardsD [OF keep(1) ls(1)] guardsD [OF keep(2) find] by metis
  obtain v where "q = Ok v"
    using find find_held_in_no_panic [of S local RECEIVED_TAG s1]
    by (auto simp: io_match_def io_return_def split: prod.splits res.splits)
  then have "hold_then_release S RECEIVED_TAG y (filter (\<lambda>s. s \<noteq> y) v) s2 = (r, s')"
    using assms(4) ls find by (simp add: place_server_transfer_hold_def io_match_def [of "list_zrb S C ds"] io_bind_def)
  then have "held H N y RECEIVED_TAG (env s')"
    using hold_then_release_held [OF assms(1) s2, of "filter (\<lambda>s. s \<noteq> y) v" RECEIVED_TAG] by simp
  moreover have "guards (fewer N (N (env s))) ?Q (place_server_transfer_hold S C ds)"
    unfolding place_server_transfer_hold_def list_zrb_def list_snapshots_def find_held_snapshots_in_def
      hold_then_release_def hold_snapshot_def release_all_def release_hold_def
    by (auto intro!: guards_intro pool_fewer [OF assms(1)] split: option.split err.split)
  from guardsD [OF this assms(4)] have "N (env s') \<subseteq> N (env s)" by (auto simp: fewer_def)
  ultimately show ?thesis ..
qed

text \<open>
  The next transfer is incremental, seen from both sides: the client has held the snapshot
  that it sent and the server the one that it received; then both sides prune, by any policies
  and with any options; and when the server next says hello with the newest snapshot that it
  lists, the client decides for nothing or for an increment from the snapshot that they share.
\<close>

theorem next_transfer_incremental:
  assumes "faithful_pool S H N" and "sx_latest ctx \<in> N (env s)"
    and "[''hold'', transfer_tag (sx_remote_name ctx), sx_latest ctx] \<in>
      set (drop (length (cmds s)) (cmds (snd (send_to_remote S J ctx s))))"
    and "plain_name (sx_latest ctx)" and "plain_name (sx_remote_name ctx)" and "is_zrb C (sx_latest ctx)"
    and "prune S C (dataset_of (sx_latest ctx)) config hold_days dry_run abort_res
      (snd (send_to_remote S J ctx s)) = (r, u)"
    and "faithful_pool T HT NT" and "newest_zrb C (NT (env t)) target y" and "plain_name y"
    and "snap_name y = snap_name (sx_latest ctx)"
    and "place_server_transfer_hold T C target t = (q, t1)"
    and "prune T C target config' hold_days' dry_run' abort_res' t1 = (q', t2)"
  shows "\<exists>local u' raw t3. list_zrb S C (dataset_of (sx_latest ctx)) u = (Ok local, u') \<and>
    list_snapshots T target t2 = (Ok raw, t3) \<and>
    (\<forall>hello. sh_head hello = last_of (sort_chronological C (filter_zrb C raw)) \<and> sh_resume_token hello = None \<longrightarrow>
      decide_transfer hello local (last local) = Ok AlreadyUpToDate \<or>
      (\<exists>base \<in> set local. snap_name base = snap_name (sx_latest ctx) \<and>
         decide_transfer hello local (last local) = Ok (IncrementalSend base)))"
proof -
  let ?x = "sx_latest ctx" and ?tag = "transfer_tag (sx_remote_name ctx)"
  have tags: "prefix ''zrb:'' ?tag" "plain_name ?tag" "prefix ''zrb:'' RECEIVED_TAG" "plain_name RECEIVED_TAG"
    using assms(5) by (simp_all add: transfer_tag_def RECEIVED_TAG_def plain_name_def)
  have "held H N ?x ?tag (env u)"
    using guardsD [OF guards_prune [OF assms(1,4) tags(2,1)] assms(7) send_leaves_held [OF assms(1-3)]] .
  then have "?x \<in> N (env u)" by (simp add: held_def)
  then obtain local u' where listed: "list_zrb S C (dataset_of ?x) u = (Ok local, u')" "?x \<in> set local"
    using list_zrb_pool [OF assms(1) _ assms(4,6) refl] by blast
  note t1 = server_hold_held [OF assms(8-10,12)]
  have "held HT NT y RECEIVED_TAG (env t2)"
    using guardsD [OF guards_prune [OF assms(8,10) tags(4,3)] assms(13)] t1 by blast
  then have "newest_zrb C (NT (env t2)) target y"
    using newest_zrb_subset [OF assms(9)] t1 prune_adds_nothing [OF assms(8,13)] by (auto simp: held_def)
  then obtain kept t3 where remote: "list_zrb T C target t2 = (Ok kept, t3)" "last_of kept = Some y"
    using list_newest [OF assms(8) _ assms(10)] by blast
  obtain raw where raw: "list_snapshots T target t2 = (Ok raw, t3)" "kept = sort_chronological C (filter_zrb C raw)"
    using remote(1) by (rule list_snapshots_Ok_raw)
  obtain n where n: "snap_name ?x = Some n"
    using assms(6) by (auto simp: is_zrb_def snap_name_def parse_def split: option.splits)
  have "decide_transfer hello local (last local) = Ok AlreadyUpToDate \<or>
      (\<exists>base \<in> set local. snap_name base = snap_name ?x \<and>
         decide_transfer hello local (last local) = Ok (IncrementalSend base))"
    if "sh_head hello = Some y" "sh_resume_token hello = None" for hello
    using decide_transfer_incremental [OF that(1) _ that(2) listed(2) n] n assms(11) by simp
  then show ?thesis
    using remote(2) unfolding raw(2)
    by - (intro exI conjI allI impI, rule listed(1), rule raw(1), simp)
qed

section \<open>A hold that is never placed\<close>

lemma env_comms:
  "preserves env (io_recv f)" "preserves env (io_xmit g)" "preserves cmds (io_recv f)" "preserves cmds (io_xmit g)"
  by (simp_all add: preserves_def io_recv_def io_xmit_def Let_def case_prod_beta)

text \<open>
  C37. A hold that was missed is never placed: when the remote has the latest snapshot already,
  for instance because the transfer was cancelled during its last chunk or its confirmation was
  lost, the next \<open>zrb send\<close> succeeds without starting a \<open>zfs\<close> process: the holds of the pool stay
  as they are, so the snapshot that both sides share does not get the client's hold, which
  would keep pruning from destroying it.
\<close>

theorem up_to_date_never_held:
  assumes "faithful_pool S H N" and "connect S (sx_remote_cfg ctx) [] s = (Ok (), s1)"
    and "client_handshake J (sx_target ctx) (sx_client_name ctx) s1 = (Ok hello, s2)"
    and "sh_head hello = Some h" and "snap_name h = snap_name (sx_latest ctx)" and "snap_name (sx_latest ctx) \<noteq> None"
  shows "fst (send_to_remote S J ctx s) = Ok () \<and> cmds (snd (send_to_remote S J ctx s)) = cmds s \<and>
    H (env (snd (send_to_remote S J ctx s))) = H (env s)"
proof -
  obtain n where n: "snap_name (sx_latest ctx) = Some n" using assms(6) by blast
  have "decide_transfer hello (sx_local_snaps ctx) (sx_latest ctx) = Ok AlreadyUpToDate"
    using assms(4,5) by (simp add: decide_transfer_cases suffix_of_snap_name n)
  moreover obtain q s3 where q: "io_catch (send_ready J False ''already up to date'') s2 = (Ok q, s3)"
      "env s3 = env s2" "cmds s3 = cmds s2"
    by (cases "send_ready J False ''already up to date'' s2")
      (auto simp: io_catch_def io_match_def io_return_def send_ready_def io_xmit_def encode_json_def Let_def
        split: prod.splits sum.splits option.splits res.splits)
  ultimately have ex: "exchange S J ctx s1 = (Ok 0, s3)"
    using assms(3) by (simp add: exchange_def send_on_def send_after_hello_def io_bind_res_Ok io_bind_def
        io_return_def)
  have "env (snd (connect S cfg extra s)) = snd (ssh_spawn S (ssh_argv cfg extra) (env s))" for cfg extra
    by (auto simp: connect_def Let_def split: prod.split sum.split)
  then have s1: "H (env s1) = H (env s)" "cmds s1 = cmds s"
    using assms(1,2) connect_keeps [OF assms(2)] unfolding faithful_pool_def by (metis snd_conv)+
  have "preserves env (client_handshake J (sx_target ctx) (sx_client_name ctx))"
    "preserves cmds (client_handshake J (sx_target ctx) (sx_client_name ctx))"
    unfolding client_handshake_def by (auto intro!: preserves_intro env_comms)
  then have s2: "env s2 = env s1" "cmds s2 = cmds s1"
    using preservesD assms(3) by metis+
  show ?thesis
  proof (cases rule: send_to_remote_run [of S ctx s J])
    case (up_to_date t1 t2 w)
    then show ?thesis
      using assms(1,2) ex q s1 s2 by (auto simp: faithful_pool_def)
  qed (use assms(2) ex in simp_all)
qed

section \<open>Witnesses\<close>

text \<open>
  A pool that remembers its snapshots and holds. It prints the holds like \<open>zfs holds -H\<close>, and the
  names of all its snapshots, one a line, for \<open>zfs list\<close>.
\<close>

type_synonym small_pool = "string list \<times> (string \<times> string) list"

definition pool_report :: "string list \<Rightarrow> small_pool \<Rightarrow> string" where
  "pool_report argv w =
     (case argv of
        c # a # xs \<Rightarrow>
          if c = ''list''
          then concat (map (\<lambda>x. x @ [newline]) (filter (\<lambda>x. plain_name x \<and> dataset_of x = last argv) (fst w)))
          else if c = ''holds''
          then hold_lines (map (\<lambda>(x, t). (x, t, ''now''))
            (filter (\<lambda>(x, t). x \<in> set xs \<and> plain_name x \<and> plain_name t) (snd w)))
          else []
      | _ \<Rightarrow> [])"

definition pool_output :: "string list \<Rightarrow> small_pool \<Rightarrow> proc_out \<times> small_pool" where
  "pool_output argv w =
     (let answer = (\<lambda>ok w'. if ok then (Exited True [] [], w') else (Exited False [] ''refused'', w))
      in case argv of
        [c, x] \<Rightarrow>
          if c = ''destroy'' then answer (x \<in> set (fst w) \<and> x \<notin> fst ` set (snd w)) (removeAll x (fst w), snd w)
          else if c = ''snapshot'' then answer True (x # fst w, snd w)
          else (Exited True (pool_report argv w) [], w)
      | [c, tag, x] \<Rightarrow>
          if c = ''hold'' then answer (x \<in> set (fst w) \<and> (x, tag) \<notin> set (snd w)) (fst w, (x, tag) # snd w)
          else if c = ''release'' then answer ((x, tag) \<in> set (snd w)) (fst w, removeAll (x, tag) (snd w))
          else (Exited True (pool_report argv w) [], w)
      | _ \<Rightarrow> (Exited True (pool_report argv w) [], w))"

definition small_os :: "small_pool os" where
  "small_os =
     \<lparr>zfs_output = pool_output,
      zfs_spawn_send = (\<lambda>argv w. (Inr \<lparr>rbytes = [1, 2, 3], rerr = None, rsizes = []\<rparr>, w)),
      zfs_receive_spawn = (\<lambda>argv w. (Inr None, w)),
      zfs_receive_finish = (\<lambda>argv bs w. (Exited True [] [], w)),
      utc_now = (\<lambda>w. (example_now, w)),
      parse_zfs_json = (\<lambda>txt. Inr \<lparr>zo_datasets = map (\<lambda>x. (x, \<lparr>di_properties = []\<rparr>)) (split_char newline txt)\<rparr>),
      ssh_spawn = (\<lambda>argv w. (Inr (inp xf_client, outp xf_client), w)),
      elapsed_secs = (\<lambda>w. (Fin 1, w)),
      trace_logged = False\<rparr>"

lemma small_pool_effect:
  "set (snd (snd (pool_output argv w))) =
     (if exited_ok (fst (pool_output argv w)) then hold_effect argv (set (snd w)) else set (snd w)) \<and>
   set (fst (snd (pool_output argv w))) =
     (if exited_ok (fst (pool_output argv w)) then snapshot_effect argv (set (fst w)) else set (fst w))"
  by (auto simp: pool_output_def Let_def exited_ok_def hold_effect_def snapshot_effect_def split: list.split)

lemma set_split_lines:
  "\<forall>x \<in> set xs. newline \<notin> set x \<Longrightarrow> set (split_char newline (concat (map (\<lambda>x. x @ [newline]) xs))) = insert [] (set xs)"
  by (induction xs) (auto simp: split_char_parts split_char_absent)

lemma small_pool_holds:
  assumes "fst (pool_output (''holds'' # ''-H'' # xs) w) = Exited True out err"
    and "x \<in> set xs" "plain_name x" "plain_name tag" "(x, tag) \<in> set (snd w)"
  shows "(x, tag) \<in> set (hold_pairs out)"
proof -
  let ?hs = "map (\<lambda>(x, t). (x, t, ''now''))
    (filter (\<lambda>(x, t). x \<in> set xs \<and> plain_name x \<and> plain_name t) (snd w))"
  have "out = hold_lines ?hs"
    using assms(1) by (auto simp: pool_output_def pool_report_def Let_def split: list.splits)
  moreover have "list_all hold_ok ?hs"
    by (auto simp: list_all_iff hold_ok_def plain_name_def)
  ultimately show ?thesis
    using assms(2-5) by (force simp: hold_pairs_lines)
qed

lemma small_pool_faithful: "faithful_pool small_os (\<lambda>w. set (snd w)) (\<lambda>w. set (fst w))"
proof -
  have "exited_ok (fst (pool_output [''hold'', tag, x] w)) \<or> (x, tag) \<in> set (snd w)" if "x \<in> set (fst w)" for tag x w
    using that by (simp add: pool_output_def exited_ok_def)
  moreover have "fst (pool_output [''list'', ''-t'', ''snapshot'', ''--json'', ds] w) = Exited True
      (concat (map (\<lambda>x. x @ [newline]) (filter (\<lambda>x. plain_name x \<and> dataset_of x = ds) (fst w)))) []" for ds w
    by (simp add: pool_output_def pool_report_def)
  moreover have "set (split_char newline
      (concat (map (\<lambda>x. x @ [newline]) (filter (\<lambda>x. plain_name x \<and> dataset_of x = ds) xs)))) =
      insert [] {x \<in> set xs. plain_name x \<and> dataset_of x = ds}" for ds xs
    using set_split_lines [of "filter (\<lambda>x. plain_name x \<and> dataset_of x = ds) xs"]
    by (auto simp: plain_name_def)
  ultimately show ?thesis
    unfolding faithful_pool_def small_os_def
    using small_pool_effect small_pool_holds by (auto simp: image_image)
qed

definition small_state :: "small_pool \<Rightarrow> small_pool st" where
  "small_state w = \<lparr>env = w, cmds = [], inp = inp st0, outp = outp st0, notices = []\<rparr>"

text \<open>The server already has the snapshot of \<open>small_state\<close>.\<close>

lemma faithful_pool_ssh:
  assumes "faithful_pool S H N" "\<And>argv w. snd (f argv w) = w"
  shows "faithful_pool (S\<lparr>ssh_spawn := f\<rparr>) H N"
proof -
  have same: "zfs_output (S\<lparr>ssh_spawn := f\<rparr>) = zfs_output S" "parse_zfs_json (S\<lparr>ssh_spawn := f\<rparr>) = parse_zfs_json S"
    "utc_now (S\<lparr>ssh_spawn := f\<rparr>) = utc_now S" "elapsed_secs (S\<lparr>ssh_spawn := f\<rparr>) = elapsed_secs S"
    "zfs_spawn_send (S\<lparr>ssh_spawn := f\<rparr>) = zfs_spawn_send S" "ssh_spawn (S\<lparr>ssh_spawn := f\<rparr>) = f"
    by simp_all
  show ?thesis
    using assms(1) unfolding faithful_pool_def same
    by (elim conjE, intro conjI) (assumption | simp only: assms(2) simp_thms)+
qed

lemma up_to_date_never_held_witness:
  "\<exists>hello. cmds (snd (send_to_remote (small_os\<lparr>ssh_spawn := \<lambda>argv w. (Inr ((inp xf_client)\<lparr>rbytes :=
        json_line (ser_server_status example_json) ok_status @ json_line (ser_server_hello example_json) hello\<rparr>,
        outp xf_client), w)\<rparr>) example_json (xf_ctx None) (small_state (xf_snaps, [])))) = []"
proof -
  let ?hello = "hs_hello\<lparr>sh_head := Some ''t@zrb-2026-05-07T00:00:00Z''\<rparr>"
  let ?i = "(inp xf_client)\<lparr>rbytes := json_line (ser_server_status example_json) ok_status @
      json_line (ser_server_hello example_json) ?hello\<rparr>"
  let ?S = "small_os\<lparr>ssh_spawn := \<lambda>argv w. (Inr (?i, outp xf_client), w)\<rparr>"
  let ?s = "small_state (xf_snaps, [])"
  let ?t = "online ?i (outp xf_client) (notices ?s) ?s"
  have ctx: "sx_latest (xf_ctx None) = ''d@zrb-2026-05-07T00:00:00Z''" "sx_target (xf_ctx None) = ''t''"
    "sx_client_name (xf_ctx None) = ''laptop''"
    by (simp_all add: xf_ctx_def task_context_def xf_task_def)
  have pool: "faithful_pool ?S (\<lambda>w. set (snd w)) (\<lambda>w. set (fst w))"
    by (rule faithful_pool_ssh [OF small_pool_faithful]) simp
  have con: "connect ?S (sx_remote_cfg (xf_ctx None)) [] ?s = (Ok (), ?t)"
    by (simp add: connect_def online_def)
  have hello: "json_round_trip (ser_server_hello example_json) (de_server_hello example_json) ?hello"
    by (simp add: json_round_trip_def json_eval utf8_valid_def hs_hello_def CARGO_PKG_VERSION_def)
  have cap: "wcap (outp ?t) = None" by (simp add: xf_client_def hs_state_def st0_def)
  have inp: "rbytes (inp ?t) = json_line (ser_server_status example_json) ok_status @
      json_line (ser_server_hello example_json) ?hello @ []" by simp
  obtain s2 where hs: "client_handshake example_json (sx_target (xf_ctx None)) (sx_client_name (xf_ctx None)) ?t =
      (Ok ?hello, s2)"
    using client_handshake_accepts [OF _ _ hello cap inp] xf_messages unfolding messages_survive_def ctx by blast
  have "cmds (snd (send_to_remote ?S example_json (xf_ctx None) ?s)) = cmds ?s"
    using up_to_date_never_held [OF pool con hs] by (simp add: ctx hs_hello_def snap_name_def)
  then show ?thesis by (intro exI [of _ ?hello]) (simp add: small_state_def)
qed

lemma prune_spares_held_witness:
  "\<exists>r s'. prune small_os gregorian ''t'' prune_cfg None False False
      (small_state ([''t@zrb-2026-05-05T00:00:00Z'', ''t@zrb-2026-05-06T00:00:00Z''],
        [(''t@zrb-2026-05-06T00:00:00Z'', ''zrb:nas'')])) = (r, s') \<and>
    [''destroy'', ''t@zrb-2026-05-06T00:00:00Z''] \<notin> set (cmds s') \<and>
    ''t@zrb-2026-05-06T00:00:00Z'' \<in> set (fst (env s'))"
proof -
  let ?s = "small_state ([''t@zrb-2026-05-05T00:00:00Z'', ''t@zrb-2026-05-06T00:00:00Z''],
        [(''t@zrb-2026-05-06T00:00:00Z'', ''zrb:nas'')])"
  obtain r s' where run: "prune small_os gregorian ''t'' prune_cfg None False False ?s = (r, s')" by fastforce
  have "plain_name ''t@zrb-2026-05-06T00:00:00Z''" "plain_name ''zrb:nas''"
    by (simp_all add: plain_name_def)
  then show ?thesis
    using prune_spares_held [OF small_pool_faithful _ _ _ _ _ run, of "''t@zrb-2026-05-06T00:00:00Z''" "''zrb:nas''"] run
    by (simp add: small_state_def)
qed

text \<open>An incremental transfer from the small pool, confirmed by the server.\<close>

lemma small_open:
  "open_stream small_os (xf_cfg\<lparr>rc_bandwidth_limit := None\<rparr>) ''d@zrb-2026-05-07T00:00:00Z''
     (IncrementalSend ''d@zrb-2026-05-06T00:00:00Z'') s =
     (Ok (\<lparr>rbytes = [1, 2, 3], rerr = None, rsizes = []\<rparr>, 0),
      s\<lparr>cmds := cmds s @
        [[''send'', ''-n'', ''-v'', ''-i'', ''d@zrb-2026-05-06T00:00:00Z'', ''d@zrb-2026-05-07T00:00:00Z''],
         [''send'', ''-i'', ''d@zrb-2026-05-06T00:00:00Z'', ''d@zrb-2026-05-07T00:00:00Z'']]\<rparr>)"
proof -
  have "parse_estimated_size [newline] = Inl LineMissing"
    by code_simp
  then show ?thesis
    by (simp add: open_stream_def xf_cfg_def estimate_size_def command_output_def small_os_def pool_output_def
        pool_report_def send_incremental_def spawn_send_def io_bind_def io_match_def io_context_def io_return_def
        io_fail_def)
qed

lemma small_send_holds:
  "[''hold'', transfer_tag ''nas'', ''d@zrb-2026-05-07T00:00:00Z''] \<in>
     set (cmds (snd (send_to_remote small_os example_json (xf_ctx None) (small_state (xf_snaps, [])))))"
proof -
  let ?s = "small_state (xf_snaps, [])" and ?cfg = "xf_cfg\<lparr>rc_bandwidth_limit := None\<rparr>"
  let ?t = "online (inp xf_client) (outp xf_client) (notices ?s) ?s"
  have ctx: "sx_remote_cfg (xf_ctx None) = ?cfg" "sx_latest (xf_ctx None) = ''d@zrb-2026-05-07T00:00:00Z''"
    "sx_remote_name (xf_ctx None) = ''nas''"
    by (simp_all add: xf_ctx_def task_context_def xf_task_def)
  have con: "connect small_os (sx_remote_cfg (xf_ctx None)) [] ?s = (Ok (), ?t)"
    by (simp add: connect_def small_os_def online_def)
  have cap: "wcap (outp ?t) = None" by (simp add: xf_client_def hs_state_def st0_def)
  have inp: "rbytes (inp ?t) = json_line (ser_server_status example_json) ok_status @
      json_line (ser_server_hello example_json) hs_hello @ json_line (ser_server_status example_json) ok_status"
    by (simp add: xf_client_def hs_state_def)
  have thr: "unthrottled (rc_bandwidth_limit ?cfg) k" for k
    using xf_unthrottled [of k] by (simp add: xf_cfg_def)
  have exch: "exchange small_os example_json (xf_ctx None) = send_on small_os example_json
      ''d@zrb-2026-05-07T00:00:00Z'' xf_snaps ?cfg ''t'' ''laptop'' (row_key (xf_ctx None)) True (\<lambda>k. False)"
    by (simp add: exchange_def xf_ctx_def task_context_def xf_task_def cancel_for_def)
  have "fst (exchange small_os example_json (xf_ctx None) ?t) = Ok 3"
    unfolding exch using send_on_confirmed [OF xf_messages cap inp xf_decide _ small_open _ thr] by simp
  then obtain s2 where "exchange small_os example_json (xf_ctx None) ?t = (Ok 3, s2)" by (metis prod.collapse)
  from confirmed_send_holds [OF con this] show ?thesis by (auto simp: ctx)
qed

lemma next_transfer_incremental_witness:
  "\<exists>u t2 local u' raw t3.
    u = snd (prune small_os gregorian ''d'' prune_cfg None False False
      (snd (send_to_remote small_os example_json (xf_ctx None) (small_state (xf_snaps, []))))) \<and>
    t2 = snd (prune small_os gregorian ''t'' prune_cfg None False False
      (snd (place_server_transfer_hold small_os gregorian ''t''
        (small_state ([''t@zrb-2026-05-07T00:00:00Z'', ''t@zrb-2026-05-06T00:00:00Z''], []))))) \<and>
    list_zrb small_os gregorian ''d'' u = (Ok local, u') \<and> list_snapshots small_os ''t'' t2 = (Ok raw, t3) \<and>
    (decide_transfer (hs_hello\<lparr>sh_head := last_of (sort_chronological gregorian (filter_zrb gregorian raw))\<rparr>)
       local (last local) = Ok AlreadyUpToDate \<or>
     (\<exists>base \<in> set local. snap_name base = Some ''zrb-2026-05-07T00:00:00Z'' \<and>
       decide_transfer (hs_hello\<lparr>sh_head := last_of (sort_chronological gregorian (filter_zrb gregorian raw))\<rparr>)
         local (last local) = Ok (IncrementalSend base)))"
proof -
  let ?s = "small_state (xf_snaps, [])"
  let ?t = "small_state ([''t@zrb-2026-05-07T00:00:00Z'', ''t@zrb-2026-05-06T00:00:00Z''], [])"
  have ctx: "sx_latest (xf_ctx None) = ''d@zrb-2026-05-07T00:00:00Z''" "sx_remote_name (xf_ctx None) = ''nas''"
    by (simp_all add: xf_ctx_def task_context_def xf_task_def)
  have ds: "dataset_of ''d@zrb-2026-05-07T00:00:00Z'' = ''d''" by (simp add: dataset_of_def)
  have "cmds ?s = []" by (simp add: small_state_def)
  then have hold: "[''hold'', transfer_tag (sx_remote_name (xf_ctx None)), sx_latest (xf_ctx None)] \<in>
      set (drop (length (cmds ?s)) (cmds (snd (send_to_remote small_os example_json (xf_ctx None) ?s))))"
    using small_send_holds by (simp add: ctx)
  have client: "sx_latest (xf_ctx None) \<in> set (fst (env ?s))" "plain_name (sx_latest (xf_ctx None))"
    "plain_name (sx_remote_name (xf_ctx None))" "is_zrb gregorian (sx_latest (xf_ctx None))"
    by (simp_all add: ctx small_state_def xf_snaps_def plain_name_def is_zrb_def parse_def strip_prefix_def
        PREFIX_def calendar_eval)
  have server: "newest_zrb gregorian (set (fst (env ?t))) ''t'' ''t@zrb-2026-05-07T00:00:00Z''"
    "plain_name ''t@zrb-2026-05-07T00:00:00Z''"
    "snap_name ''t@zrb-2026-05-07T00:00:00Z'' = snap_name (sx_latest (xf_ctx None))"
    by (simp_all add: ctx newest_zrb_def small_state_def dataset_of_def plain_name_def snap_name_def is_zrb_def
        parse_def strip_prefix_def PREFIX_def calendar_eval less_datetime_def)
  have "snap_name (sx_latest (xf_ctx None)) = Some ''zrb-2026-05-07T00:00:00Z''"
    by (simp add: ctx snap_name_def)
  then show ?thesis
    using next_transfer_incremental [OF small_pool_faithful client(1) hold client(2-4) prod.collapse [symmetric]
        small_pool_faithful server prod.collapse [symmetric] prod.collapse [symmetric], of prune_cfg None False False
        prune_cfg None False False]
    unfolding ctx ds by (auto simp: hs_hello_def)
qed

lemma backup_chain_unbroken_witness:
  "\<exists>r u' local v. prune small_os gregorian ''d'' prune_cfg None False False
      (snd (send_to_remote small_os example_json (xf_ctx None) (small_state (xf_snaps, [])))) = (r, u') \<and>
    list_zrb small_os gregorian ''d'' u' = (Ok local, v) \<and> ''d@zrb-2026-05-07T00:00:00Z'' \<in> set local"
proof -
  let ?s = "small_state (xf_snaps, [])"
  let ?u = "snd (send_to_remote small_os example_json (xf_ctx None) ?s)"
  let ?hello = "hs_hello\<lparr>sh_head := Some ''t@zrb-2026-05-07T00:00:00Z''\<rparr>"
  have ctx: "sx_latest (xf_ctx None) = ''d@zrb-2026-05-07T00:00:00Z''" "sx_remote_name (xf_ctx None) = ''nas''"
    by (simp_all add: xf_ctx_def task_context_def xf_task_def)
  have ds: "dataset_of ''d@zrb-2026-05-07T00:00:00Z'' = ''d''" by (simp add: dataset_of_def)
  obtain r u' where run: "prune small_os gregorian (dataset_of (sx_latest (xf_ctx None))) prune_cfg None False False ?u =
      (r, u')" by fastforce
  have "cmds ?s = []" by (simp add: small_state_def)
  then have hold: "[''hold'', transfer_tag (sx_remote_name (xf_ctx None)), sx_latest (xf_ctx None)] \<in>
      set (drop (length (cmds ?s)) (cmds ?u))"
    using small_send_holds by (simp add: ctx)
  have "sx_latest (xf_ctx None) \<in> set (fst (env ?s))"
    by (simp add: ctx small_state_def xf_snaps_def)
  moreover have "plain_name (sx_latest (xf_ctx None))" "plain_name (sx_remote_name (xf_ctx None))"
    by (simp_all add: ctx plain_name_def)
  moreover have "is_zrb gregorian (sx_latest (xf_ctx None))"
    by (simp add: ctx is_zrb_def parse_def strip_prefix_def PREFIX_def calendar_eval)
  moreover have "sh_head ?hello = Some ''t@zrb-2026-05-07T00:00:00Z''" "sh_resume_token ?hello = None"
    "snap_name ''t@zrb-2026-05-07T00:00:00Z'' = snap_name (sx_latest (xf_ctx None))"
    by (simp_all add: hs_hello_def ctx snap_name_def)
  ultimately show ?thesis
    using backup_chain_unbroken [OF small_pool_faithful _ hold _ _ _ _ _ run] run
    unfolding ctx ds by blast
qed

end
