(* ===== verification/Rounds.thy ===== *)
theory Rounds
  imports Protection
begin

text \<open>
  Many rounds of backups: the two pools, and everything that runs of \<open>zrb\<close> do to them, as a step
  relation. Each step is one whole run of an operation (\<open>src/ops/snapshot.rs\<close>, \<open>src/ops/prune.rs\<close>,
  \<open>src/ops/send.rs\<close>, \<open>src/ops/server.rs\<close>) in a process of its own, so a state is a pair of outside
  states and nothing of the processes. What the steps keep is the snapshot that both sides share
  and hold, on which the next incremental transfer rests.
\<close>

section \<open>What the remote's zfs receive is relied on for\<close>

text \<open>
  Starting \<open>zfs receive\<close> changes no snapshot and no hold. When it ends, snapshots may have been
  added (the one received) or removed (rolled back by \<open>-F\<close>), but never one that is held.
  \<open>zfs holds\<close> prints holds of the snapshots that it was asked for only.
\<close>

definition faithful_receive :: "'w os \<Rightarrow> ('w \<Rightarrow> (string \<times> string) set) \<Rightarrow> ('w \<Rightarrow> string set) \<Rightarrow> bool" where
  "faithful_receive S H N \<longleftrightarrow>
     (\<forall>argv w. H (snd (zfs_receive_spawn S argv w)) = H w \<and> N (snd (zfs_receive_spawn S argv w)) = N w) \<and>
     (\<forall>argv bs w x tag. held H N x tag w \<longrightarrow> held H N x tag (snd (zfs_receive_finish S argv bs w)))"

definition holds_as_asked :: "'w os \<Rightarrow> bool" where
  "holds_as_asked S \<longleftrightarrow>
     (\<forall>xs w out err. fst (zfs_output S (''holds'' # ''-H'' # xs) w) = Exited True out err \<longrightarrow>
        fst ` set (hold_pairs out) \<subseteq> set xs)"

section \<open>Postconditions\<close>

text \<open>\<open>leads I K m\<close>: started where \<open>I\<close> holds of the outside world, \<open>m\<close> ends where \<open>K\<close> holds.\<close>

definition leads :: "('w \<Rightarrow> bool) \<Rightarrow> ('w \<Rightarrow> bool) \<Rightarrow> ('w, 'a) io \<Rightarrow> bool" where
  "leads I K m \<longleftrightarrow> (\<forall>s :: 'w st. I (env s) \<longrightarrow> K (env (snd (m s))))"

lemma leadsD: "leads I K m \<Longrightarrow> m s = (r, s') \<Longrightarrow> I (env s) \<Longrightarrow> K (env s')"
  unfolding leads_def by force

lemma guards_any: "guards I P m \<Longrightarrow> guards I (\<lambda>_. True) m"
  by (auto simp: guards_def list_all_iff) blast+

lemma guards_case_option:
  "guards I P a \<Longrightarrow> (\<And>x. guards I P (f x)) \<Longrightarrow> guards I P (case v of None \<Rightarrow> a | Some x \<Rightarrow> f x)"
  by (cases v) simp_all

lemma guards_leads: "guards I P m \<Longrightarrow> leads I I m"
  unfolding leads_def by (metis guardsD prod.collapse)

lemma leads_weaken: "leads I L m \<Longrightarrow> (\<And>w. L w \<Longrightarrow> K w) \<Longrightarrow> leads I K m"
  unfolding leads_def by blast

lemma leads_match:
  fixes m :: "('w, 'a) io"
  assumes "leads I L m" "\<And>a. leads L K (f a)" "\<And>e. leads L K (g e)" "\<And>w. L w \<Longrightarrow> K w"
  shows "leads I K (io_match m f g)"
  unfolding leads_def
proof (intro allI impI)
  fix s :: "'w st" assume I: "I (env s)"
  obtain r s1 where m: "m s = (r, s1)" by fastforce
  have "L (env s1)" using leadsD [OF assms(1) m I] .
  then show "K (env (snd (io_match m f g s)))"
    using assms(2-4) by (cases r) (simp_all add: io_match_def m leads_def)
qed

lemma leads_bind:
  assumes "leads I L m" "\<And>a. leads L K (f a)" "\<And>w. L w \<Longrightarrow> K w"
  shows "leads I K (io_bind m f)"
  unfolding io_bind_match using assms
  by (intro leads_match [where L = L]) (auto intro: leads_weaken [OF guards_leads [OF guards_pure(2)]])

lemma leads_case_prod: "(\<And>a b. leads I K (f a b)) \<Longrightarrow> leads I K (case v of (a, b) \<Rightarrow> f a b)"
  by (cases v) simp

text \<open>\<open>earns c Q m\<close>: when \<open>m\<close> starts the command \<open>c\<close>, it ends where \<open>Q\<close> holds.\<close>

definition earns :: "string list \<Rightarrow> ('w \<Rightarrow> bool) \<Rightarrow> ('w, 'a) io \<Rightarrow> bool" where
  "earns c Q m \<longleftrightarrow> (\<forall>s r s'. m s = (r, s') \<longrightarrow>
     (\<exists>cs. cmds s' = cmds s @ cs \<and> (c \<in> set cs \<longrightarrow> Q (env s'))))"

lemma earnsD:
  assumes "earns c Q m" "m s = (r, s')" "c \<in> set (drop (length (cmds s)) (cmds s'))"
  shows "Q (env s')"
  using assms unfolding earns_def by fastforce

lemma emits_earns: "emits (\<lambda>d. d \<noteq> c) m \<Longrightarrow> earns c Q m"
  unfolding earns_def by (metis (mono_tags, lifting) emitsD list_all_iff)

lemma earns_match:
  fixes f :: "'a \<Rightarrow> ('w, 'b) io"
  assumes "earns c Q m" "\<And>a. earns c Q (f a)" "\<And>e. earns c Q (g e)"
    and "\<And>a. guards Q P (f a)" "\<And>e. guards Q P (g e)"
  shows "earns c Q (io_match m f g)"
  unfolding earns_def
proof (intro allI impI)
  fix s r s' assume run: "io_match m f g s = (r, s')"
  obtain r1 s1 where m: "m s = (r1, s1)" by fastforce
  obtain cs1 where cs1: "cmds s1 = cmds s @ cs1" "c \<in> set cs1 \<Longrightarrow> Q (env s1)"
    using assms(1) m unfolding earns_def by blast
  have rest: "\<exists>cs. cmds s' = cmds s @ cs \<and> (c \<in> set cs \<longrightarrow> Q (env s'))"
    if n: "earns c Q n" "guards Q P n" "n s1 = (r, s')" for n :: "('w, 'b) io"
  proof -
    obtain cs2 where "cmds s' = cmds s1 @ cs2" "c \<in> set cs2 \<Longrightarrow> Q (env s')"
      using n(1,3) unfolding earns_def by blast
    then show ?thesis using cs1 guardsD [OF n(2,3)] by (auto intro!: exI [of _ "cs1 @ cs2"])
  qed
  show "\<exists>cs. cmds s' = cmds s @ cs \<and> (c \<in> set cs \<longrightarrow> Q (env s'))"
  proof (cases r1)
    case (Ok a)
    then show ?thesis using run rest [OF assms(2,4)] by (simp add: io_match_def m)
  next
    case (Err e)
    then show ?thesis using run rest [OF assms(3,5)] by (simp add: io_match_def m)
  next
    case (Panic p)
    then show ?thesis using run cs1 by (auto simp: io_match_def m)
  qed
qed

lemma earns_case_prod: "(\<And>a b. earns c Q (f a b)) \<Longrightarrow> earns c Q (case v of (a, b) \<Rightarrow> f a b)"
  by (cases v) simp

lemma earns_case_option:
  "earns c Q a \<Longrightarrow> (\<And>x. earns c Q (f x)) \<Longrightarrow> earns c Q (case v of None \<Rightarrow> a | Some x \<Rightarrow> f x)"
  by (cases v) simp_all

lemma earns_after:
  assumes "emits (\<lambda>d. d \<noteq> c) m" "\<And>a. earns c Q (f a)" "\<And>e. earns c Q (g e)"
  shows "earns c Q (io_match m f g)"
  unfolding earns_def
proof (intro allI impI)
  fix s r s' assume run: "io_match m f g s = (r, s')"
  obtain r1 s1 where m: "m s = (r1, s1)" by fastforce
  obtain cs1 where cs1: "cmds s1 = cmds s @ cs1" "c \<notin> set cs1"
    using emitsD [OF assms(1) m] by (auto simp: list_all_iff)
  have "(\<exists>cs2. cmds s' = cmds s1 @ cs2 \<and> (c \<in> set cs2 \<longrightarrow> Q (env s')))"
    using run assms(2,3) unfolding earns_def by (cases r1) (simp_all add: io_match_def m)
  with cs1 show "\<exists>cs. cmds s' = cmds s @ cs \<and> (c \<in> set cs \<longrightarrow> Q (env s'))"
    by (elim exE conjE) (simp add: exI [of _ "cs1 @ _"])
qed

lemma earns_after_bind: "emits (\<lambda>d. d \<noteq> c) m \<Longrightarrow> (\<And>a. earns c Q (f a)) \<Longrightarrow> earns c Q (io_bind m f)"
  unfolding io_bind_match by (rule earns_after) (auto intro: emits_earns emits_intro)

section \<open>What the holds of another dataset or remote do to a held snapshot\<close>

lemma find_held_in_asked:
  assumes "holds_as_asked S" "find_held_snapshots_in S snaps tag s = (Ok v, s')"
  shows "set v \<subseteq> set snaps"
proof (cases "snaps = []")
  case False
  then obtain out err where "fst (zfs_output S (''holds'' # ''-H'' # snaps) (env s)) = Exited True out err"
    and "v = parse_held_snapshots_for_tag out tag"
    using assms(2)
    by (auto simp: find_held_snapshots_in_def io_bind_Ok_iff run_def Let_def io_return_def case_prod_beta
        split: if_splits proc_out.splits)
  with assms(1) show ?thesis
    unfolding holds_as_asked_def parse_held_pairs by fastforce
qed (use assms(2) in \<open>simp add: find_held_snapshots_in_def io_return_def\<close>)

lemma find_held_dataset:
  assumes "faithful_pool S H N" "holds_as_asked S" "find_held_snapshots S ds tag s = (Ok v, s')"
    and "x \<in> set v" "CHR ''@'' \<in> set x"
  shows "dataset_of x = ds"
proof -
  obtain raw s1 where raw: "list_snapshots S ds s = (Ok raw, s1)" "find_held_snapshots_in S raw tag s1 = (Ok v, s')"
    using assms(3) by (auto simp: find_held_snapshots_def io_bind_Ok_iff)
  then have "x \<in> set raw" using find_held_in_asked [OF assms(2)] assms(4) by blast
  then show ?thesis using list_snapshots_known [OF assms(1) raw(1) _ assms(5)] by simp
qed

lemma guards_hold_then_release:
  assumes "faithful_pool S H N" "tag' \<noteq> tag \<or> x \<notin> set olds"
  shows "guards (held H N x tag) (spares x tag) (hold_then_release S tag' y olds)"
  unfolding hold_then_release_def hold_snapshot_def release_all_def release_hold_def using assms(2)
  by (auto intro!: guards_intro guards_held_run [OF assms(1)] simp: spares_def split: err.split)

lemma guards_place_transfer_hold:
  assumes "faithful_pool S H N" "holds_as_asked S" "CHR ''@'' \<in> set x"
    and "dataset_of x \<noteq> ds \<or> transfer_tag remote \<noteq> tag"
  shows "guards (held H N x tag) (spares x tag) (place_transfer_hold S ds y remote)"
proof -
  let ?find = "find_held_snapshots S ds (transfer_tag remote)"
  have "guards (held H N x tag) (spares x tag) ?find"
    unfolding find_held_snapshots_def list_snapshots_def find_held_snapshots_in_def
    by (auto intro!: guards_intro guards_held_run [OF assms(1)] simp: spares_def)
  then have find: "guards (held H N x tag) (spares x tag) (io_match ?find io_return (\<lambda>e. io_return []))"
    by (intro guards_match guards_pure)
  show ?thesis
    unfolding place_transfer_hold_def Let_def
  proof (rule guards_bind_result)
    show "guards (held H N x tag) (spares x tag) (io_match ?find (\<lambda>v. io_return v) (\<lambda>e. io_return []))"
      using find by simp
    fix s v s' assume "io_match ?find (\<lambda>v. io_return v) (\<lambda>e. io_return []) s = (Ok v, s')"
    then have "v = [] \<or> ?find s = (Ok v, s')"
      by (auto simp: io_match_def io_return_def split: prod.splits res.splits)
    then have "transfer_tag remote \<noteq> tag \<or> x \<notin> set v"
      using find_held_dataset [OF assms(1,2) _ _ assms(3)] assms(4) by auto
    then show "guards (held H N x tag) (spares x tag)
        (hold_then_release S (transfer_tag remote) y (filter (\<lambda>s. s \<noteq> y) v))"
      by (intro guards_hold_then_release [OF assms(1)]) auto
  qed
qed

section \<open>The client's runs keep the shared snapshot\<close>

lemma held_same: "H w' = H w \<Longrightarrow> N w' = N w \<Longrightarrow> held H N x tag w' \<longleftrightarrow> held H N x tag w"
  by (simp add: held_def)

text \<open>
  A transfer that does not start a hold for this remote in this dataset: to another remote, of
  another dataset, without anything to send, failed or cancelled.
\<close>

lemma send_keeps_held:
  assumes pool: "faithful_pool S H N" and asked: "holds_as_asked S" and at: "CHR ''@'' \<in> set x"
    and held: "held H N x (transfer_tag remote) (env s)"
    and run: "send_to_remote S J ctx s = (r, s')"
    and none: "\<And>z. dataset_of z = dataset_of x \<Longrightarrow>
      [''hold'', transfer_tag remote, z] \<notin> set (drop (length (cmds s)) (cmds s'))"
  shows "held H N x (transfer_tag remote) (env s')"
proof -
  let ?I = "held H N x (transfer_tag remote)"
  have keep: "guards ?I (\<lambda>_. True) (connect S (sx_remote_cfg ctx) [])" "guards ?I (\<lambda>_. True) (exchange S J ctx)"
    by (intro guards_spawn guards_exchange pool_held [OF pool];
        simp add: held_def pool_spawns [OF pool] spares_def)+
  have later: "?I (snd (elapsed_secs S w)) = ?I w" for w
    by (simp add: held_def pool_spawns [OF pool])
  show ?thesis
  proof (cases rule: send_to_remote_run [of S ctx s J])
    case (completed s1 s2 n w t s3)
    obtain cs1 where s1: "?I (env s1)" "cmds s1 = cmds s @ cs1" using guardsD [OF keep(1) completed(1) held] by blast
    obtain cs2 where "?I (env s2)" and cs2: "cmds s2 = cmds s1 @ cs2" using guardsD [OF keep(2) completed(2) s1(1)] by blast
    then have mid: "?I (env (s2\<lparr>env := w\<rparr>))" by (simp add: completed(6) later)
    let ?ds = "dataset_of (sx_latest ctx)"
    have "dataset_of x \<noteq> ?ds \<or> transfer_tag (sx_remote_name ctx) \<noteq> transfer_tag remote"
    proof (rule ccontr)
      assume "\<not> ?thesis"
      then have same: "?ds = dataset_of x" "transfer_tag (sx_remote_name ctx) = transfer_tag remote" by simp_all
      have "[''hold'', transfer_tag (sx_remote_name ctx), sx_latest ctx] \<in> set (drop (length (cmds s)) (cmds s'))"
        using confirmed_send_holds [OF completed(1,2,3)] run s1(2) cs2 by auto
      with none [OF same(1)] same(2) show False by simp
    qed
    then have "?I (env s3)"
      using guardsD [OF guards_place_transfer_hold [OF pool asked at] completed(4) [unfolded hold_latest_def] mid]
      by blast
    then show ?thesis using completed(5) run by simp
  next
    case (up_to_date s1 s2 w)
    then show ?thesis
      using guardsD [OF keep(1) up_to_date(1) held] guardsD [OF keep(2) up_to_date(2)] run later by fastforce
  next
    case (failed s1 s2 e w)
    then show ?thesis
      using guardsD [OF keep(1) failed(1) held] guardsD [OF keep(2) failed(2)] run later by fastforce
  next
    case (panicked s1 s2 p)
    then show ?thesis
      using guardsD [OF keep(1) panicked(1) held] guardsD [OF keep(2) panicked(2)] run by fastforce
  next
    case (no_connection e s1)
    then show ?thesis using guardsD [OF keep(1) no_connection(1) held] run by fastforce
  qed
qed

section \<open>The remote's runs\<close>

text \<open>A command that changes neither snapshots nor holds.\<close>

definition inert :: "string list \<Rightarrow> bool" where
  "inert argv \<longleftrightarrow> (\<forall>A. hold_effect argv A = A) \<and> (\<forall>A. snapshot_effect argv A = A)"

lemma inert_commands:
  "inert [''list'', ''-t'', ''snapshot'', ''--json'', ds]" "inert [''get'', ''--json'', p, ds]"
  "inert [''set'', p, ds]" "inert (''holds'' # ''-H'' # xs)"
  by (auto simp: inert_def hold_effect_def snapshot_effect_def split: list.split)

lemma guards_inert:
  assumes "faithful_pool S H N" "inert argv" "\<And>w w'. H w' = H w \<Longrightarrow> N w' = N w \<Longrightarrow> I w \<Longrightarrow> I w'"
  shows "guards I (\<lambda>_. True) (run S argv)" "guards I (\<lambda>_. True) (run_unit S argv)"
proof -
  have "H (snd (zfs_output S argv w)) = H w \<and> N (snd (zfs_output S argv w)) = N w" for w
    using assms(1,2) by (simp add: faithful_pool_def inert_def)
  then show "guards I (\<lambda>_. True) (run S argv)" "guards I (\<lambda>_. True) (run_unit S argv)"
    using assms(3) by (auto intro!: guards_intro)
qed

text \<open>The code that only looks, or sets a property, keeps all that is said of snapshots and holds.\<close>

lemma guards_looking:
  assumes "faithful_pool S H N" "\<And>w w'. H w' = H w \<Longrightarrow> N w' = N w \<Longrightarrow> I w \<Longrightarrow> I w'"
  shows "guards I (\<lambda>_. True) (list_snapshots S ds)" "guards I (\<lambda>_. True) (list_zrb S C ds)"
    "guards I (\<lambda>_. True) (find_held_snapshots_in S snaps tag)" "guards I (\<lambda>_. True) (get_resume_token S ds)"
    "guards I (\<lambda>_. True) (annotate_resume_if_needed S C ds)"
proof -
  note run = guards_inert [OF assms(1) _ assms(2)]
  have now: "guards I (\<lambda>_. True) (io_now S)"
    using pool_now [OF assms(1)] assms(2)
    by (intro guards_emits emits_intro) (auto simp: io_now_def case_prod_beta)
  show list: "guards I (\<lambda>_. True) (list_snapshots S ds)"
    unfolding list_snapshots_def by (intro guards_intro run inert_commands)
  show "guards I (\<lambda>_. True) (list_zrb S C ds)"
    unfolding list_zrb_def by (intro guards_intro list)
  show "guards I (\<lambda>_. True) (find_held_snapshots_in S snaps tag)"
  proof -
    have "guards I (\<lambda>_. True) (run S ([''holds'', ''-H''] @ snaps))"
      using run(1) [OF inert_commands(4)] by simp
    then show ?thesis unfolding find_held_snapshots_in_def by (intro guards_if guards_bind guards_pure)
  qed
  show token: "guards I (\<lambda>_. True) (get_resume_token S ds)"
    unfolding get_resume_token_def by (intro guards_intro run inert_commands)
  show "guards I (\<lambda>_. True) (annotate_resume_if_needed S C ds)"
    unfolding annotate_resume_if_needed_def get_resume_since_def set_resume_since_def
    by (intro guards_intro token now run inert_commands)
qed

lemma guards_server_handshake:
  assumes "faithful_pool T H N" "\<And>w w'. H w' = H w \<Longrightarrow> N w' = N w \<Longrightarrow> I w \<Longrightarrow> I w'"
  shows "guards I (\<lambda>_. True) (server_handshake T C J config permitted)"
  unfolding server_handshake_def send_status_def Let_def
  by (intro guards_intro guards_case_option guards_looking [OF assms])

lemma guards_receiving:
  assumes "faithful_receive T H N" "\<And>w w'. H w' = H w \<Longrightarrow> N w' = N w \<Longrightarrow> I w \<Longrightarrow> I w'"
  shows "guards I (\<lambda>_. True) (receive T ds opts)" "guards I (\<lambda>_. True) (receive_stream cancel recv)"
proof -
  have "env (snd (receive T ds opts s)) = snd (zfs_receive_spawn T ([''receive'', ''-s'', ds] @ opts) (env s))" for s
    by (simp add: receive_def Let_def split: prod.split sum.split)
  then show "guards I (\<lambda>_. True) (receive T ds opts)"
    using assms unfolding faithful_receive_def by (intro guards_emits emits_intro) auto
  show "guards I (\<lambda>_. True) (receive_stream cancel recv)"
    by (intro guards_emits emits_intro) (simp add: receive_stream_def split: prod.split res.split)
qed

text \<open>
  \<open>y\<close> is held while no snapshot of its dataset has been added to those in \<open>A\<close>. Once \<open>zfs receive\<close>
  has added one, the server may move its hold.
\<close>

definition held_until :: "('w \<Rightarrow> (string \<times> string) set) \<Rightarrow> ('w \<Rightarrow> string set) \<Rightarrow> string set \<Rightarrow> string \<Rightarrow> 'w \<Rightarrow> bool" where
  "held_until H N A y w \<longleftrightarrow>
     ((\<forall>z \<in> N w. dataset_of z = dataset_of y \<longrightarrow> z \<in> A) \<longrightarrow> held H N y RECEIVED_TAG w)"

lemma held_until_same: "H w' = H w \<Longrightarrow> N w' = N w \<Longrightarrow> held_until H N A y w \<Longrightarrow> held_until H N A y w'"
  by (simp add: held_until_def held_def)

lemma newest_zrb_within:
  "newest_zrb C A ds y \<Longrightarrow> y \<in> N \<Longrightarrow> (\<And>z. z \<in> N \<Longrightarrow> dataset_of z = ds \<Longrightarrow> z \<in> A) \<Longrightarrow> newest_zrb C N ds y"
  unfolding newest_zrb_def by blast

lemma guards_server_hold_other:
  assumes "faithful_pool T H N" "holds_as_asked T" "CHR ''@'' \<in> set y" "dataset_of y \<noteq> ds"
  shows "guards (held H N y tag) (\<lambda>_. True) (place_server_transfer_hold T C ds)"
  unfolding place_server_transfer_hold_def
proof (rule guards_match_result)
  show "guards (held H N y tag) (\<lambda>_. True) (list_zrb T C ds)"
    by (rule guards_looking [OF assms(1)]) (simp add: held_def)
  fix s snaps s' assume listed: "list_zrb T C ds s = (Ok snaps, s')"
  have other: "y \<notin> set snaps"
  proof
    assume "y \<in> set snaps"
    with list_zrb_correct [OF listed] obtain raw where "list_snapshots T ds s = (Ok raw, s')" "y \<in> set raw" by blast
    with list_snapshots_known [OF assms(1) _ _ assms(3)] assms(4) show False by blast
  qed
  let ?find = "find_held_snapshots_in T snaps RECEIVED_TAG"
  have body: "guards (held H N y tag) (\<lambda>_. True)
      (io_bind (io_match ?find (\<lambda>v. io_return v) (\<lambda>e. io_return []))
        (\<lambda>v. hold_then_release T RECEIVED_TAG z (filter (\<lambda>s. s \<noteq> z) v)))" for z
  proof (rule guards_bind_result)
    show "guards (held H N y tag) (\<lambda>_. True) (io_match ?find (\<lambda>v. io_return v) (\<lambda>e. io_return []))"
      by (intro guards_match guards_pure guards_looking [OF assms(1)]) (simp add: held_def)
    fix t v t' assume "io_match ?find (\<lambda>v. io_return v) (\<lambda>e. io_return []) t = (Ok v, t')"
    then have "v = [] \<or> ?find t = (Ok v, t')"
      by (auto simp: io_match_def io_return_def split: prod.splits res.splits)
    then have "y \<notin> set v" using find_held_in_asked [OF assms(2)] other by (metis empty_iff empty_set subsetD)
    then show "guards (held H N y tag) (\<lambda>_. True) (hold_then_release T RECEIVED_TAG z (filter (\<lambda>s. s \<noteq> z) v))"
      by (intro guards_any [OF guards_hold_then_release [OF assms(1)]]) simp
  qed
  show "guards (held H N y tag) (\<lambda>_. True)
      (case last_of snaps of None \<Rightarrow> io_return () | Some z \<Rightarrow>
         io_bind (io_match ?find (\<lambda>v. io_return v) (\<lambda>e. io_return []))
           (\<lambda>v. hold_then_release T RECEIVED_TAG z (filter (\<lambda>s. s \<noteq> z) v)))"
    by (auto simp: guards_intro body split: option.split)
qed (simp add: guards_intro)

text \<open>The server's hold adds and removes no snapshot, and takes the hold from \<open>y\<close> only for a newer one.\<close>

lemma guards_server_hold_snapshots:
  assumes "faithful_pool T H N"
  shows "guards (\<lambda>w. N w = A) (\<lambda>_. True) (place_server_transfer_hold T C ds)"
proof -
  have "N (snd (zfs_output T [c, tag, x] w)) = N w" for c tag x w
    using assms by (simp add: faithful_pool_def snapshot_effect_def)
  then have "guards (\<lambda>w. N w = A) (\<lambda>_. True) (hold_then_release T tag z olds)" for tag z olds
    unfolding hold_then_release_def hold_snapshot_def release_all_def release_hold_def
    by (auto intro!: guards_intro split: err.split)
  then show ?thesis
    unfolding place_server_transfer_hold_def
    by (intro guards_match guards_bind guards_pure guards_case_option guards_looking [OF assms]) simp_all
qed

lemma guards_server_hold:
  assumes "faithful_pool T H N" "holds_as_asked T" "newest_zrb C A (dataset_of y) y" "plain_name y"
  shows "guards (held_until H N A y) (\<lambda>_. True) (place_server_transfer_hold T C ds)"
proof (rule guards_emits [OF _ emits_mono [OF emits_place_server_hold TrueI]])
  fix s :: "'a st" assume K: "held_until H N A y (env s)"
  obtain r s' where run: "place_server_transfer_hold T C ds s = (r, s')" by fastforce
  have same: "N (env s') = N (env s)"
    using guardsD [OF guards_server_hold_snapshots [OF assms(1)] run refl] by blast
  have at: "CHR ''@'' \<in> set y" using assms(3) by (auto simp: newest_zrb_def intro: is_zrb_at)
  have "held H N y RECEIVED_TAG (env s')" if none: "\<forall>z \<in> N (env s). dataset_of z = dataset_of y \<longrightarrow> z \<in> A"
  proof -
    have h: "held H N y RECEIVED_TAG (env s)" using K none by (simp add: held_until_def)
    show ?thesis
    proof (cases "ds = dataset_of y")
      case True
      have "newest_zrb C (N (env s)) ds y"
        using newest_zrb_within [OF assms(3)] h none True by (auto simp: held_def)
      then show ?thesis using server_hold_held [OF assms(1) _ assms(4) run] by blast
    next
      case False
      then show ?thesis using guardsD [OF guards_server_hold_other [OF assms(1,2) at] run h] by metis
    qed
  qed
  then show "held_until H N A y (env (snd (place_server_transfer_hold T C ds s)))"
    by (simp add: run held_until_def same)
qed

lemma leads_finish:
  assumes "faithful_receive T H N"
  shows "leads (held H N y RECEIVED_TAG) (held_until H N A y) (finish T zr)"
proof -
  have "env (snd (finish T zr s)) = snd (zfs_receive_finish T (zr_argv zr) (wbytes (zr_stdin zr)) (env s))" for s
    by (simp add: finish_def Let_def split: prod.split proc_out.split)
  then show ?thesis
    using assms unfolding faithful_receive_def leads_def held_until_def by simp
qed

lemma leads_server_transfer:
  assumes pool: "faithful_pool T H N" and recv: "faithful_receive T H N" and asked: "holds_as_asked T"
    and y: "newest_zrb C A (dataset_of y) y" "plain_name y"
  shows "leads (held H N y RECEIVED_TAG) (held_until H N A y) (server_transfer T C J cancel hs)"
proof -
  let ?I = "held H N y RECEIVED_TAG" and ?K = "held_until H N A y"
  have IK: "?I w \<Longrightarrow> ?K w" for w by (simp add: held_until_def)
  have same: "H w' = H w \<Longrightarrow> N w' = N w \<Longrightarrow> ?I w \<Longrightarrow> ?I w'" for w w'
    by (simp add: held_def)
  have annotate: "guards ?K (\<lambda>_. True) (annotate_resume_if_needed T C ds)" for ds
    by (rule guards_looking(5) [OF pool]) (rule held_until_same)
  note later = annotate guards_server_hold [OF pool asked y] guards_intro
  have receiving: "guards ?I (\<lambda>_. True) (receive T ds opts)" "guards ?I (\<lambda>_. True) (receive_stream cancel zr)"
    for ds opts zr
    by (rule guards_receiving [OF recv]; rule same; assumption)+
  have status: "guards ?K (\<lambda>_. True) (send_status J ok msg)" for ok msg
    unfolding send_status_def by (rule guards_intro)
  have ends: "leads ?I ?K (case r of Inr cancelled \<Rightarrow>
         if cancelled
         then io_bind (io_match (finish T zr) (\<lambda>_. io_return ()) (\<lambda>e. io_return ()))
                (\<lambda>_. annotate_resume_if_needed T C (hs_target hs))
         else io_match (finish T zr)
                (\<lambda>_. io_bind (place_server_transfer_hold T C (hs_target hs)) (\<lambda>_. send_status J True ''ok''))
                (\<lambda>e. io_bind (annotate_resume_if_needed T C (hs_target hs))
                       (\<lambda>_. send_status J False (display_err e)))
     | Inl e \<Rightarrow>
         io_bind (io_match (finish T zr) (\<lambda>_. io_return None) (\<lambda>e. io_return (Some e)))
           (\<lambda>recv_err. io_bind (annotate_resume_if_needed T C (hs_target hs))
              (\<lambda>_. send_status J False
                     (case recv_err of None \<Rightarrow> ''stream error'' | Some e \<Rightarrow> display_err e))))"
    for r zr
    by (cases r)
      (auto intro!: leads_bind [where L = ?K] leads_match [where L = ?K] leads_finish [OF recv]
        guards_leads [where P = "\<lambda>_. True"] guards_bind later status)
  show ?thesis
    unfolding server_transfer_def
    by (intro leads_bind [where L = ?I] guards_leads [where P = "\<lambda>_. True"] guards_context receiving IK leads_case_prod ends)
qed

lemma serve_keeps:
  assumes pool: "faithful_pool T H N" and recv: "faithful_receive T H N" and asked: "holds_as_asked T"
    and y: "newest_zrb C (N (env t)) target y" "plain_name y" "held H N y RECEIVED_TAG (env t)"
    and run: "run_server_on T C J config permitted cancel t = (q, t')"
    and none: "\<And>z. z \<in> N (env t') \<Longrightarrow> dataset_of z = target \<Longrightarrow> z \<in> N (env t)"
  shows "newest_zrb C (N (env t')) target y \<and> held H N y RECEIVED_TAG (env t')"
proof -
  let ?I = "held H N y RECEIVED_TAG" and ?K = "held_until H N (N (env t)) y"
  have ds: "dataset_of y = target" using y(1) by (simp add: newest_zrb_def)
  have IK: "?I w \<Longrightarrow> ?K w" for w by (simp add: held_until_def)
  have same: "H w' = H w \<Longrightarrow> N w' = N w \<Longrightarrow> ?I w \<Longrightarrow> ?I w'" for w w'
    by (simp add: held_def)
  have hs: "guards ?I (\<lambda>_. True) (server_handshake T C J config permitted)"
    by (rule guards_server_handshake [OF pool]) (rule same)
  note transfer = leads_server_transfer [OF pool recv asked y(1) [folded ds] y(2)]
  have "leads ?I ?K (run_server_on T C J config permitted cancel)"
    unfolding run_server_on_def
    by (intro leads_bind [where L = ?I] guards_leads [OF hs] IK)
      (auto intro!: leads_bind [where L = ?I] transfer IK
        leads_weaken [OF guards_leads [OF guards_pure(1)]] guards_leads guards_context guards_comms split: option.split)
  then have "?K (env t')" using leadsD run y(3) by blast
  then have "?I (env t')" using none by (simp add: held_until_def ds)
  then show ?thesis
    using newest_zrb_within [OF y(1)] none by (simp add: held_def)
qed

lemma server_hold_trace:
  assumes list: "list_zrb T C ds s = (Ok snaps, s1)" "last_of snaps = Some z"
    and run: "place_server_transfer_hold T C ds s = (r, s')"
  obtains v s2 cs2 cs3 where
    "io_match (find_held_snapshots_in T snaps RECEIVED_TAG) (\<lambda>v. io_return v) (\<lambda>e. io_return []) s1 = (Ok v, s2)"
    "hold_then_release T RECEIVED_TAG z (filter (\<lambda>s. s \<noteq> z) v) s2 = (r, s')"
    "cmds s' = cmds s1 @ cs2 @ [''hold'', RECEIVED_TAG, z] # cs3"
    "\<And>x. [''hold'', RECEIVED_TAG, x] \<notin> set (cs2 @ cs3)"
proof -
  let ?find = "io_match (find_held_snapshots_in T snaps RECEIVED_TAG) (\<lambda>v. io_return v) (\<lambda>e. io_return [])"
  obtain p s2 where find: "?find s1 = (p, s2)" by fastforce
  obtain v where v: "p = Ok v"
    using find find_held_in_no_panic [of T snaps RECEIVED_TAG s1]
    by (auto simp: io_match_def io_return_def split: prod.splits res.splits)
  then have rest: "hold_then_release T RECEIVED_TAG z (filter (\<lambda>s. s \<noteq> z) v) s2 = (r, s')"
    using run list find by (simp add: place_server_transfer_hold_def io_match_def [of "list_zrb T C ds"] io_bind_def)
  have quiet: "emits (\<lambda>d. \<forall>x. d \<noteq> [''hold'', RECEIVED_TAG, x]) ?find" by (intro emits_intro) simp
  obtain cs2 where cs2: "cmds s2 = cmds s1 @ cs2" "list_all (\<lambda>d. \<forall>x. d \<noteq> [''hold'', RECEIVED_TAG, x]) cs2"
    using emitsD [OF quiet find] by blast
  obtain t1 q1 where h: "hold_snapshot T z RECEIVED_TAG s2 = (q1, t1)" by fastforce
  obtain t2 where t2: "release_all T RECEIVED_TAG (filter (\<lambda>s. s \<noteq> z) v) t1 = (Ok (), t2)"
    "cmds t2 = cmds t1 @ map (\<lambda>old. [''release'', RECEIVED_TAG, old]) (filter (\<lambda>s. s \<noteq> z) v)"
    using release_all_run by blast
  define cs3 where "cs3 = (if \<exists>u. q1 = Ok u
    then map (\<lambda>old. [''release'', RECEIVED_TAG, old]) (filter (\<lambda>s. s \<noteq> z) v) else [])"
  have "cmds s' = cmds s1 @ cs2 @ [''hold'', RECEIVED_TAG, z] # cs3"
    using rest h t2 hold_snapshot_cmds [OF h] cs2(1)
    by (cases q1) (auto simp: hold_then_release_def io_match_def io_return_def cs3_def)
  moreover have "[''hold'', RECEIVED_TAG, x] \<notin> set (cs2 @ cs3)" for x
    using cs2(2) by (auto simp: cs3_def list_all_iff)
  ultimately show thesis using that find v rest by blast
qed

text \<open>A server that starts its hold on \<open>y\<close> has it held when it is done.\<close>

lemma earns_server_hold:
  assumes pool: "faithful_pool T H N" and at: "CHR ''@'' \<in> set y"
  shows "earns [''hold'', RECEIVED_TAG, y] (held H N y RECEIVED_TAG) (place_server_transfer_hold T C ds)"
  unfolding earns_def
proof (intro allI impI)
  let ?c = "[''hold'', RECEIVED_TAG, y]" and ?Q = "held H N y RECEIVED_TAG"
  fix s r s' assume run: "place_server_transfer_hold T C ds s = (r, s')"
  obtain q s1 where list: "list_zrb T C ds s = (q, s1)" by fastforce
  obtain cs1 where cs1: "cmds s1 = cmds s @ cs1" "?c \<notin> set cs1"
    using emitsD [OF emits_list_zrb list, of "\<lambda>d. d \<noteq> ?c"] by (auto simp: list_all_iff)
  show "\<exists>cs. cmds s' = cmds s @ cs \<and> (?c \<in> set cs \<longrightarrow> ?Q (env s'))"
  proof (cases "\<exists>snaps z. q = Ok snaps \<and> last_of snaps = Some z")
    case False
    then have "s' = s1"
      using run list by (cases q) (auto simp: place_server_transfer_hold_def io_match_def io_return_def split: option.splits)
    with cs1 show ?thesis by auto
  next
    case True
    then obtain snaps z where q: "q = Ok snaps" "last_of snaps = Some z" by blast
    let ?find = "io_match (find_held_snapshots_in T snaps RECEIVED_TAG) (\<lambda>v. io_return v) (\<lambda>e. io_return [])"
    obtain v s2 cs2 cs3 where find: "?find s1 = (Ok v, s2)"
      and rest: "hold_then_release T RECEIVED_TAG z (filter (\<lambda>s. s \<noteq> z) v) s2 = (r, s')"
      and cs: "cmds s' = cmds s1 @ cs2 @ [''hold'', RECEIVED_TAG, z] # cs3" "?c \<notin> set (cs2 @ cs3)"
      using server_hold_trace [OF list [unfolded q(1)] q(2) run] by metis
    have "?Q (env s')" if "z = y"
    proof -
      have "y \<in> set snaps" using q(2) that by (auto simp: last_of_def split: if_splits)
      with list_zrb_correct [OF list [unfolded q(1)]] obtain raw where
        raw: "list_snapshots T ds s = (Ok raw, s1)" "y \<in> set raw"
        by blast
      have "y \<in> N (env s)" using list_snapshots_known [OF pool raw at] by simp
      moreover have "N (env s2) = N (env s)"
      proof -
        have same: "guards (\<lambda>w. N w = A) (\<lambda>_. True) (list_zrb T C ds)" "guards (\<lambda>w. N w = A) (\<lambda>_. True) ?find" for A
          by (intro guards_match guards_pure guards_looking [OF pool]; simp)+
        show ?thesis using guardsD [OF same(1) list refl] guardsD [OF same(2) find refl] by metis
      qed
      ultimately show ?thesis
        using hold_then_release_held [OF pool, of y s2 "filter (\<lambda>s. s \<noteq> z) v" RECEIVED_TAG] rest that by simp
    qed
    with cs1 cs show ?thesis by (intro exI [of _ "cs1 @ cs2 @ [''hold'', RECEIVED_TAG, z] # cs3"]) auto
  qed
qed

lemma serve_earns:
  assumes pool: "faithful_pool T H N" and at: "CHR ''@'' \<in> set y"
  shows "earns [''hold'', RECEIVED_TAG, y] (held H N y RECEIVED_TAG) (run_server_on T C J config permitted cancel)"
proof -
  let ?c = "[''hold'', RECEIVED_TAG, y]" and ?Q = "held H N y RECEIVED_TAG"
  have annotate: "emits (\<lambda>d. d \<noteq> ?c) (annotate_resume_if_needed T C ds)" for ds
    unfolding annotate_resume_if_needed_def get_resume_token_def get_resume_since_def set_resume_since_def
    by (intro emits_intro) simp_all
  have status: "emits (\<lambda>d. d \<noteq> ?c) (send_status J ok msg)" "guards ?Q (\<lambda>_. True) (send_status J ok msg)" for ok msg
    unfolding send_status_def by (intro emits_intro guards_intro)+
  have handshake: "emits (\<lambda>d. d \<noteq> ?c) (server_handshake T C J config permitted)"
    by (rule emits_server_handshake) simp_all
  have held: "earns ?c ?Q (io_bind (place_server_transfer_hold T C ds) (\<lambda>_. send_status J True ''ok''))" for ds
    unfolding io_bind_match
    by (intro earns_match [where P = "\<lambda>_. True"] earns_server_hold [OF pool at] emits_earns status guards_pure emits_intro)
  have receive: "emits (\<lambda>d. d \<noteq> ?c) (io_context msg (receive T ds opts))" for msg ds opts
    by (intro emits_intro) simp
  have ends: "earns ?c ?Q (case r of Inr cancelled \<Rightarrow>
         if cancelled
         then io_bind (io_match (finish T zr) (\<lambda>_. io_return ()) (\<lambda>e. io_return ()))
                (\<lambda>_. annotate_resume_if_needed T C (hs_target hs))
         else io_match (finish T zr)
                (\<lambda>_. io_bind (place_server_transfer_hold T C (hs_target hs)) (\<lambda>_. send_status J True ''ok''))
                (\<lambda>e. io_bind (annotate_resume_if_needed T C (hs_target hs))
                       (\<lambda>_. send_status J False (display_err e)))
     | Inl e \<Rightarrow>
         io_bind (io_match (finish T zr) (\<lambda>_. io_return None) (\<lambda>e. io_return (Some e)))
           (\<lambda>recv_err. io_bind (annotate_resume_if_needed T C (hs_target hs))
              (\<lambda>_. send_status J False
                     (case recv_err of None \<Rightarrow> ''stream error'' | Some e \<Rightarrow> display_err e))))"
    for r zr hs
  proof (cases "r = Inr False")
    case True
    then show ?thesis by (simp add: earns_after emits_finish held emits_earns annotate status emits_bind)
  next
    case False
    then show ?thesis
      by (cases r) (auto intro!: emits_earns annotate status emits_intro)
  qed
  have transfer: "earns ?c ?Q (server_transfer T C J cancel hs)" for hs
    unfolding server_transfer_def
    by (intro earns_after_bind receive emits_intro earns_case_prod ends)
  have ready: "emits (\<lambda>d. d \<noteq> ?c) (io_context msg (io_recv f))" for msg and f :: "rstream \<Rightarrow> client_ready res \<times> rstream"
    by (intro emits_intro)
  show ?thesis
    unfolding run_server_on_def
    by (intro earns_after_bind handshake earns_case_option)
      (auto intro!: earns_after_bind ready transfer intro: emits_earns emits_intro)
qed

section \<open>Rounds of backups\<close>

text \<open>
  One dataset and one remote: the two machines, what their pools hold (holds and snapshots), and
  the names that tell this backup from others on the same machines.
\<close>

record ('v, 'w) backup =
  bk_client :: "'v os"
  bk_client_holds :: "'v \<Rightarrow> (string \<times> string) set"
  bk_client_snaps :: "'v \<Rightarrow> string set"
  bk_server :: "'w os"
  bk_server_holds :: "'w \<Rightarrow> (string \<times> string) set"
  bk_server_snaps :: "'w \<Rightarrow> string set"
  bk_chrono :: chrono
  bk_json :: json_api
  bk_source :: string
  bk_remote :: string
  bk_target :: string

definition faithful_backup :: "('v, 'w) backup \<Rightarrow> bool" where
  "faithful_backup B \<longleftrightarrow>
     faithful_pool (bk_client B) (bk_client_holds B) (bk_client_snaps B) \<and> holds_as_asked (bk_client B) \<and>
     faithful_pool (bk_server B) (bk_server_holds B) (bk_server_snaps B) \<and> holds_as_asked (bk_server B) \<and>
     faithful_receive (bk_server B) (bk_server_holds B) (bk_server_snaps B) \<and> plain_name (bk_remote B)"

text \<open>
  A transfer that both sides have settled: the client started its hold on the snapshot that was
  sent, the server its own on the newest snapshot of the target, and that is the one that was sent.
\<close>

inductive settled_transfer :: "('v, 'w) backup \<Rightarrow> 'v \<times> 'w \<Rightarrow> 'v \<times> 'w \<Rightarrow> bool" for B where
  "send_to_remote (bk_client B) (bk_json B) ctx s = (r, s') \<Longrightarrow>
   dataset_of (sx_latest ctx) = bk_source B \<Longrightarrow> sx_remote_name ctx = bk_remote B \<Longrightarrow>
   is_zrb (bk_chrono B) (sx_latest ctx) \<Longrightarrow> plain_name (sx_latest ctx) \<Longrightarrow>
   sx_latest ctx \<in> bk_client_snaps B (env s) \<Longrightarrow>
   [''hold'', transfer_tag (bk_remote B), sx_latest ctx] \<in> set (drop (length (cmds s)) (cmds s')) \<Longrightarrow>
   run_server_on (bk_server B) (bk_chrono B) (bk_json B) config permitted cancel t = (q, t') \<Longrightarrow>
   newest_zrb (bk_chrono B) (bk_server_snaps B (env t')) (bk_target B) y \<Longrightarrow> plain_name y \<Longrightarrow>
   snap_name y = snap_name (sx_latest ctx) \<Longrightarrow>
   [''hold'', RECEIVED_TAG, y] \<in> set (drop (length (cmds t)) (cmds t')) \<Longrightarrow>
   settled_transfer B (env s, env t) (env s', env t')"

text \<open>
  A run of \<open>zrb\<close> on one of the two machines: snapshots of any dataset are taken and pruned, on
  either side and with any policy; the client sends without starting a hold for this dataset and
  remote (other datasets, other remotes, nothing to send, an error, a cancellation); the server
  serves any client without receiving a snapshot of this target; or a transfer is settled. Not a
  step: a transfer after which only one side has started its hold (cancelled during its last
  chunk, or its confirmation lost), see theory \<open>Cancel\<close>.
\<close>

inductive backup_step :: "('v, 'w) backup \<Rightarrow> 'v \<times> 'w \<Rightarrow> 'v \<times> 'w \<Rightarrow> bool" for B where
  take_snapshot: "snapshot (bk_client B) (bk_chrono B) ds s = (r, s') \<Longrightarrow>
    backup_step B (env s, v) (env s', v)"
| prune_client: "prune (bk_client B) (bk_chrono B) ds config hold_days dry_run abort_res s = (r, s') \<Longrightarrow>
    backup_step B (env s, v) (env s', v)"
| prune_server: "prune (bk_server B) (bk_chrono B) ds config hold_days dry_run abort_res t = (q, t') \<Longrightarrow>
    backup_step B (w, env t) (w, env t')"
| other_send: "send_to_remote (bk_client B) (bk_json B) ctx s = (r, s') \<Longrightarrow>
    (\<And>z. dataset_of z = bk_source B \<Longrightarrow>
      [''hold'', transfer_tag (bk_remote B), z] \<notin> set (drop (length (cmds s)) (cmds s'))) \<Longrightarrow>
    backup_step B (env s, v) (env s', v)"
| other_serve: "run_server_on (bk_server B) (bk_chrono B) (bk_json B) config permitted cancel t = (q, t') \<Longrightarrow>
    (\<And>z. z \<in> bk_server_snaps B (env t') \<Longrightarrow> dataset_of z = bk_target B \<Longrightarrow> z \<in> bk_server_snaps B (env t)) \<Longrightarrow>
    backup_step B (w, env t) (w, env t')"
| transfer: "settled_transfer B a b \<Longrightarrow> backup_step B a b"

text \<open>What all steps keep: a snapshot that both sides have and hold, the newest one of the target.\<close>

definition shared_base :: "('v, 'w) backup \<Rightarrow> 'v \<times> 'w \<Rightarrow> bool" where
  "shared_base B p \<longleftrightarrow>
     (\<exists>x y. held (bk_client_holds B) (bk_client_snaps B) x (transfer_tag (bk_remote B)) (fst p) \<and>
        dataset_of x = bk_source B \<and> is_zrb (bk_chrono B) x \<and> plain_name x \<and>
        held (bk_server_holds B) (bk_server_snaps B) y RECEIVED_TAG (snd p) \<and>
        newest_zrb (bk_chrono B) (bk_server_snaps B (snd p)) (bk_target B) y \<and> plain_name y \<and>
        snap_name y = snap_name x)"

lemma shared_baseI:
  assumes "held (bk_client_holds B) (bk_client_snaps B) x (transfer_tag (bk_remote B)) w"
    "dataset_of x = bk_source B" "is_zrb (bk_chrono B) x" "plain_name x"
    "held (bk_server_holds B) (bk_server_snaps B) y RECEIVED_TAG v"
    "newest_zrb (bk_chrono B) (bk_server_snaps B v) (bk_target B) y" "plain_name y" "snap_name y = snap_name x"
  shows "shared_base B (w, v)"
  using assms unfolding shared_base_def by auto

lemma settled_transfer_shares:
  assumes "faithful_backup B" "settled_transfer B a b"
  shows "shared_base B b"
  using assms(2)
proof cases
  case (1 ctx s r s' config permitted cancel t q t' y)
  have pools: "faithful_pool (bk_client B) (bk_client_holds B) (bk_client_snaps B)"
    "faithful_pool (bk_server B) (bk_server_holds B) (bk_server_snaps B)"
    using assms(1) by (simp_all add: faithful_backup_def)
  have "snd (send_to_remote (bk_client B) (bk_json B) ctx s) = s'" using 1(3) by simp
  then have "held (bk_client_holds B) (bk_client_snaps B) (sx_latest ctx) (transfer_tag (bk_remote B)) (env s')"
    using send_leaves_held [OF pools(1) 1(8), of "transfer_tag (bk_remote B)" "sx_latest ctx" "bk_json B"] 1(5,9)
    by simp
  moreover have "CHR ''@'' \<in> set y" using 1(11) by (auto simp: newest_zrb_def intro: is_zrb_at)
  then have "held (bk_server_holds B) (bk_server_snaps B) y RECEIVED_TAG (env t')"
    using earnsD [OF serve_earns [OF pools(2)] 1(10) 1(14)] by simp
  ultimately show ?thesis
    unfolding 1(2) using shared_baseI 1(4,6,7,11-13) by metis
qed

lemma guards_snapshot:
  assumes "faithful_pool S H N"
  shows "guards (held H N x tag) (spares x tag) (snapshot S C ds)"
  unfolding snapshot_def create_snapshot_def io_expect_def Let_def
  by (auto intro!: guards_intro guards_held_now [OF assms] guards_held_run [OF assms] guards_case_option
      simp: spares_def)

lemma received_tag: "plain_name RECEIVED_TAG" "prefix ''zrb:'' RECEIVED_TAG"
  by (simp_all add: RECEIVED_TAG_def plain_name_def)

lemma transfer_tag_plain: "plain_name remote \<Longrightarrow> plain_name (transfer_tag remote)" "prefix ''zrb:'' (transfer_tag remote)"
  by (simp_all add: transfer_tag_def plain_name_def)

text \<open>Pruning on the remote keeps its newest snapshot and the hold on it.\<close>

lemma prune_keeps_newest:
  assumes pool: "faithful_pool T H N" and y: "newest_zrb C (N (env t)) target y" "plain_name y" "held H N y RECEIVED_TAG (env t)"
    and run: "prune T C' ds config hold_days dry_run abort_res t = (q, t')"
  shows "newest_zrb C (N (env t')) target y \<and> held H N y RECEIVED_TAG (env t')"
proof -
  have "held H N y RECEIVED_TAG (env t')"
    using guardsD [OF guards_prune [OF pool y(2) received_tag] run y(3)] by blast
  then show ?thesis
    using newest_zrb_subset [OF y(1)] prune_adds_nothing [OF pool run] by (simp add: held_def)
qed

lemma shared_base_step:
  assumes B: "faithful_backup B" and step: "backup_step B p p'" and base: "shared_base B p"
  shows "shared_base B p'"
proof -
  have client: "faithful_pool (bk_client B) (bk_client_holds B) (bk_client_snaps B)" "holds_as_asked (bk_client B)"
    and server: "faithful_pool (bk_server B) (bk_server_holds B) (bk_server_snaps B)"
      "faithful_receive (bk_server B) (bk_server_holds B) (bk_server_snaps B)" "holds_as_asked (bk_server B)"
    and remote: "plain_name (bk_remote B)"
    using B by (simp_all add: faithful_backup_def)
  let ?I = "\<lambda>x. held (bk_client_holds B) (bk_client_snaps B) x (transfer_tag (bk_remote B))"
  let ?K = "\<lambda>y. held (bk_server_holds B) (bk_server_snaps B) y RECEIVED_TAG"
  obtain x y where x: "?I x (fst p)" "dataset_of x = bk_source B" "is_zrb (bk_chrono B) x" "plain_name x"
    and y: "?K y (snd p)" "newest_zrb (bk_chrono B) (bk_server_snaps B (snd p)) (bk_target B) y" "plain_name y"
      "snap_name y = snap_name x"
    using base unfolding shared_base_def by blast
  have to_client: "shared_base B (w, snd p)" if "?I x w" for w
    by (rule shared_baseI [OF that x(2-4) y])
  have to_server: "shared_base B (fst p, v)"
    if "?K y v" "newest_zrb (bk_chrono B) (bk_server_snaps B v) (bk_target B) y" for v
    by (rule shared_baseI [OF x that y(3,4)])
  show ?thesis
    using step
  proof cases
    case (take_snapshot ds s r s' v)
    then have "?I x (env s')" using guardsD [OF guards_snapshot [OF client(1)] take_snapshot(3)] x(1) by simp
    then show ?thesis using to_client take_snapshot by simp
  next
    case (prune_client ds config hold_days dry_run abort_res s r s' v)
    have "?I x (env s')"
      using guardsD [OF guards_prune [OF client(1) x(4) transfer_tag_plain(1) [OF remote] transfer_tag_plain(2)] prune_client(3)] x(1) prune_client
      by simp
    then show ?thesis using to_client prune_client by simp
  next
    case (prune_server ds config hold_days dry_run abort_res t q t' w)
    have "newest_zrb (bk_chrono B) (bk_server_snaps B (env t')) (bk_target B) y \<and> ?K y (env t')"
      using prune_server y by (intro prune_keeps_newest [OF server(1) _ _ _ prune_server(3)]) simp_all
    then show ?thesis using to_server prune_server by simp
  next
    case (other_send ctx s r s' v)
    have "?I x (env s')"
      using other_send x(1,2) by (intro send_keeps_held [OF client is_zrb_at [OF x(3)] _ other_send(3)]) simp_all
    then show ?thesis using to_client other_send by simp
  next
    case (other_serve config permitted cancel t q t' w)
    have "newest_zrb (bk_chrono B) (bk_server_snaps B (env t')) (bk_target B) y \<and> ?K y (env t')"
      using other_serve y by (intro serve_keeps [OF server _ _ _ other_serve(3)]) simp_all
    then show ?thesis using to_server other_serve by simp
  next
    case transfer
    then show ?thesis by (rule settled_transfer_shares [OF B])
  qed
qed

lemma decide_transfer_chained:
  assumes "sh_head hello = Some h" "snap_name h = Some n" "x \<in> set local" "snap_name x = Some n"
  shows "decide_transfer hello local latest = Ok AlreadyUpToDate \<or>
    (\<exists>token. sh_resume_token hello = Some token \<and> decide_transfer hello local latest = Ok (ResumeSend token)) \<or>
    (\<exists>base \<in> set local. snap_name base = Some n \<and> decide_transfer hello local latest = Ok (IncrementalSend base))"
proof (cases "sh_resume_token hello")
  case None
  then show ?thesis using decide_transfer_incremental [OF assms(1,2) None assms(3,4)] by blast
next
  case (Some token)
  then show ?thesis by (simp add: decide_transfer_cases assms(1))
qed


section \<open>Witness\<close>

text \<open>The small pool as a server whose \<open>zfs receive\<close> adds the snapshot that was sent.\<close>

definition serve_os :: "small_pool os" where
  "serve_os = small_os\<lparr>zfs_receive_finish :=
     \<lambda>argv bs w. (Exited True [] [], (''t@zrb-2026-05-07T00:00:00Z'' # fst w, snd w))\<rparr>"

definition serve_state :: "small_pool st" where
  "serve_state = \<lparr>env = ([''t@zrb-2026-05-06T00:00:00Z''], []), cmds = [], inp = inp xf_server, outp = outp xf_server,
     notices = []\<rparr>"

definition small_backup :: "(small_pool, small_pool) backup" where
  "small_backup = \<lparr>bk_client = small_os, bk_client_holds = (\<lambda>w. set (snd w)), bk_client_snaps = (\<lambda>w. set (fst w)),
     bk_server = serve_os, bk_server_holds = (\<lambda>w. set (snd w)), bk_server_snaps = (\<lambda>w. set (fst w)),
     bk_chrono = gregorian, bk_json = example_json, bk_source = ''d'', bk_remote = ''nas'', bk_target = ''t''\<rparr>"

lemma small_holds_as_asked:
  assumes "zfs_output S = pool_output"
  shows "holds_as_asked S"
  unfolding holds_as_asked_def assms
proof (intro allI impI)
  fix xs w out err assume "fst (pool_output (''holds'' # ''-H'' # xs) w) = Exited True out err"
  then have "out = hold_lines (map (\<lambda>(x, t). (x, t, ''now''))
      (filter (\<lambda>(x, t). x \<in> set xs \<and> plain_name x \<and> plain_name t) (snd w)))" (is "_ = hold_lines ?hs")
    by (auto simp: pool_output_def pool_report_def Let_def split: list.splits)
  moreover have "list_all hold_ok ?hs"
    by (auto simp: list_all_iff hold_ok_def plain_name_def)
  ultimately show "fst ` set (hold_pairs out) \<subseteq> set xs"
    by (auto simp: hold_pairs_lines)
qed

lemma small_backup_faithful: "faithful_backup small_backup"
proof -
  have same: "zfs_output serve_os = zfs_output small_os" "parse_zfs_json serve_os = parse_zfs_json small_os"
    "utc_now serve_os = utc_now small_os" "elapsed_secs serve_os = elapsed_secs small_os"
    "zfs_spawn_send serve_os = zfs_spawn_send small_os" "ssh_spawn serve_os = ssh_spawn small_os"
    by (simp_all add: serve_os_def)
  have "faithful_pool serve_os (\<lambda>w. set (snd w)) (\<lambda>w. set (fst w))"
    using small_pool_faithful unfolding faithful_pool_def same .
  moreover have "faithful_receive serve_os (\<lambda>w. set (snd w)) (\<lambda>w. set (fst w))"
    by (simp add: faithful_receive_def held_def serve_os_def small_os_def)
  moreover have "holds_as_asked small_os" "holds_as_asked serve_os"
    by (rule small_holds_as_asked; simp add: serve_os_def small_os_def)+
  ultimately show ?thesis
    using small_pool_faithful by (simp add: faithful_backup_def small_backup_def plain_name_def)
qed

lemma serve_token: "get_resume_token serve_os ''t'' s =
    (Ok None, s\<lparr>cmds := cmds s @ [[''get'', ''--json'', ''receive_resume_token'', ''t'']]\<rparr>)"
  by (simp add: get_resume_token_def run_def serve_os_def small_os_def pool_output_def pool_report_def io_match_def
      io_bind_def io_result_def io_return_def decode_property_json_def parse_json_def map_token_value_def Let_def)

lemma serve_raw:
  assumes "env s = ([''t@zrb-2026-05-06T00:00:00Z''], [])"
  shows "list_snapshots serve_os ''t'' s = (Ok [''t@zrb-2026-05-06T00:00:00Z'', []],
    s\<lparr>cmds := cmds s @ [[''list'', ''-t'', ''snapshot'', ''--json'', ''t'']]\<rparr>)"
  using assms
  by (simp add: list_snapshots_def run_def serve_os_def small_os_def pool_output_def pool_report_def io_match_def
      io_result_def io_return_def decode_list_json_def parse_json_def Let_def plain_name_def dataset_of_def)

lemma serve_hello: "hs_hello = \<lparr>sh_version = CARGO_PKG_VERSION,
    sh_head = last_of (sort_chronological gregorian (filter_zrb gregorian [''t@zrb-2026-05-06T00:00:00Z'', []])),
    sh_resume_token = None\<rparr>"
proof -
  have "\<not> is_zrb gregorian []" by (simp add: is_zrb_def parse_def)
  then show ?thesis
    by (simp add: hs_hello_def last_of_def filter_zrb_def is_zrb_def parse_example sort_chronological_def)
qed

lemma serve_newest:
  "newest_zrb gregorian {''t@zrb-2026-05-07T00:00:00Z'', ''t@zrb-2026-05-06T00:00:00Z''} ''t''
     ''t@zrb-2026-05-07T00:00:00Z''"
  by (simp add: newest_zrb_def dataset_of_def is_zrb_def parse_def strip_prefix_def PREFIX_def calendar_eval
      less_datetime_def)

text \<open>The handshake, and then the transfer into the pool.\<close>

lemma serve_handshake:
  obtains i o' where "server_handshake serve_os gregorian example_json hs_config [''laptop''] serve_state =
      (Ok (Some \<lparr>hs_target = ''t'', hs_zfs_receive_opts = [''-F'']\<rparr>), online i o' []
        (serve_state\<lparr>cmds := [[''get'', ''--json'', ''receive_resume_token'', ''t''],
          [''list'', ''-t'', ''snapshot'', ''--json'', ''t'']]\<rparr>))"
    "rbytes i = json_line (ser_client_ready example_json) ready_message @ encode_stream [1, 2, 3]" "wcap o' = None"
proof -
  let ?s1 = "serve_state\<lparr>cmds := [[''get'', ''--json'', ''receive_resume_token'', ''t'']]\<rparr>"
  let ?s2 = "serve_state\<lparr>cmds := [[''get'', ''--json'', ''receive_resume_token'', ''t''],
      [''list'', ''-t'', ''snapshot'', ''--json'', ''t'']]\<rparr>"
  have inp: "rbytes (inp serve_state) = json_line (ser_client_hello example_json) (hello_request ''laptop'' ''t'') @
      json_line (ser_client_ready example_json) ready_message @ encode_stream [1, 2, 3]"
    and cap: "wcap (outp serve_state) = None"
    by (simp_all add: serve_state_def xf_server_def hs_state_def st0_def)
  have token: "get_resume_token serve_os ''t'' serve_state = (Ok None, ?s1)"
    by (simp add: serve_token serve_state_def)
  have raw: "list_snapshots serve_os ''t'' ?s1 = (Ok [''t@zrb-2026-05-06T00:00:00Z'', []], ?s2)"
    by (subst serve_raw) (simp_all add: serve_state_def)
  have J: "json_round_trip (ser_client_hello example_json) (de_client_hello example_json) (hello_request ''laptop'' ''t'')"
    "json_round_trip (ser_server_status example_json) (de_server_status example_json) ok_status"
    "json_round_trip (ser_server_hello example_json) (de_server_hello example_json) hs_hello"
    using xf_messages by (simp_all add: messages_survive_def)
  note accepted = server_handshake_accepts [OF J serve_hello inp cap xf_server_cfg token raw]
  obtain i o' where "server_handshake serve_os gregorian example_json hs_config [''laptop''] serve_state =
      (Ok (Some \<lparr>hs_target = ''t'', hs_zfs_receive_opts = [''-F'']\<rparr>), online i o' [] ?s2)"
    "rbytes i = json_line (ser_client_ready example_json) ready_message @ encode_stream [1, 2, 3]" "wcap o' = None"
    using accepted cap by (simp add: serve_state_def)
  then show thesis by (rule that)
qed

lemma serve_transfer:
  fixes v :: "small_pool st"
  assumes "env v = ([''t@zrb-2026-05-06T00:00:00Z''], [])" "rbytes (inp v) = encode_stream [1, 2, 3]"
    "wcap (outp v) = None"
  obtains t' where "server_transfer serve_os gregorian example_json (\<lambda>k. False)
      \<lparr>hs_target = ''t'', hs_zfs_receive_opts = [''-F'']\<rparr> v = (Ok (), t')"
    "set (fst (env t')) = {''t@zrb-2026-05-07T00:00:00Z'', ''t@zrb-2026-05-06T00:00:00Z''}"
    "[''hold'', RECEIVED_TAG, ''t@zrb-2026-05-07T00:00:00Z''] \<in> set (cmds t')"
proof -
  let ?y = "''t@zrb-2026-05-07T00:00:00Z''"
  let ?hs = "\<lparr>hs_target = ''t'', hs_zfs_receive_opts = [''-F'']\<rparr>"
  define s3 where "s3 = v\<lparr>cmds := cmds v @ [[''receive'', ''-s'', ''t'', ''-F'']]\<rparr>"
  define s4 where "s4 = s3\<lparr>env := ([?y, ''t@zrb-2026-05-06T00:00:00Z''], [])\<rparr>"
  obtain s5 where s5: "place_server_transfer_hold serve_os gregorian ''t'' s4 = (Ok (), s5)"
    using server_hold.never_fails [of serve_os gregorian "''t''" s4] by (metis prod.collapse)
  have recv: "receive serve_os (hs_target ?hs) (hs_zfs_receive_opts ?hs) v = (Ok \<lparr>zr_argv = [''receive'', ''-s'', ''t'', ''-F''],
      zr_stdin = \<lparr>wbytes = [], wcap = None\<rparr>\<rparr>, s3)"
    by (simp add: receive_def serve_os_def small_os_def Let_def s3_def)
  have fin: "finish serve_os zr s3 = (Ok (), s4)" for zr
    by (simp add: finish_def serve_os_def s4_def s3_def assms(1))
  have settled: "settled serve_os gregorian (hs_target ?hs) (Ok ()) s4 s5 ok_status"
    using s5 by (simp add: settled_def)
  have ok: "json_round_trip (ser_server_status example_json) (de_server_status example_json) ok_status"
    using xf_messages by (simp add: messages_survive_def)
  have run: "server_transfer serve_os gregorian example_json (\<lambda>k. False) ?hs v =
      (Ok (), online ((inp v)\<lparr>rbytes := []\<rparr>)
        ((outp v)\<lparr>wbytes := wbytes (outp v) @ json_line (ser_server_status example_json) ok_status\<rparr>) (notices v) s5)"
    by (rule server_transfer_run [OF _ _ recv _ fin settled ok]) (simp_all add: assms)
  have pool: "faithful_pool serve_os (\<lambda>w. set (snd w)) (\<lambda>w. set (fst w))"
    using small_backup_faithful by (simp add: faithful_backup_def small_backup_def)
  have set4: "set (fst (env s4)) = {?y, ''t@zrb-2026-05-06T00:00:00Z''}" by (simp add: s4_def)
  then have set5: "set (fst (env s5)) = {?y, ''t@zrb-2026-05-06T00:00:00Z''}"
    using guardsD [OF guards_server_hold_snapshots [OF pool] s5] by metis
  obtain local t1 where "list_zrb serve_os gregorian ''t'' s4 = (Ok local, t1)" "last_of local = Some ?y"
    by (rule list_newest [OF pool, of gregorian s4 "''t''" ?y]) (simp_all add: set4 serve_newest plain_name_def)
  then obtain cs2 cs3 where "cmds s5 = cmds t1 @ cs2 @ [''hold'', RECEIVED_TAG, ?y] # cs3"
    using server_hold_trace [OF _ _ s5] by metis
  then show thesis using that [OF run] set5 by simp
qed

lemma serve_run:
  obtains q t' where "run_server_on serve_os gregorian example_json hs_config [''laptop''] (\<lambda>k. False) serve_state = (q, t')"
    "set (fst (env t')) = {''t@zrb-2026-05-07T00:00:00Z'', ''t@zrb-2026-05-06T00:00:00Z''}"
    "[''hold'', RECEIVED_TAG, ''t@zrb-2026-05-07T00:00:00Z''] \<in> set (cmds t')"
proof -
  let ?hs = "\<lparr>hs_target = ''t'', hs_zfs_receive_opts = [''-F'']\<rparr>"
  let ?s2 = "serve_state\<lparr>cmds := [[''get'', ''--json'', ''receive_resume_token'', ''t''],
          [''list'', ''-t'', ''snapshot'', ''--json'', ''t'']]\<rparr>"
  obtain i o' where hs: "server_handshake serve_os gregorian example_json hs_config [''laptop''] serve_state =
      (Ok (Some ?hs), online i o' [] ?s2)"
    and i: "rbytes i = json_line (ser_client_ready example_json) ready_message @ encode_stream [1, 2, 3]"
    and o': "wcap o' = None"
    by (rule serve_handshake)
  let ?v = "online (i\<lparr>rbytes := encode_stream [1, 2, 3]\<rparr>) o' [] ?s2"
  obtain t' where t': "server_transfer serve_os gregorian example_json (\<lambda>k. False) ?hs ?v = (Ok (), t')"
    "set (fst (env t')) = {''t@zrb-2026-05-07T00:00:00Z'', ''t@zrb-2026-05-06T00:00:00Z''}"
    "[''hold'', RECEIVED_TAG, ''t@zrb-2026-05-07T00:00:00Z''] \<in> set (cmds t')"
    by (rule serve_transfer [of ?v]) (simp_all add: serve_state_def o')
  have "json_round_trip (ser_client_ready example_json) (de_client_ready example_json) ready_message"
    using xf_messages by (simp add: messages_survive_def)
  then have run: "run_server_on serve_os gregorian example_json hs_config [''laptop''] (\<lambda>k. False) serve_state = (Ok (), t')"
    unfolding run_server_accepted [OF hs]
    using server_rest_run [of example_json "online i o' [] ?s2" "encode_stream [1, 2, 3]"] i t'(1) by simp
  show thesis by (rule that [OF run t'(2,3)])
qed

lemma small_settled:
  assumes "run_server_on serve_os gregorian example_json hs_config [''laptop''] (\<lambda>k. False) serve_state = (q, t')"
    and "set (fst (env t')) = {''t@zrb-2026-05-07T00:00:00Z'', ''t@zrb-2026-05-06T00:00:00Z''}"
    and "[''hold'', RECEIVED_TAG, ''t@zrb-2026-05-07T00:00:00Z''] \<in> set (cmds t')"
  shows "settled_transfer small_backup ((xf_snaps, []), env serve_state)
    (env (snd (send_to_remote small_os example_json (xf_ctx None) (small_state (xf_snaps, [])))), env t')"
proof -
  have ctx: "sx_latest (xf_ctx None) = ''d@zrb-2026-05-07T00:00:00Z''" "sx_remote_name (xf_ctx None) = ''nas''"
    by (simp_all add: xf_ctx_def task_context_def xf_task_def)
  have snap: "is_zrb gregorian ''d@zrb-2026-05-07T00:00:00Z''"
    by (simp add: is_zrb_def parse_def strip_prefix_def PREFIX_def calendar_eval)
  have "settled_transfer small_backup (env (small_state (xf_snaps, [])), env serve_state)
    (env (snd (send_to_remote small_os example_json (xf_ctx None) (small_state (xf_snaps, [])))), env t')"
  proof (rule settled_transfer.intros)
    show "send_to_remote (bk_client small_backup) (bk_json small_backup) (xf_ctx None) (small_state (xf_snaps, [])) =
      (fst (send_to_remote small_os example_json (xf_ctx None) (small_state (xf_snaps, []))),
       snd (send_to_remote small_os example_json (xf_ctx None) (small_state (xf_snaps, []))))"
      by (simp add: small_backup_def)
    show "run_server_on (bk_server small_backup) (bk_chrono small_backup) (bk_json small_backup) hs_config [''laptop'']
      (\<lambda>k. False) serve_state = (q, t')"
      using assms(1) by (simp add: small_backup_def)
  qed (use assms(2,3) small_send_holds serve_newest snap in \<open>simp_all add: ctx small_backup_def small_state_def
      serve_state_def dataset_of_def plain_name_def snap_name_def xf_snaps_def\<close>)
  then show ?thesis by (simp add: small_state_def)
qed


end
