(* ===== verification/Concurrent.thy ===== *)
theory Concurrent
  imports Rounds
begin

text \<open>
  Runs of \<open>zrb\<close> at the same time on one pool: \<open>zrb send --parallel\<close> starts a transfer per
  remote (\<open>src/ops/send.rs\<close>), and the other commands may run from timers meanwhile. A run goes on
  amid the commands of the others when, before each call of the outside world that it makes, any
  of their commands may take effect. The theory shows that a Transfer Hold never lapses, at no
  moment of any such interleaving, and which runs may take part.
\<close>

section \<open>A run amid others\<close>

text \<open>The states that a pool goes through while commands take effect, one after the other.\<close>

fun during :: "'w os \<Rightarrow> string list list \<Rightarrow> 'w \<Rightarrow> 'w list" where
  "during S [] w = []"
| "during S (c # cs) w = (let w' = snd (zfs_output S c w) in w' # during S cs w')"

text \<open>
  The pool as several runs share it: its state, the commands of the others (one batch for each call
  that the run makes), and all the states that it went through so far.
\<close>

type_synonym 'w shared = "'w \<times> string list list list \<times> 'w list"

definition interleaved :: "'w os \<Rightarrow> ('w \<Rightarrow> 'a \<times> 'w) \<Rightarrow> 'w shared \<Rightarrow> 'a \<times> 'w shared" where
  "interleaved S call = (\<lambda>(w, batches, past).
     let others = during S (case batches of [] \<Rightarrow> [] | batch # _ \<Rightarrow> batch) w;
         (r, w') = call (last (w # others))
     in (r, (w', tl batches, past @ others @ [w'])))"

definition amid :: "'w os \<Rightarrow> 'w shared os" where
  "amid S =
     \<lparr>zfs_output = (\<lambda>argv. interleaved S (zfs_output S argv)),
      zfs_spawn_send = (\<lambda>argv. interleaved S (zfs_spawn_send S argv)),
      zfs_receive_spawn = (\<lambda>argv. interleaved S (zfs_receive_spawn S argv)),
      zfs_receive_finish = (\<lambda>argv bs. interleaved S (zfs_receive_finish S argv bs)),
      utc_now = interleaved S (utc_now S),
      parse_zfs_json = parse_zfs_json S,
      ssh_spawn = (\<lambda>argv. interleaved S (ssh_spawn S argv)),
      elapsed_secs = interleaved S (elapsed_secs S),
      trace_logged = trace_logged S\<rparr>"

lemma amid_sel [simp]:
  "zfs_output (amid S) argv = interleaved S (zfs_output S argv)"
  "zfs_spawn_send (amid S) argv = interleaved S (zfs_spawn_send S argv)"
  "zfs_receive_spawn (amid S) argv = interleaved S (zfs_receive_spawn S argv)"
  "zfs_receive_finish (amid S) argv bs = interleaved S (zfs_receive_finish S argv bs)"
  "utc_now (amid S) = interleaved S (utc_now S)" "parse_zfs_json (amid S) = parse_zfs_json S"
  "ssh_spawn (amid S) argv = interleaved S (ssh_spawn S argv)"
  "elapsed_secs (amid S) = interleaved S (elapsed_secs S)" "trace_logged (amid S) = trace_logged S"
  by (simp_all add: amid_def)

lemma interleaved_answer: "\<exists>w. fst (interleaved S call e) = fst (call w)"
  unfolding interleaved_def Let_def case_prod_beta fst_conv by (rule exI, rule refl)

text \<open>
  \<open>K\<close> holds of the pool now, \<open>I\<close> held of all that it went through, and \<open>P\<close> of all that the
  others have still to do.
\<close>

definition lasting :: "('w \<Rightarrow> bool) \<Rightarrow> ('w \<Rightarrow> bool) \<Rightarrow> (string list \<Rightarrow> bool) \<Rightarrow> 'w shared \<Rightarrow> bool" where
  "lasting I K P = (\<lambda>(w, batches, past).
     K w \<and> (\<forall>batch \<in> set batches. list_all P batch) \<and> (\<forall>v \<in> set past. I v))"

lemma during_keeps:
  "(\<And>c w. P c \<Longrightarrow> K w \<Longrightarrow> K (snd (zfs_output S c w))) \<Longrightarrow> list_all P cs \<Longrightarrow> K w \<Longrightarrow>
     list_all K (w # during S cs w)"
  by (induction S cs w rule: during.induct) (simp_all add: Let_def)

lemma lasting_interleaved:
  assumes "lasting I K P e"
    and others: "\<And>c w. P c \<Longrightarrow> K w \<Longrightarrow> K (snd (zfs_output S c w))"
    and call: "\<And>w. K w \<Longrightarrow> fst (call w) = fst (interleaved S call e) \<Longrightarrow> K' (snd (call w))"
    and "\<And>w. K w \<Longrightarrow> I w" "\<And>w. K' w \<Longrightarrow> I w"
  shows "lasting I K' P (snd (interleaved S call e))"
proof -
  obtain w batches past where e: "e = (w, batches, past)" by (cases e)
  let ?batch = "case batches of [] \<Rightarrow> [] | batch # _ \<Rightarrow> batch"
  have "list_all P ?batch"
    using assms(1) by (auto simp: e lasting_def split: list.split)
  then have K: "list_all K (w # during S ?batch w)"
    using assms(1) others by (intro during_keeps [where P = P]) (simp_all add: e lasting_def)
  then have "K (last (w # during S ?batch w))"
    unfolding list_all_iff using last_in_set by blast
  then have "K' (snd (call (last (w # during S ?batch w))))"
    by (rule call) (simp add: e interleaved_def Let_def case_prod_beta)
  moreover have "\<forall>batch \<in> set (tl batches). list_all P batch"
    using assms(1) by (cases batches) (auto simp: e lasting_def)
  ultimately show ?thesis
    using assms(1,4,5) K by (auto simp: e interleaved_def lasting_def list_all_iff Let_def case_prod_beta simp del: last.simps)
qed

lemma lasting_weaken: "lasting I K P e \<Longrightarrow> (\<And>w. K w \<Longrightarrow> K' w) \<Longrightarrow> lasting I K' P e"
  by (auto simp: lasting_def)

section \<open>What a pool refuses\<close>

text \<open>\<open>zfs destroy\<close> of a snapshot that is held fails, and \<open>zfs hold\<close> of one that does not exist.\<close>

definition refuses :: "'w os \<Rightarrow> ('w \<Rightarrow> (string \<times> string) set) \<Rightarrow> ('w \<Rightarrow> string set) \<Rightarrow> bool" where
  "refuses S H N \<longleftrightarrow>
     (\<forall>x tag w. (x, tag) \<in> H w \<longrightarrow> \<not> exited_ok (fst (zfs_output S [''destroy'', x] w))) \<and>
     (\<forall>x tag w. x \<notin> N w \<longrightarrow> \<not> exited_ok (fst (zfs_output S [''hold'', tag, x] w)))"

text \<open>A command that does not release the hold with the tag from a snapshot of the dataset.\<close>

definition elsewhere :: "string \<Rightarrow> string \<Rightarrow> string list \<Rightarrow> bool" where
  "elsewhere ds tag c \<longleftrightarrow> (\<forall>x. c = [''release'', tag, x] \<longrightarrow> dataset_of x \<noteq> ds \<or> CHR ''@'' \<notin> set x)"

lemma elsewhere_simps [simp]:
  "v \<noteq> ''release'' \<Longrightarrow> elsewhere ds tag (v # args)"
  "tag' \<noteq> tag \<Longrightarrow> elsewhere ds tag [''release'', tag', x]"
  "dataset_of x \<noteq> ds \<Longrightarrow> elsewhere ds tag [''release'', tag', x]"
  by (auto simp: elsewhere_def)

lemma read_only_elsewhere: "read_only c \<Longrightarrow> elsewhere ds tag c"
  by (auto simp: read_only_def elsewhere_def)

text \<open>Some snapshot of the dataset is held with the tag.\<close>

definition some_held :: "('w \<Rightarrow> (string \<times> string) set) \<Rightarrow> ('w \<Rightarrow> string set) \<Rightarrow> string \<Rightarrow> string \<Rightarrow> 'w \<Rightarrow> bool" where
  "some_held H N ds tag w \<longleftrightarrow> (\<exists>x. CHR ''@'' \<in> set x \<and> dataset_of x = ds \<and> held H N x tag w)"

text \<open>
  A snapshot \<open>x\<close> is held now, and some snapshot was at any time before; the others only do what is
  \<open>elsewhere\<close>.
\<close>

definition never_lapsed where
  "never_lapsed H N ds tag x = lasting (some_held H N ds tag) (held H N x tag) (elsewhere ds tag)"

text \<open>A pool that is relied on.\<close>

definition relied_pool :: "'w os \<Rightarrow> ('w \<Rightarrow> (string \<times> string) set) \<Rightarrow> ('w \<Rightarrow> string set) \<Rightarrow> bool" where
  "relied_pool S H N \<longleftrightarrow> faithful_pool S H N \<and> refuses S H N \<and> holds_as_asked S"

lemma relied_faithful: "relied_pool S H N \<Longrightarrow> faithful_pool S H N"
  and relied_refuses: "relied_pool S H N \<Longrightarrow> refuses S H N"
  and relied_asked: "relied_pool S H N \<Longrightarrow> holds_as_asked S"
  by (simp_all add: relied_pool_def)

lemma held_elsewhere:
  assumes relied: "relied_pool S H N" and "elsewhere ds tag c" "CHR ''@'' \<in> set x" "dataset_of x = ds" "held H N x tag w"
  shows "held H N x tag (snd (zfs_output S c w))"
proof (cases "c = [''destroy'', x]")
  case True
  then have "\<not> exited_ok (fst (zfs_output S c w))"
    using relied_refuses [OF relied] assms(5) by (auto simp: refuses_def held_def)
  then show ?thesis using relied_faithful [OF relied] assms(5) by (simp add: faithful_pool_def held_def)
next
  case False
  then have "spares x tag c" using assms(2-4) by (auto simp: spares_def elsewhere_def)
  then show ?thesis by (rule pool_held [OF relied_faithful [OF relied] _ assms(5)])
qed

lemma never_lapsed_call:
  assumes relied: "relied_pool S H N" and "never_lapsed H N ds tag x e" "CHR ''@'' \<in> set x" "dataset_of x = ds"
    and "\<And>w. held H N x tag w \<Longrightarrow> held H N x tag (snd (call w))"
  shows "never_lapsed H N ds tag x (snd (interleaved S call e))"
  using assms(2) unfolding never_lapsed_def
  by (rule lasting_interleaved) (use assms(3-5) held_elsewhere [OF relied] in \<open>auto simp: some_held_def\<close>)

lemma never_lapsed_output:
  assumes relied: "relied_pool S H N" and "never_lapsed H N ds tag x e" "CHR ''@'' \<in> set x" "dataset_of x = ds"
    and "spares x tag c"
  shows "never_lapsed H N ds tag x (snd (zfs_output (amid S) c e))"
  unfolding amid_sel using pool_held [OF relied_faithful [OF relied] assms(5)]
  by (rule never_lapsed_call [OF assms(1-4)])

lemma never_lapsed_quiet:
  assumes relied: "relied_pool S H N" and "never_lapsed H N ds tag x e" "CHR ''@'' \<in> set x" "dataset_of x = ds"
  shows "never_lapsed H N ds tag x (snd (ssh_spawn (amid S) argv e))"
    "never_lapsed H N ds tag x (snd (zfs_spawn_send (amid S) argv e))"
    "never_lapsed H N ds tag x (snd (elapsed_secs (amid S) e))"
  unfolding amid_sel by (rule never_lapsed_call [OF assms], simp add: held_def pool_spawns [OF relied_faithful [OF relied]])+

lemma never_lapsed_run:
  assumes relied: "relied_pool S H N" and "CHR ''@'' \<in> set x" "dataset_of x = ds" "spares x tag c"
  shows "guards (never_lapsed H N ds tag x) (\<lambda>_. True) (run (amid S) c)"
    "guards (never_lapsed H N ds tag x) (\<lambda>_. True) (run_unit (amid S) c)"
  using never_lapsed_output [OF relied _ assms(2-)] by (auto intro!: guards_intro)

lemma never_lapsed_find:
  assumes relied: "relied_pool S H N" and "CHR ''@'' \<in> set x" "dataset_of x = ds"
  shows "guards (never_lapsed H N ds tag x) (\<lambda>_. True) (list_snapshots (amid S) d)"
    "guards (never_lapsed H N ds tag x) (\<lambda>_. True) (find_held_snapshots_in (amid S) snaps tag')"
    "guards (never_lapsed H N ds tag x) (\<lambda>_. True) (find_held_snapshots (amid S) d tag')"
  unfolding find_held_snapshots_def list_snapshots_def find_held_snapshots_in_def
  by (auto intro!: guards_intro never_lapsed_run [OF assms] simp: spares_def)

text \<open>Placing the new hold: it is there when the command has succeeded, and the old one still is, too.\<close>

lemma never_lapsed_hold:
  assumes relied: "relied_pool S H N" and "never_lapsed H N ds tag x (env s)" "CHR ''@'' \<in> set x" "dataset_of x = ds"
    and "CHR ''@'' \<in> set y" "dataset_of y = ds" and run: "hold_snapshot (amid S) y tag s = (r, s')"
  shows "never_lapsed H N ds tag x (env s') \<and> (r = Ok () \<longrightarrow> never_lapsed H N ds tag y (env s'))"
proof -
  let ?c = "[''hold'', tag, y]"
  have env: "env s' = snd (interleaved S (zfs_output S ?c) (env s))"
    and ok: "r = Ok () \<Longrightarrow> exited_ok (fst (interleaved S (zfs_output S ?c) (env s)))"
    using run
    by (auto simp: hold_snapshot_def run_unit_def run_def io_bind_def io_return_def Let_def exited_ok_def
        split: prod.splits proc_out.splits if_splits)
  have "never_lapsed H N ds tag x (env s')"
    using never_lapsed_output [OF relied assms(2-4), of ?c] by (simp add: env spares_def)
  moreover have "never_lapsed H N ds tag y (env s')" if r: "r = Ok ()"
    unfolding env never_lapsed_def
  proof (rule lasting_interleaved [OF assms(2) [unfolded never_lapsed_def]])
    fix w assume "fst (zfs_output S ?c w) = fst (interleaved S (zfs_output S ?c) (env s))"
    then have "exited_ok (fst (zfs_output S ?c w))" using ok [OF r] by simp
    moreover from this have "y \<in> N w" using relied_refuses [OF relied] unfolding refuses_def by blast
    ultimately show "held H N y tag (snd (zfs_output S ?c w))"
      using relied_faithful [OF relied] by (simp add: faithful_pool_def held_def hold_effect_def snapshot_effect_def)
  qed (use assms(3-6) held_elsewhere [OF relied] in \<open>auto simp: some_held_def\<close>)
  ultimately show ?thesis by blast
qed

lemma never_lapsed_release_all:
  assumes relied: "relied_pool S H N" and "CHR ''@'' \<in> set x" "dataset_of x = ds" "x \<notin> set olds"
  shows "guards (never_lapsed H N ds tag x) (\<lambda>_. True) (release_all (amid S) tag olds)"
  unfolding release_all_def release_hold_def using assms(4)
  by (auto intro!: guards_intro never_lapsed_run [OF assms(1-3)] simp: spares_def split: err.split)

text \<open>
  Moving the hold from \<open>x\<close> to \<open>y\<close>: afterwards \<open>y\<close> is held when an old hold was released, and \<open>x\<close>
  or \<open>y\<close> in any case.
\<close>

lemma never_lapsed_move:
  assumes relied: "relied_pool S H N" and x: "never_lapsed H N ds tag x (env s)" "CHR ''@'' \<in> set x" "dataset_of x = ds"
    and y: "CHR ''@'' \<in> set y" "dataset_of y = ds" "y \<notin> set olds"
    and run: "hold_then_release (amid S) tag y olds s = (r, s')"
  shows "\<exists>z \<in> {x, y}. never_lapsed H N ds tag z (env s') \<and>
    (cmds s' \<noteq> cmds s @ [[''hold'', tag, y]] \<longrightarrow> z = y)"
proof -
  obtain q s1 where hold: "hold_snapshot (amid S) y tag s = (q, s1)" by fastforce
  note held = never_lapsed_hold [OF relied x y(1,2) hold] and cs = hold_snapshot_cmds [OF hold]
  show ?thesis
  proof (cases q)
    case (Ok u)
    then have "release_all (amid S) tag olds s1 = (r, s')"
      using run hold by (simp add: hold_then_release_def io_match_def)
    then have "never_lapsed H N ds tag y (env s')"
      using guardsD [OF never_lapsed_release_all [OF relied y]] held Ok by (metis (full_types) unit.exhaust)
    then show ?thesis by blast
  next
    case (Err e)
    then have "s' = s1" using run hold by (simp add: hold_then_release_def io_match_def io_return_def)
    then show ?thesis using held cs by blast
  next
    case (Panic p)
    then show ?thesis using hold hold_snapshot_no_panic by blast
  qed
qed


section \<open>A transfer amid others\<close>

lemma never_lapsed_client_hold:
  assumes relied: "relied_pool S H N" and x: "never_lapsed H N ds (transfer_tag remote) x (env s)" "CHR ''@'' \<in> set x" "dataset_of x = ds"
    and y: "CHR ''@'' \<in> set y" "dataset_of y = ds" and tag: "tag = transfer_tag remote"
    and run: "place_transfer_hold (amid S) ds y remote s = (r, s')"
  shows "\<exists>z \<in> {x, y}. never_lapsed H N ds tag z (env s') \<and>
    (\<forall>old. [''release'', tag, old] \<in> set (drop (length (cmds s)) (cmds s')) \<longrightarrow> z = y)"
proof -
  let ?find = "io_match (find_held_snapshots (amid S) ds tag) (\<lambda>v. io_return v) (\<lambda>e. io_return [])"
  have keep: "guards (never_lapsed H N ds tag x) (\<lambda>_. True) ?find"
    by (intro guards_match never_lapsed_find [OF relied x(2,3)] guards_pure)
  obtain q s1 where find: "?find s = (q, s1)" by fastforce
  have s1: "never_lapsed H N ds tag x (env s1)"
    using guardsD [OF keep find] x(1) tag by blast
  have looks: "emits read_only ?find" by (intro emits_intro read_only_list)
  obtain pre where pre: "cmds s1 = cmds s @ pre" "list_all read_only pre"
    using emitsD [OF looks find] by blast
  obtain v where q: "q = Ok v"
    using find panics_commands(14) [of "\<lambda>_. False" "amid S" ds tag]
    by (auto simp: io_match_def io_return_def panics_in_def split: prod.splits res.splits)
  have move: "hold_then_release (amid S) tag y (filter (\<lambda>s. s \<noteq> y) v) s1 = (r, s')"
    using run find by (simp add: place_transfer_hold_def Let_def io_bind_def q tag)
  obtain z where z: "z \<in> {x, y}" "never_lapsed H N ds tag z (env s')"
    "cmds s' \<noteq> cmds s1 @ [[''hold'', tag, y]] \<Longrightarrow> z = y"
    using never_lapsed_move [OF relied s1 x(2,3) y _ move] by auto
  have "z = y" if "[''release'', tag, old] \<in> set (drop (length (cmds s)) (cmds s'))" for old
  proof (rule z(3))
    show "cmds s' \<noteq> cmds s1 @ [[''hold'', tag, y]]"
      using that pre by (fastforce simp: list_all_iff read_only_def)
  qed
  with z(1,2) show ?thesis by blast
qed

lemma never_lapsed_exchange:
  assumes relied: "relied_pool S H N" and "CHR ''@'' \<in> set x" "dataset_of x = ds"
  shows "guards (never_lapsed H N ds tag x) (\<lambda>_. True) (connect (amid S) cfg [])"
    "guards (never_lapsed H N ds tag x) (\<lambda>_. True) (exchange (amid S) J ctx)"
  by (intro guards_spawn guards_exchange never_lapsed_quiet [OF relied _ assms(2-)] never_lapsed_output [OF relied _ assms(2-)];
      simp add: spares_def)+

lemma never_lapsed_sent:
  assumes relied: "relied_pool S H N" and x: "never_lapsed H N ds tag x (env s)" "CHR ''@'' \<in> set x" "dataset_of x = ds"
    and c: "connect (amid S) (sx_remote_cfg ctx) [] s = (Ok (), s1)" and e: "exchange (amid S) J ctx s1 = (q, s2)"
  obtains cs where "cmds s2 = cmds s @ cs" "\<forall>old. [''release'', tag, old] \<notin> set cs"
    "never_lapsed H N ds tag x (env s2)" "never_lapsed H N ds tag x (snd (elapsed_secs (amid S) (env s2)))"
proof -
  note keep = never_lapsed_exchange [OF relied x(2,3)]
  have ex: "emits (\<lambda>c. hd c \<noteq> ''release'') (exchange (amid S) J ctx)"
    unfolding exchange_def by (rule emits_send_on) simp
  have s2: "never_lapsed H N ds tag x (env s2)"
    using guardsD [OF keep(2) e] guardsD [OF keep(1) c x(1)] by metis
  obtain cs where "cmds s2 = cmds s @ cs" "\<forall>old. [''release'', tag, old] \<notin> set cs"
    using emitsD [OF ex e] connect_keeps [OF c] by (fastforce simp: list_all_iff)
  with s2 never_lapsed_quiet(3) [OF relied s2 x(2,3)] that show thesis by blast
qed

text \<open>A whole transfer to the remote: whatever its end, its hold has never lapsed.\<close>

lemma never_lapsed_send:
  assumes relied: "relied_pool S H N" and x: "never_lapsed H N ds tag x (env s)" "CHR ''@'' \<in> set x" "dataset_of x = ds"
    and tag: "tag = transfer_tag (sx_remote_name ctx)"
    and latest: "CHR ''@'' \<in> set (sx_latest ctx)" "dataset_of (sx_latest ctx) = ds"
    and run: "send_to_remote (amid S) J ctx s = (r, s')"
  shows "\<exists>z \<in> {x, sx_latest ctx}. never_lapsed H N ds tag z (env s') \<and>
    (\<forall>old. [''release'', tag, old] \<in> set (drop (length (cmds s)) (cmds s')) \<longrightarrow> z = sx_latest ctx)"
proof -
  let ?J = "never_lapsed H N ds tag x"
  note sent = never_lapsed_sent [OF relied x]
  have same: ?thesis if "?J (env s')" "cmds s' = cmds s @ cs" "\<forall>old. [''release'', tag, old] \<notin> set cs" for cs
    using that by auto
  show ?thesis
  proof (cases rule: send_to_remote_run [of "amid S" ctx s J])
    case (completed s1 s2 n w t s3)
    obtain cs where cs: "cmds s2 = cmds s @ cs" "\<forall>old. [''release'', tag, old] \<notin> set cs" "?J (env (s2\<lparr>env := w\<rparr>))"
      by (rule sent [OF completed(1,2)]) (simp add: completed(6))
    from never_lapsed_client_hold [OF relied cs(3) [unfolded tag] x(2,3) latest tag, of "Ok ()" s3] completed(4)
    obtain z where z: "z \<in> {x, sx_latest ctx}" "never_lapsed H N ds tag z (env s3)"
      "\<And>old. [''release'', tag, old] \<in> set (drop (length (cmds s2)) (cmds s3)) \<Longrightarrow> z = sx_latest ctx"
      unfolding hold_latest_def latest(2) by auto
    obtain rest where rest: "cmds s3 = cmds s2 @ rest"
      using place_transfer_hold_holds [of "amid S" "dataset_of (sx_latest ctx)" "sx_latest ctx" "sx_remote_name ctx" "s2\<lparr>env := w\<rparr>"]
        completed(4) by (auto simp: hold_latest_def)
    show ?thesis
    proof (intro bexI [of _ z] conjI allI impI)
      fix old assume "[''release'', tag, old] \<in> set (drop (length (cmds s)) (cmds s'))"
      then show "z = sx_latest ctx" using z(3) cs(1,2) rest run completed(5) by auto
    qed (use z(1,2) run completed(5) in auto)
  next
    case (up_to_date s1 s2 w)
    obtain cs where "cmds s2 = cmds s @ cs" "\<forall>old. [''release'', tag, old] \<notin> set cs"
      "?J (env s2)" "?J (snd (elapsed_secs (amid S) (env s2)))"
      by (rule sent [OF up_to_date(1,2)])
    then show ?thesis using run up_to_date(3,4) by (intro same [of cs]) auto
  next
    case (failed s1 s2 e w)
    obtain cs where "cmds s2 = cmds s @ cs" "\<forall>old. [''release'', tag, old] \<notin> set cs"
      "?J (env s2)" "?J (snd (elapsed_secs (amid S) (env s2)))"
      by (rule sent [OF failed(1,2)])
    then show ?thesis using run failed(3,4) by (intro same [of cs]) auto
  next
    case (panicked s1 s2 p)
    obtain cs where "cmds s2 = cmds s @ cs" "\<forall>old. [''release'', tag, old] \<notin> set cs"
      "?J (env s2)" "?J (snd (elapsed_secs (amid S) (env s2)))"
      by (rule sent [OF panicked(1,2)])
    then show ?thesis using run panicked(3) by (intro same [of cs]) auto
  next
    case (no_connection e s1)
    then show ?thesis
      using run guardsD [OF never_lapsed_exchange(1) [OF relied x(2,3)] no_connection(1) x(1)]
        connect_keeps [OF no_connection(1)]
      by (intro same [of "[]"]) auto
  qed
qed

text \<open>The server's move of its hold, after a receive.\<close>

lemma listed_own:
  assumes relied: "relied_pool S H N" and "list_snapshots (amid S) d s = (Ok raw, s')" "z \<in> set raw" "CHR ''@'' \<in> set z"
  shows "dataset_of z = d"
proof -
  obtain out err j where out: "fst (zfs_output (amid S) [''list'', ''-t'', ''snapshot'', ''--json'', d] (env s)) = Exited True out err"
    and j: "parse_zfs_json (amid S) out = Inr j" "z \<in> fst ` set (zo_datasets j)"
    using list_snapshots_listed [OF assms(2,3)] .
  then obtain w where "fst (zfs_output S [''list'', ''-t'', ''snapshot'', ''--json'', d] w) = Exited True out err"
    using interleaved_answer [of S "zfs_output S [''list'', ''-t'', ''snapshot'', ''--json'', d]" "env s"] by auto
  from pool_listed_exists [OF relied_faithful [OF relied] this _ _ assms(4)] j show ?thesis by simp
qed

lemma asked_amid:
  assumes relied: "relied_pool S H N"
  shows "holds_as_asked (amid S)"
  unfolding holds_as_asked_def
proof (intro allI impI)
  fix xs e out err assume "fst (zfs_output (amid S) (''holds'' # ''-H'' # xs) e) = Exited True out err"
  then obtain w where "fst (zfs_output S (''holds'' # ''-H'' # xs) w) = Exited True out err"
    using interleaved_answer [of S "zfs_output S (''holds'' # ''-H'' # xs)" e] by auto
  then show "fst ` set (hold_pairs out) \<subseteq> set xs" using relied_asked [OF relied] unfolding holds_as_asked_def by blast
qed

lemma never_lapsed_server_hold:
  assumes relied: "relied_pool S H N" and x: "never_lapsed H N ds RECEIVED_TAG x (env s)" "CHR ''@'' \<in> set x" "dataset_of x = ds"
    and tag: "tag = RECEIVED_TAG" and run: "place_server_transfer_hold (amid S) C ds s = (r, s')"
  shows "\<exists>z. CHR ''@'' \<in> set z \<and> dataset_of z = ds \<and> never_lapsed H N ds tag z (env s')"
proof -
  let ?J = "never_lapsed H N ds tag x"
  have zrb: "guards ?J (\<lambda>_. True) (list_zrb (amid S) C ds)"
    unfolding list_zrb_def by (intro guards_intro never_lapsed_find [OF relied x(2,3)])
  obtain q s1 where q: "list_zrb (amid S) C ds s = (q, s1)" by fastforce
  have s1: "?J (env s1)" using guardsD [OF zrb q] x(1) tag by blast
  show ?thesis
  proof (cases "\<exists>snaps y. q = Ok snaps \<and> last_of snaps = Some y")
    case True
    then obtain snaps y where y: "q = Ok snaps" "last_of snaps = Some y" by blast
    obtain raw where raw: "list_snapshots (amid S) ds s = (Ok raw, s1)"
      "snaps = sort_chronological C (filter_zrb C raw)"
      using list_snapshots_Ok_raw q y(1) by metis
    have "y \<in> set snaps" using y(2) by (auto simp: last_of_def split: if_splits)
    then have "y \<in> set raw" "CHR ''@'' \<in> set y" using raw(2) is_zrb_at by auto
    with listed_own [OF relied raw(1)] have own: "CHR ''@'' \<in> set y" "dataset_of y = ds" by blast+
    let ?find = "io_match (find_held_snapshots_in (amid S) snaps tag) (\<lambda>v. io_return v) (\<lambda>e. io_return [])"
    have find: "guards ?J (\<lambda>_. True) ?find"
      by (intro guards_match never_lapsed_find [OF relied x(2,3)] guards_pure)
    obtain p s2 where p: "?find s1 = (p, s2)" by fastforce
    have s2: "?J (env s2)" using guardsD [OF find p s1] by blast
    obtain v where v: "p = Ok v"
      using p find_held_in_no_panic [of "amid S" snaps tag s1]
      by (auto simp: io_match_def io_return_def split: prod.splits res.splits)
    have "hold_then_release (amid S) tag y (filter (\<lambda>s. s \<noteq> y) v) s2 = (r, s')"
      using run p q by (simp add: place_server_transfer_hold_def tag y v io_match_def [of "list_zrb (amid S) C ds"] io_bind_def)
    from never_lapsed_move [OF relied s2 x(2,3) own _ this] own x(2,3) show ?thesis by auto
  next
    case False
    then have "s' = s1"
      using run q list_zrb_no_panic [of "amid S" C ds s]
      by (cases q) (auto simp: place_server_transfer_hold_def io_match_def io_return_def)
    then show ?thesis using s1 x(2,3) by blast
  qed
qed


section \<open>Which runs may take part\<close>

text \<open>A command that an operation issues, in some circumstances.\<close>

definition issues :: "('w, 'a) io \<Rightarrow> string list \<Rightarrow> bool" where
  "issues m c \<longleftrightarrow> (\<exists>s. c \<in> set (drop (length (cmds s)) (cmds (snd (m s)))))"

lemma emits_issues: "emits P m \<Longrightarrow> issues m c \<Longrightarrow> P c"
  unfolding issues_def emits_def by (metis append_eq_conv_conj list_all_iff)

text \<open>
  The commands of other runs, which go on amid others, too: transfers to another remote or of
  another dataset, receives into another dataset or, when the tag is not the server's, into any,
  prunes and new snapshots.
\<close>

inductive foreign :: "'w os \<Rightarrow> string \<Rightarrow> string \<Rightarrow> string list \<Rightarrow> bool" for S ds tag where
  sending: "issues (send_to_remote (amid S) J ctx) c \<Longrightarrow>
    transfer_tag (sx_remote_name ctx) \<noteq> tag \<or> dataset_of (sx_latest ctx) \<noteq> ds \<Longrightarrow> foreign S ds tag c"
| serving: "issues (server_transfer (amid S) C J cancel hs) c \<Longrightarrow> RECEIVED_TAG \<noteq> tag \<or> hs_target hs \<noteq> ds \<Longrightarrow>
    foreign S ds tag c"
| greeting: "issues (server_handshake (amid S) C J config permitted) c \<Longrightarrow> foreign S ds tag c"
| pruning: "issues (prune (amid S) C d config hold_days dry_run abort_res) c \<Longrightarrow> foreign S ds tag c"
| snapshotting: "issues (snapshot (amid S) C d) c \<Longrightarrow> foreign S ds tag c"

lemma foreign_client_hold:
  assumes relied: "relied_pool S H N" and "transfer_tag remote \<noteq> tag \<or> d \<noteq> ds"
  shows "emits (elsewhere ds tag) (place_transfer_hold (amid S) d y remote)"
proof -
  have looks: "emits (elsewhere ds tag) (io_match (find_held_snapshots (amid S) d t) (\<lambda>v. io_return v) (\<lambda>e. io_return []))" for t
    by (intro emits_intro emits_mono [OF read_only_list(3) read_only_elsewhere])
  have own: "elsewhere ds tag [''release'', transfer_tag remote, old]"
    if found: "find_held_snapshots (amid S) d (transfer_tag remote) s = (Ok v, s')" and old: "old \<in> set v" for v old s s'
  proof (cases "transfer_tag remote = tag \<and> CHR ''@'' \<in> set old")
    case True
    obtain raw s1 where raw: "list_snapshots (amid S) d s = (Ok raw, s1)"
      "find_held_snapshots_in (amid S) raw (transfer_tag remote) s1 = (Ok v, s')"
      using found unfolding find_held_snapshots_def io_bind_Ok_iff by blast
    have "old \<in> set raw" using find_held_in_asked [OF asked_amid [OF relied] raw(2)] old by blast
    from listed_own [OF relied raw(1) this] True show ?thesis using assms by simp
  qed (auto simp: elsewhere_def)
  show ?thesis
    unfolding place_transfer_hold_def Let_def
  proof (rule emits_bind_result [OF looks])
    fix v s s'
    assume "io_match (find_held_snapshots (amid S) d (transfer_tag remote)) (\<lambda>v. io_return v) (\<lambda>e. io_return []) s = (Ok v, s')"
    then have "v = [] \<or> find_held_snapshots (amid S) d (transfer_tag remote) s = (Ok v, s')"
      by (auto simp: io_match_def io_return_def split: prod.splits res.splits)
    then show "emits (elsewhere ds tag) (hold_then_release (amid S) (transfer_tag remote) y (filter (\<lambda>s. s \<noteq> y) v))"
      using own by (intro emits_intro) auto
  qed
qed

lemma foreign_server_hold:
  assumes relied: "relied_pool S H N" and "RECEIVED_TAG \<noteq> tag \<or> d \<noteq> ds"
  shows "emits (elsewhere ds tag) (place_server_transfer_hold (amid S) C d)"
  unfolding place_server_transfer_hold_def
proof (rule emits_match_result)
  show "emits (elsewhere ds tag) (list_zrb (amid S) C d)"
    by (rule emits_mono [OF read_only_list(1) read_only_elsewhere])
next
  fix snaps s s' assume q: "list_zrb (amid S) C d s = (Ok snaps, s')"
  have looks: "emits (elsewhere ds tag) (io_match (find_held_snapshots_in (amid S) snaps t) (\<lambda>v. io_return v) (\<lambda>e. io_return []))" for t
    by (intro emits_intro emits_mono [OF read_only_list(2) read_only_elsewhere])
  have own: "elsewhere ds tag [''release'', RECEIVED_TAG, old]" if "old \<in> set snaps" for old
  proof (cases "RECEIVED_TAG = tag \<and> CHR ''@'' \<in> set old")
    case True
    obtain raw where "list_snapshots (amid S) d s = (Ok raw, s')" "snaps = sort_chronological C (filter_zrb C raw)"
      using list_snapshots_Ok_raw [OF q] .
    with listed_own [OF relied, of d s raw s' old] that True assms show ?thesis by simp
  qed (auto simp: elsewhere_def)
  have move: "emits (elsewhere ds tag) (io_bind
      (io_match (find_held_snapshots_in (amid S) snaps RECEIVED_TAG) (\<lambda>v. io_return v) (\<lambda>e. io_return []))
      (\<lambda>v. hold_then_release (amid S) RECEIVED_TAG y (filter (\<lambda>s. s \<noteq> y) v)))" for y
  proof (rule emits_bind_result [OF looks])
    fix v t t'
    assume "io_match (find_held_snapshots_in (amid S) snaps RECEIVED_TAG) (\<lambda>v. io_return v) (\<lambda>e. io_return []) t = (Ok v, t')"
    then have "v = [] \<or> find_held_snapshots_in (amid S) snaps RECEIVED_TAG t = (Ok v, t')"
      by (auto simp: io_match_def io_return_def split: prod.splits res.splits)
    then have "set v \<subseteq> set snaps" using find_held_in_asked [OF asked_amid [OF relied]] by force
    then show "emits (elsewhere ds tag) (hold_then_release (amid S) RECEIVED_TAG y (filter (\<lambda>s. s \<noteq> y) v))"
      using own by (intro emits_intro) auto
  qed
  show "emits (elsewhere ds tag) (case last_of snaps of None \<Rightarrow> io_return ()
      | Some newest \<Rightarrow> io_bind
          (io_match (find_held_snapshots_in (amid S) snaps RECEIVED_TAG) (\<lambda>v. io_return v) (\<lambda>e. io_return []))
          (\<lambda>v. hold_then_release (amid S) RECEIVED_TAG newest (filter (\<lambda>s. s \<noteq> newest) v)))"
    using move by (auto intro!: emits_intro split: option.split)
qed (intro emits_intro)

lemma foreign_elsewhere:
  assumes relied: "relied_pool S H N" and "foreign S ds tag c"
  shows "elsewhere ds tag c"
  using assms(2)
proof cases
  case (sending J ctx)
  have "emits (elsewhere ds tag) (exchange (amid S) J ctx)"
    unfolding exchange_def by (rule emits_send_on) simp
  then have "emits (elsewhere ds tag) (send_to_remote (amid S) J ctx)"
    unfolding send_to_remote_def exchange_def [symmetric] using sending(2)
    by (auto intro!: emits_intro foreign_client_hold [OF relied] split: sum.split)
  then show ?thesis using sending(1) by (rule emits_issues)
next
  case (serving C J cancel hs)
  have "emits (elsewhere ds tag) (server_transfer (amid S) C J cancel hs)"
    unfolding server_transfer_def annotate_resume_if_needed_def
    using foreign_server_hold [OF relied serving(2)] by (auto intro!: emits_intro split: sum.split)
  then show ?thesis using serving(1) by (rule emits_issues)
next
  case (greeting C J config permitted)
  have "emits (elsewhere ds tag) (server_handshake (amid S) C J config permitted)"
    by (rule emits_server_handshake) simp
  then show ?thesis using greeting by (rule emits_issues)
next
  case (pruning C d config hold_days dry_run abort_res)
  from emits_issues [OF emits_prune this] show ?thesis
    using read_only_elsewhere by (auto simp: prune_command_def)
next
  case (snapshotting C d)
  have "emits (elsewhere ds tag) (snapshot (amid S) C d)"
    unfolding snapshot_def Let_def io_expect_def by (auto intro!: emits_intro split: option.split)
  then show ?thesis using snapshotting by (rule emits_issues)
qed

section \<open>The server's transfer amid others\<close>

definition unbroken :: "('w \<Rightarrow> (string \<times> string) set) \<Rightarrow> ('w \<Rightarrow> string set) \<Rightarrow> string \<Rightarrow> string \<Rightarrow> 'w shared \<Rightarrow> bool" where
  "unbroken H N ds tag e \<longleftrightarrow> (\<exists>x. CHR ''@'' \<in> set x \<and> dataset_of x = ds \<and> never_lapsed H N ds tag x e)"

lemma guards_unbroken:
  assumes "\<And>x. CHR ''@'' \<in> set x \<Longrightarrow> dataset_of x = ds \<Longrightarrow> guards (never_lapsed H N ds tag x) P m"
  shows "guards (unbroken H N ds tag) P m"
  unfolding guards_def
proof (intro allI impI)
  fix s r s' assume run: "m s = (r, s')" and "unbroken H N ds tag (env s)"
  then obtain x where x: "CHR ''@'' \<in> set x" "dataset_of x = ds" "never_lapsed H N ds tag x (env s)"
    by (auto simp: unbroken_def)
  from guardsD [OF assms [OF x(1,2)] run x(3)] x(1,2)
  show "unbroken H N ds tag (env s') \<and> (\<exists>cs. cmds s' = cmds s @ cs \<and> list_all P cs)"
    unfolding unbroken_def by metis
qed

lemma unbroken_past:
  "unbroken H N ds tag (w, batches, past) \<Longrightarrow> some_held H N ds tag w \<and> (\<forall>v \<in> set past. some_held H N ds tag v)"
  by (auto simp: unbroken_def never_lapsed_def lasting_def some_held_def)

lemma unbroken_looking:
  assumes relied: "relied_pool S H N"
  shows "guards (unbroken H N ds tag) (\<lambda>_. True) (annotate_resume_if_needed (amid S) C d)"
proof (rule guards_unbroken)
  fix x assume x: "CHR ''@'' \<in> set x" "dataset_of x = ds"
  have "never_lapsed H N ds tag x (snd (utc_now (amid S) e))" if "never_lapsed H N ds tag x e" for e
    unfolding amid_sel
    by (rule never_lapsed_call [OF relied that x]) (simp add: held_def pool_now [OF relied_faithful [OF relied]])
  then have "guards (never_lapsed H N ds tag x) (\<lambda>_. True) (io_now (amid S))"
    by (intro guards_emits emits_intro) (simp add: io_now_def case_prod_beta del: amid_sel)
  then show "guards (never_lapsed H N ds tag x) (\<lambda>_. True) (annotate_resume_if_needed (amid S) C d)"
    unfolding annotate_resume_if_needed_def get_resume_since_def set_resume_since_def get_resume_token_def
    by (auto intro!: guards_intro never_lapsed_run [OF relied x] simp: spares_def)
qed

lemma unbroken_receiving:
  fixes S :: "'w os"
  assumes relied: "relied_pool S H N" and recv: "faithful_receive S H N"
  shows "guards (unbroken H N ds tag) (\<lambda>_. True) (receive (amid S) d opts)"
    "guards (unbroken H N ds tag) (\<lambda>_. True) (receive_stream cancel zr)"
    "guards (unbroken H N ds tag) (\<lambda>_. True) (finish (amid S) zr)"
proof -
  have env: "env (snd (receive (amid S) d opts s)) = snd (zfs_receive_spawn (amid S) ([''receive'', ''-s'', d] @ opts) (env s))"
    "env (snd (finish (amid S) zr s)) = snd (zfs_receive_finish (amid S) (zr_argv zr) (wbytes (zr_stdin zr)) (env s))"
    "env (snd (receive_stream cancel zr s)) = env s" for s :: "'w shared st"
    by (simp_all add: receive_def finish_def receive_stream_def Let_def
        split: prod.split sum.split proc_out.split res.split)
  have keep: "never_lapsed H N ds tag x (snd (zfs_receive_spawn (amid S) argv e))"
    "never_lapsed H N ds tag x (snd (zfs_receive_finish (amid S) argv bs e))"
    if "CHR ''@'' \<in> set x" "dataset_of x = ds" "never_lapsed H N ds tag x e" for x argv bs e
  proof -
    have kept: "held H N x tag (snd (zfs_receive_spawn S argv w))"
      "held H N x tag (snd (zfs_receive_finish S argv bs w))" if "held H N x tag w" for w
      using recv that unfolding faithful_receive_def by (simp add: held_def, blast)
    show "never_lapsed H N ds tag x (snd (zfs_receive_spawn (amid S) argv e))"
      "never_lapsed H N ds tag x (snd (zfs_receive_finish (amid S) argv bs e))"
      unfolding amid_sel by (rule never_lapsed_call [OF relied that(3,1,2)], erule kept)+
  qed
  show "guards (unbroken H N ds tag) (\<lambda>_. True) (receive (amid S) d opts)"
    "guards (unbroken H N ds tag) (\<lambda>_. True) (receive_stream cancel zr)"
    "guards (unbroken H N ds tag) (\<lambda>_. True) (finish (amid S) zr)"
    by (rule guards_unbroken, rule guards_emits, simp add: env keep del: amid_sel, auto intro!: emits_intro)+
qed

lemma unbroken_server_transfer:
  fixes S :: "'w os"
  assumes relied: "relied_pool S H N" and recv: "faithful_receive S H N" and "hs_target hs = ds"
  shows "guards (unbroken H N ds RECEIVED_TAG) (\<lambda>_. True) (server_transfer (amid S) C J cancel hs)"
proof -
  have "guards (unbroken H N ds RECEIVED_TAG) (\<lambda>_. True) (place_server_transfer_hold (amid S) C ds)"
  proof (rule guards_emits)
    fix s :: "'w shared st" assume "unbroken H N ds RECEIVED_TAG (env s)"
    then show "unbroken H N ds RECEIVED_TAG (env (snd (place_server_transfer_hold (amid S) C ds s)))"
      using never_lapsed_server_hold [OF relied _ _ _ refl] unfolding unbroken_def by (metis prod.collapse)
  qed (rule emits_mono [OF emits_place_server_hold], simp)
  then show ?thesis
    unfolding server_transfer_def send_status_def assms(3)
    by (auto intro!: guards_intro guards_case_prod unbroken_looking [OF relied] unbroken_receiving [OF relied recv]
        split: sum.split)
qed

section \<open>Properties\<close>

lemma never_lapsed_start:
  assumes relied: "relied_pool S H N" and "held H N x tag w"
    and "\<forall>batch \<in> set batches. \<forall>c \<in> set batch. foreign S ds tag c"
  shows "never_lapsed H N ds tag x (w, batches, [])"
  using assms(2,3) foreign_elsewhere [OF relied] by (auto simp: never_lapsed_def lasting_def list_all_iff)

text \<open>
  C5. The hold for a remote never lapses, whatever else runs at the same time. While a transfer
  goes on, transfers to other remotes and of other datasets, receives, prunes and snapshots may
  run, and their commands take effect between any two of its own. When a snapshot of the dataset
  was held for the remote at the start, then one is at every moment until the transfer has ended,
  well or badly; and when it has released an old hold, the snapshot held in the end is the latest.
\<close>

theorem client_hold_never_lapses:
  assumes "relied_pool S H N" and "env s = (w, batches, [])" and "env s' = (w', batches', past)"
    and "send_to_remote (amid S) J ctx s = (r, s')"
    and "\<forall>batch \<in> set batches. \<forall>c \<in> set batch. foreign S ds (transfer_tag (sx_remote_name ctx)) c"
    and "CHR ''@'' \<in> set (sx_latest ctx)" and "dataset_of (sx_latest ctx) = ds"
    and "CHR ''@'' \<in> set x" and "dataset_of x = ds" and "held H N x (transfer_tag (sx_remote_name ctx)) w"
  shows "(\<forall>v \<in> set (past @ [w']). some_held H N ds (transfer_tag (sx_remote_name ctx)) v) \<and>
    (\<forall>old. [''release'', transfer_tag (sx_remote_name ctx), old] \<in> set (drop (length (cmds s)) (cmds s')) \<longrightarrow>
       held H N (sx_latest ctx) (transfer_tag (sx_remote_name ctx)) w')"
proof -
  have "never_lapsed H N ds (transfer_tag (sx_remote_name ctx)) x (env s)"
    unfolding assms(2) by (rule never_lapsed_start [OF assms(1,10,5)])
  from never_lapsed_send [OF assms(1) this assms(8,9) refl assms(6,7,4)] assms(6-9)
  obtain z where z: "CHR ''@'' \<in> set z" "dataset_of z = ds"
    "never_lapsed H N ds (transfer_tag (sx_remote_name ctx)) z (env s')"
    "\<And>old. [''release'', transfer_tag (sx_remote_name ctx), old] \<in> set (drop (length (cmds s)) (cmds s')) \<Longrightarrow> z = sx_latest ctx"
    by blast
  then show ?thesis
    unfolding assms(3) by (auto simp: never_lapsed_def lasting_def some_held_def)
qed

text \<open>
  C6. The same on the remote: while the server receives into a dataset that has a snapshot with
  the Received hold, and all other runs go on, a snapshot of the dataset is held at every moment,
  until the server has answered.
\<close>

theorem server_hold_never_lapses:
  assumes "relied_pool S H N" and "faithful_receive S H N"
    and "env s = (w, batches, [])" and "env s' = (w', batches', past)"
    and "server_transfer (amid S) C J cancel hs s = (r, s')"
    and "\<forall>batch \<in> set batches. \<forall>c \<in> set batch. foreign S (hs_target hs) RECEIVED_TAG c"
    and "CHR ''@'' \<in> set x" and "dataset_of x = hs_target hs" and "held H N x RECEIVED_TAG w"
  shows "\<forall>v \<in> set (past @ [w']). some_held H N (hs_target hs) RECEIVED_TAG v"
proof -
  have "unbroken H N (hs_target hs) RECEIVED_TAG (env s)"
    using never_lapsed_start [OF assms(1,9,6)] assms(3,7,8) unfolding unbroken_def by auto
  then have "unbroken H N (hs_target hs) RECEIVED_TAG (env s')"
    using guardsD [OF unbroken_server_transfer [OF assms(1,2) refl] assms(5)] by metis
  then show ?thesis unfolding assms(4) by (auto dest: unbroken_past)
qed

section \<open>Witnesses\<close>

text \<open>Two transfers of the snapshots of \<open>small_os\<close> at the same time, to two remotes.\<close>

lemma small_relied: "relied_pool small_os (\<lambda>w. set (snd w)) (\<lambda>w. set (fst w))"
proof -
  have "refuses small_os (\<lambda>w. set (snd w)) (\<lambda>w. set (fst w))"
    unfolding refuses_def small_os_def by (auto simp: pool_output_def exited_ok_def rev_image_eqI)
  then show ?thesis
    unfolding relied_pool_def using small_pool_faithful small_holds_as_asked [of small_os]
    by (simp add: small_os_def)
qed

definition shared_state :: "small_pool \<Rightarrow> string list list list \<Rightarrow> small_pool shared st" where
  "shared_state w batches = \<lparr>env = (w, batches, []), cmds = [], inp = inp st0, outp = outp st0, notices = []\<rparr>"

definition to_remote :: "string \<Rightarrow> send_context" where
  "to_remote name = (xf_ctx None)\<lparr>sx_remote_name := name\<rparr>"

lemma to_remote_sel [simp]:
  "sx_latest (to_remote name) = ''d@zrb-2026-05-07T00:00:00Z''" "sx_remote_name (to_remote name) = name"
  by (simp_all add: to_remote_def xf_ctx_def task_context_def xf_task_def)

lemma shared_open:
  "\<exists>s1. open_stream (amid small_os) (xf_cfg\<lparr>rc_bandwidth_limit := None\<rparr>) ''d@zrb-2026-05-07T00:00:00Z''
     (IncrementalSend ''d@zrb-2026-05-06T00:00:00Z'') s = (Ok (\<lparr>rbytes = [1, 2, 3], rerr = None, rsizes = []\<rparr>, 0), s1)"
proof -
  have "parse_estimated_size [newline] = Inl LineMissing"
    by code_simp
  then show ?thesis
    by (simp add: open_stream_def xf_cfg_def estimate_size_def command_output_def small_os_def pool_output_def
        pool_report_def send_incremental_def spawn_send_def io_bind_def io_match_def io_context_def io_return_def
        io_fail_def interleaved_def Let_def case_prod_beta)
qed

lemma shared_send_confirmed:
  "\<exists>s'. send_to_remote (amid small_os) example_json (to_remote name) (shared_state w batches) = (Ok (), s') \<and>
     [''hold'', transfer_tag name, ''d@zrb-2026-05-07T00:00:00Z''] \<in> set (cmds s')"
proof -
  let ?s = "shared_state w batches" and ?cfg = "xf_cfg\<lparr>rc_bandwidth_limit := None\<rparr>"
  obtain e where con: "connect (amid small_os) (sx_remote_cfg (to_remote name)) [] ?s =
      (Ok (), online (inp xf_client) (outp xf_client) [] (?s\<lparr>env := e\<rparr>))" (is "_ = (_, ?t)")
    by (simp add: connect_def small_os_def interleaved_def online_def shared_state_def Let_def)
  have cap: "wcap (outp ?t) = None" by (simp add: xf_client_def hs_state_def st0_def)
  have inp: "rbytes (inp ?t) = json_line (ser_server_status example_json) ok_status @
      json_line (ser_server_hello example_json) hs_hello @ json_line (ser_server_status example_json) ok_status"
    by (simp add: xf_client_def hs_state_def)
  have thr: "unthrottled (rc_bandwidth_limit ?cfg) k" for k
    using xf_unthrottled [of k] by (simp add: xf_cfg_def)
  have exch: "exchange (amid small_os) example_json (to_remote name) = send_on (amid small_os) example_json
      ''d@zrb-2026-05-07T00:00:00Z'' xf_snaps ?cfg ''t'' ''laptop'' (row_key (to_remote name)) True (\<lambda>k. False)"
    by (simp add: exchange_def to_remote_def xf_ctx_def task_context_def xf_task_def cancel_for_def)
  obtain s1 where opened: "open_stream (amid small_os) ?cfg ''d@zrb-2026-05-07T00:00:00Z''
      (IncrementalSend ''d@zrb-2026-05-06T00:00:00Z'') ?t = (Ok (\<lparr>rbytes = [1, 2, 3], rerr = None, rsizes = []\<rparr>, 0), s1)"
    using shared_open by blast
  have "fst (exchange (amid small_os) example_json (to_remote name) ?t) = Ok 3"
    unfolding exch using send_on_confirmed [OF xf_messages cap inp xf_decide _ opened _ thr] by simp
  then obtain s2 where "exchange (amid small_os) example_json (to_remote name) ?t = (Ok 3, s2)" by (metis prod.collapse)
  from confirmed_send_holds [OF con this] show ?thesis
    by (intro exI [of _ "snd (send_to_remote (amid small_os) example_json (to_remote name) ?s)"]) (auto simp: prod_eq_iff)
qed

lemma shared_send_holds:
  "issues (send_to_remote (amid small_os) example_json (to_remote name))
     [''hold'', transfer_tag name, ''d@zrb-2026-05-07T00:00:00Z'']"
proof -
  have "cmds (shared_state w batches) = []" for w batches by (simp add: shared_state_def)
  then show ?thesis
    using shared_send_confirmed [of name "(xf_snaps, [])" "[]"] unfolding issues_def by (metis drop0 list.size(3) snd_conv)
qed

lemma client_hold_never_lapses_witness:
  "\<exists>s' w' batches' past.
    send_to_remote (amid small_os) example_json (to_remote ''nas'')
      (shared_state (xf_snaps, [(''d@zrb-2026-05-06T00:00:00Z'', transfer_tag ''nas'')])
        [[], [[''hold'', transfer_tag ''usb'', ''d@zrb-2026-05-07T00:00:00Z'']]]) = (Ok (), s') \<and>
    env s' = (w', batches', past) \<and>
    (\<forall>v \<in> set (past @ [w']). some_held (\<lambda>w. set (snd w)) (\<lambda>w. set (fst w)) ''d'' (transfer_tag ''nas'') v)"
proof -
  let ?old = "''d@zrb-2026-05-06T00:00:00Z''"
  let ?s = "shared_state (xf_snaps, [(?old, transfer_tag ''nas'')])
        [[], [[''hold'', transfer_tag ''usb'', ''d@zrb-2026-05-07T00:00:00Z'']]]"
  obtain s' where run: "send_to_remote (amid small_os) example_json (to_remote ''nas'') ?s = (Ok (), s')"
    using shared_send_confirmed by blast
  obtain w' batches' past where e: "env s' = (w', batches', past)" by (cases "env s'")
  have "transfer_tag ''usb'' \<noteq> transfer_tag ''nas''" by (simp add: transfer_tag_def)
  then have "foreign small_os ''d'' (transfer_tag ''nas'') [''hold'', transfer_tag ''usb'', ''d@zrb-2026-05-07T00:00:00Z'']"
    by (intro foreign.sending [OF shared_send_holds]) simp
  with client_hold_never_lapses [OF small_relied _ e run, of "(xf_snaps, [(?old, transfer_tag ''nas'')])"
        "[[], [[''hold'', transfer_tag ''usb'', ''d@zrb-2026-05-07T00:00:00Z'']]]" "''d''" ?old]
  have "\<forall>v \<in> set (past @ [w']). some_held (\<lambda>w. set (snd w)) (\<lambda>w. set (fst w)) ''d'' (transfer_tag ''nas'') v"
    by (simp add: shared_state_def dataset_of_def held_def xf_snaps_def)
  with run e show ?thesis by blast
qed

text \<open>A receive into a dataset with the Received hold, while a snapshot of the dataset is taken.\<close>

lemma serve_relied: "relied_pool serve_os (\<lambda>w. set (snd w)) (\<lambda>w. set (fst w))"
  "faithful_receive serve_os (\<lambda>w. set (snd w)) (\<lambda>w. set (fst w))"
proof -
  have "refuses serve_os (\<lambda>w. set (snd w)) (\<lambda>w. set (fst w))"
    using small_relied by (simp add: relied_pool_def refuses_def serve_os_def)
  then show "relied_pool serve_os (\<lambda>w. set (snd w)) (\<lambda>w. set (fst w))"
    "faithful_receive serve_os (\<lambda>w. set (snd w)) (\<lambda>w. set (fst w))"
    using small_backup_faithful by (simp_all add: relied_pool_def faithful_backup_def small_backup_def)
qed

lemma serve_snapshots: "issues (snapshot (amid serve_os) gregorian ''t'') [''snapshot'', new_name gregorian ''t'' example_now]"
proof -
  have "cmds (snd (snapshot (amid serve_os) gregorian ''t'' (shared_state w []))) =
      [[''snapshot'', new_name gregorian ''t'' example_now]]" for w
    by (simp add: snapshot_def io_now_def interleaved_def serve_os_def small_os_def io_bind_def shared_state_def
        io_expect_def new_name_def PREFIX_def create_snapshot_def run_unit_def run_def io_return_def Let_def
        case_prod_beta pool_output_def)
  then show ?thesis
    unfolding issues_def by (intro exI [of _ "shared_state ([], []) []"]) (simp add: shared_state_def)
qed

lemma server_hold_never_lapses_witness:
  "\<exists>r s' w' batches' past.
    server_transfer (amid serve_os) gregorian example_json (\<lambda>k. False) \<lparr>hs_target = ''t'', hs_zfs_receive_opts = []\<rparr>
      ((shared_state ([''t@zrb-2026-05-06T00:00:00Z''], [(''t@zrb-2026-05-06T00:00:00Z'', RECEIVED_TAG)])
        [[], [[''snapshot'', new_name gregorian ''t'' example_now]]])\<lparr>inp := (inp st0)\<lparr>rbytes := encode_stream [1, 2, 3]\<rparr>\<rparr>) = (r, s') \<and>
    env s' = (w', batches', past) \<and>
    (\<forall>v \<in> set (past @ [w']). some_held (\<lambda>w. set (snd w)) (\<lambda>w. set (fst w)) ''t'' RECEIVED_TAG v)"
proof -
  let ?hs = "\<lparr>hs_target = ''t'', hs_zfs_receive_opts = []\<rparr>"
  let ?w = "([''t@zrb-2026-05-06T00:00:00Z''], [(''t@zrb-2026-05-06T00:00:00Z'', RECEIVED_TAG)])"
  let ?s = "(shared_state ?w [[], [[''snapshot'', new_name gregorian ''t'' example_now]]])
    \<lparr>inp := (inp st0)\<lparr>rbytes := encode_stream [1, 2, 3]\<rparr>\<rparr>"
  obtain r s' where run: "server_transfer (amid serve_os) gregorian example_json (\<lambda>k. False) ?hs ?s = (r, s')"
    by fastforce
  obtain w' batches' past where e: "env s' = (w', batches', past)" by (cases "env s'")
  have start: "env ?s = (?w, [[], [[''snapshot'', new_name gregorian ''t'' example_now]]], [])"
    by (simp add: shared_state_def)
  have "foreign serve_os ''t'' RECEIVED_TAG [''snapshot'', new_name gregorian ''t'' example_now]"
    by (rule foreign.snapshotting [OF serve_snapshots])
  with server_hold_never_lapses [OF serve_relied start e run, of "''t@zrb-2026-05-06T00:00:00Z''"]
  have "\<forall>v \<in> set (past @ [w']). some_held (\<lambda>w. set (snd w)) (\<lambda>w. set (fst w)) ''t'' RECEIVED_TAG v"
    by (simp add: dataset_of_def held_def)
  with run e show ?thesis by blast
qed

end
