(* ===== verification/Cancel.thy ===== *)
theory Cancel
  imports EndToEnd
begin

text \<open>
  A transfer that the user cancels, seen from both sides: the client stops after a chunk
  (\<open>write_stream\<close> in \<open>src/protocol/codec.rs\<close>, \<open>src/ops/send.rs\<close>) and closes the connection; the
  server runs into the end of its input, lets \<open>zfs receive\<close> end, and dates what is left of it
  (\<open>src/ops/server.rs\<close>). A cancellation during the last chunk comes too late for that.
\<close>

section \<open>The client stops\<close>

lemma stream_out_cut:
  assumes "wcap (outp s) = None" "rerr zfs_out = None"
    and "unthrottled (rc_bandwidth_limit cfg) (length (rbytes zfs_out))"
    and "emit_chunks cancel 0 (chunks (rbytes zfs_out)) = (out, True)"
  shows "\<exists>evs. stream_out cfg key progress cancel zfs_out total_bytes s =
    (Ok (Inl Cancelled), online (inp s) ((outp s)\<lparr>wbytes := wbytes (outp s) @ out\<rparr>) (notices s @ evs) s)"
proof -
  obtain x src' dest' calls where w: "write_stream (rc_bandwidth_limit cfg) total_bytes cancel zfs_out (outp s) =
      (x, src', dest', calls)" by (metis prod_cases4)
  have lim: "\<And>n. n \<le> length (rbytes zfs_out) \<Longrightarrow> \<not> throttle_panics (rc_bandwidth_limit cfg) (word_of_nat n)"
    using assms(3) by (simp add: unthrottled_def)
  note facts = write_stream_emits(1,2) [OF assms(1,2) lim w]
  show ?thesis
    using facts assms(4)
    by (intro exI [of _ "if progress then map (\<lambda>(b, t). RemoteProgress key b) calls else []"])
      (simp add: stream_out_def w online_def Let_def)
qed

lemma send_on_cut:
  assumes "messages_survive J (hello_request client target) hello verdict"
    and "wcap (outp s) = None"
    and "rbytes (inp s) = json_line (ser_server_status J) ok_status @ json_line (ser_server_hello J) hello @ rest"
    and "decide_transfer hello local_snaps latest = Ok d" and "d \<noteq> AlreadyUpToDate"
    and "open_stream S cfg latest d s = (Ok (zfs_out, total_bytes), s1)"
    and "rerr zfs_out = None" and "unthrottled (rc_bandwidth_limit cfg) (length (rbytes zfs_out))"
    and "emit_chunks cancel 0 (chunks (rbytes zfs_out)) = (out, True)"
  shows "\<exists>evs. send_on S J latest local_snaps cfg target client key progress cancel s =
    (Err (WithContext ''transferring stream'' Cancelled),
     online ((inp s)\<lparr>rbytes := rest\<rparr>)
       ((outp s)\<lparr>wbytes := wbytes (outp s) @ json_line (ser_client_hello J) (hello_request client target) @
          json_line (ser_client_ready J) ready_message @ out\<rparr>)
       (notices s @ evs) s1)"
proof -
  have J: "json_round_trip (ser_client_hello J) (de_client_hello J) (hello_request client target)"
    "json_round_trip (ser_server_status J) (de_server_status J) ok_status"
    "json_round_trip (ser_server_hello J) (de_server_hello J) hello"
    "json_round_trip (ser_client_ready J) (de_client_ready J) ready_message"
    using assms(1) by (simp_all add: messages_survive_def)
  define u where "u = online ((inp s)\<lparr>rbytes := rest\<rparr>)
        ((outp s)\<lparr>wbytes := wbytes (outp s) @ json_line (ser_client_hello J) (hello_request client target) @
           json_line (ser_client_ready J) ready_message\<rparr>)
        (notices s @ (if progress then [RemoteStarted key total_bytes] else [])) s1"
  have "wcap (outp u) = None" using assms(2) by (simp add: u_def)
  then obtain evs where "stream_out cfg key progress cancel zfs_out total_bytes u =
      (Ok (Inl Cancelled), online (inp u) ((outp u)\<lparr>wbytes := wbytes (outp u) @ out\<rparr>) (notices u @ evs) u)"
    using stream_out_cut [OF _ assms(7-9)] by blast
  then show ?thesis
    unfolding send_on_opens [OF J assms(2-6)] u_def [symmetric]
    by (intro exI [of _ "(if progress then [RemoteStarted key total_bytes] else []) @ evs"])
      (simp add: stream_and_confirm_def io_bind_def io_fail_def u_def)
qed

section \<open>The server runs into the end of its input\<close>

lemma read_cut:
  assumes "wcap dest = None" "rbytes src = concat (map (framed True) cs)"
    and "\<And>c. c \<in> set cs \<Longrightarrow> length c \<le> CHUNK_SIZE"
  shows "\<exists>src' e. read_stream_with_cancel (\<lambda>k. False) k src dest =
    (Err e, src', dest\<lparr>wbytes := wbytes dest @ concat cs\<rparr>)"
  using assms
proof (induction cs arbitrary: k src dest)
  case Nil
  then have "\<exists>src' e. read_stream_with_cancel (\<lambda>k. False) k src dest = (Err (Io e), src', dest)"
    by (subst read_stream_with_cancel.simps) (auto simp: read_exact_def CHUNK_SIZE_def)
  then show ?case by auto
next
  case (Cons c cs)
  have "read_stream_with_cancel (\<lambda>k. False) k src dest =
      read_stream_with_cancel (\<lambda>k. False) (Suc k) (src\<lparr>rbytes := concat (map (framed True) cs)\<rparr>)
        (dest\<lparr>wbytes := wbytes dest @ c\<rparr>)"
    using Cons.prems read_stream_with_cancel_chunk [of dest src True c "concat (map (framed True) cs)"] by simp
  also have "\<exists>src' e. \<dots> = (Err e, src', dest\<lparr>wbytes := (wbytes dest @ c) @ concat cs\<rparr>)"
    using Cons.IH [of "dest\<lparr>wbytes := wbytes dest @ c\<rparr>" "src\<lparr>rbytes := concat (map (framed True) cs)\<rparr>" "Suc k"]
      Cons.prems by simp
  finally show ?case by simp
qed

text \<open>What the server does once the stream has ended in one way or another.\<close>

definition settle :: "'w os \<Rightarrow> chrono \<Rightarrow> string \<Rightarrow> bool \<Rightarrow> unit res \<Rightarrow> ('w, unit) io" where
  "settle T C target whole fin =
     (if whole \<and> fin = Ok () then place_server_transfer_hold T C target else annotate_resume_if_needed T C target)"

lemma offline_settle: "offline (settle T C target whole fin)"
  by (simp add: settle_def offline_server_hold offline_annotate)

lemma finish_no_panic: "finish T recv s \<noteq> (Panic p, s')"
  by (auto simp: finish_def Let_def split: prod.splits proc_out.splits)

lemma send_status_quiet: "env (snd (send_status J ok msg s)) = env s \<and> cmds (snd (send_status J ok msg s)) = cmds s"
  by (simp add: send_status_def io_xmit_def Let_def case_prod_beta)

lemma server_transfer_settles:
  assumes "receive T (hs_target hs) (hs_zfs_receive_opts hs) s = (Ok recv, s1)"
    and "receive_stream (\<lambda>k. False) recv s1 = (Ok (sr, recv'), s2)" and "sr \<noteq> Inr True"
    and "finish T recv' s2 = (fin, s3)"
    and "settle T C (hs_target hs) (sr = Inr False) fin s3 = (a, s4)"
  shows "env (snd (server_transfer T C J (\<lambda>k. False) hs s)) = env s4 \<and>
    cmds (snd (server_transfer T C J (\<lambda>k. False) hs s)) = cmds s4"
proof -
  let ?st = "\<lambda>m. \<exists>ok msg. snd m = snd (send_status J ok msg s4) \<or> snd m = s4"
  have "?st (server_transfer T C J (\<lambda>k. False) hs s)"
  proof (cases sr)
    case (Inr b)
    then have b: "\<not> b" using assms(3) by simp
    show ?thesis
    proof (cases fin)
      case (Ok u)
      then have "place_server_transfer_hold T C (hs_target hs) s3 = (a, s4)"
        using assms(5) Inr b by (simp add: settle_def)
      then show ?thesis
        using assms(1,2,4) Inr b Ok
        by (cases a) (auto simp: server_transfer_def io_bind_def io_context_def io_match_def io_return_def)
    next
      case (Err e)
      then have "annotate_resume_if_needed T C (hs_target hs) s3 = (a, s4)"
        using assms(5) by (simp add: settle_def)
      then show ?thesis
        using assms(1,2,4) Inr b Err
        by (cases a) (auto simp: server_transfer_def io_bind_def io_context_def io_match_def io_return_def)
    next
      case (Panic p)
      then show ?thesis using finish_no_panic assms(4) by blast
    qed
  next
    case (Inl e)
    then have an: "annotate_resume_if_needed T C (hs_target hs) s3 = (a, s4)"
      using assms(5) by (simp add: settle_def)
    show ?thesis
      using assms(1,2,4) Inl an finish_no_panic [of T recv' s2]
      by (cases fin; cases a) (auto simp: server_transfer_def io_bind_def io_context_def io_match_def io_return_def)
  qed
  then show ?thesis using send_status_quiet by metis
qed

section \<open>The two sides together\<close>

text \<open>What is on the wire after a cancellation during chunk \<open>i\<close>, and what the receiver makes of it.\<close>

lemma receive_cut:
  assumes "emit_chunks cancel 0 (chunks bs) = (out, True)"
    and "cancel i" "\<And>j. j < i \<Longrightarrow> \<not> cancel j" "i < length (chunks bs)"
    and "rbytes (inp s) = out" "wcap (zr_stdin recv) = None" "wbytes (zr_stdin recv) = []"
  obtains sr i' where "receive_stream (\<lambda>k. False) recv s =
      (Ok (sr, recv\<lparr>zr_stdin := \<lparr>wbytes = concat (take (Suc i) (chunks bs)), wcap = None\<rparr>\<rparr>), s\<lparr>inp := i'\<rparr>)"
    "sr \<noteq> Inr True" "sr = Inr False \<longleftrightarrow> Suc i = length (chunks bs)"
proof (cases "Suc i = length (chunks bs)")
  case True
  have snoc: "encode_chunks (ds @ [d]) = concat (map (framed True) ds) @ framed False d" for ds d
    by (induction ds) auto
  have "out = concat (map (framed True) (take i (chunks bs))) @ framed False (chunks bs ! i)"
    using emit_chunks_cut [of cancel 0 i "chunks bs"] assms(1-4) True by simp
  also have "\<dots> = encode_chunks (take i (chunks bs) @ [chunks bs ! i])"
    by (simp only: snoc)
  also have "take i (chunks bs) @ [chunks bs ! i] = chunks bs"
    using True take_Suc_conv_app_nth [OF assms(4)] by simp
  finally have "rbytes (inp s) = encode_stream bs @ []"
    using assms(5) by (simp add: encode_stream_def)
  from receive_stream_run [OF this assms(6,7)] True show thesis
    by (intro that [of "Inr False"]) (simp_all add: concat_chunks)
next
  case False
  then have "out = concat (map (framed True) (take (Suc i) (chunks bs)))"
    using emit_chunks_cut [of cancel 0 i "chunks bs"] assms(1-4)
    by (auto simp: take_Suc_conv_app_nth)
  then obtain src' e where "read_stream_with_cancel (\<lambda>k. False) 0 (inp s) (zr_stdin recv) =
      (Err e, src', (zr_stdin recv)\<lparr>wbytes := concat (take (Suc i) (chunks bs))\<rparr>)"
    using read_cut [OF assms(6), of "inp s" "take (Suc i) (chunks bs)" 0] assms(5,7) chunks_length
    by (metis append_Nil in_set_takeD)
  with False assms(6) show thesis
    by (intro that [of "Inl e"]) (simp_all add: receive_stream_def)
qed

text \<open>
  C15. A cancelled transfer ends the same way on both sides: the client fails with the
  cancellation and starts nothing more; \<open>zfs receive\<close> is given exactly the chunks up to the one
  that was being sent, and when it has ended, the server dates the partial receive and holds
  nothing. Only when the cancellation came during the very last chunk has the server received
  everything: then it holds the snapshot, although the client reports a cancelled transfer and
  holds nothing.
\<close>

theorem cancelled_transfer:
  assumes "send_on S J latest local_snaps cfg target client key progress cancel s = (r, s')"
    and "run_server_on T C J config permitted (\<lambda>k. False) t = (q, t')"
    and "connected s s' t t'" and "messages_survive J (hello_request client target) hello ok_status"
    and "client \<in> set permitted" and "map_of (sv_clients config) client = Some ccfg"
    and "target \<in> set (cc_allow ccfg)"
    and "get_resume_token T target t = (Ok token, t1)" and "list_snapshots T target t1 = (Ok raw, t2)"
    and "hello = \<lparr>sh_version = CARGO_PKG_VERSION,
           sh_head = last_of (sort_chronological C (filter_zrb C raw)), sh_resume_token = token\<rparr>"
    and "decide_transfer hello local_snaps latest = Ok d" and "d \<noteq> AlreadyUpToDate"
    and "open_stream S cfg latest d s = (Ok (zfs_out, total_bytes), s1)" and "rerr zfs_out = None"
    and "unthrottled (rc_bandwidth_limit cfg) (length (rbytes zfs_out))"
    and "receive T target (cc_zfs_receive_opts ccfg) t2 = (Ok recv, t3)" and "wcap (zr_stdin recv) = None"
    and "cancel i" and "\<And>j. j < i \<Longrightarrow> \<not> cancel j" and "i < length (chunks (rbytes zfs_out))"
    and "finish T (recv\<lparr>zr_stdin := \<lparr>wbytes = concat (take (Suc i) (chunks (rbytes zfs_out))), wcap = None\<rparr>\<rparr>) t3 =
      (fin, t4)"
    and "(if Suc i = length (chunks (rbytes zfs_out)) \<and> fin = Ok () then place_server_transfer_hold T C target
          else annotate_resume_if_needed T C target) t4 = (a, t5)"
  shows "r = Err (WithContext ''transferring stream'' Cancelled) \<and> env s' = env s1 \<and> cmds s' = cmds s1 \<and>
    env t' = env t5 \<and> cmds t' = cmds t5"
proof -
  let ?cs = "chunks (rbytes zfs_out)" and ?ready = "json_line (ser_client_ready J) ready_message"
  let ?hs = "\<lparr>hs_target = target, hs_zfs_receive_opts = cc_zfs_receive_opts ccfg\<rparr>"
  obtain out where out: "emit_chunks cancel 0 ?cs = (out, True)"
    using emit_chunks_cut [of cancel 0 i ?cs] assms(18-20) by simp
  have J: "json_round_trip (ser_client_ready J) (de_client_ready J) ready_message"
    using assms(4) by (simp add: messages_survive_def)
  have c: "wcap (outp s) = None" "wbytes (outp s) = []" "rbytes (inp t) = wbytes (outp s')"
    using assms(3) by (simp_all add: connected_def)
  obtain more tail u where more: "rbytes (inp t) = json_line (ser_client_hello J) (hello_request client target) @ more"
    and tail: "rbytes (inp s) = wbytes (outp u) @ tail"
      "wbytes (outp u) = json_line (ser_server_status J) ok_status @ json_line (ser_server_hello J) hello"
    and u: "u = online ((inp t)\<lparr>rbytes := more\<rparr>) (outp u) (notices t) t2" "wcap (outp u) = None"
      "server_rest T C J (\<lambda>k. False) ?hs u = (q, t')"
    by (rule exchange_begins [OF assms(1-10)])
  obtain evs where client: "(r, s') = (Err (WithContext ''transferring stream'' Cancelled),
      online ((inp s)\<lparr>rbytes := tail\<rparr>) ((outp s)\<lparr>wbytes := wbytes (outp s) @
        json_line (ser_client_hello J) (hello_request client target) @ ?ready @ out\<rparr>) (notices s @ evs) s1)"
    using send_on_cut [OF assms(4) c(1) tail(1) [unfolded tail(2) append_assoc] assms(11-15) out, of key progress]
      assms(1) by auto
  then have stream: "more = ?ready @ out" using more c by simp
  define v where "v = online ((inp t)\<lparr>rbytes := out\<rparr>) (outp u) (notices t) t2"
  have conn: "inp u = (inp t)\<lparr>rbytes := more\<rparr>" "notices u = notices t" "online j o' n u = online j o' n t2" for j o' n
    by (subst u(1), simp)+
  have "v = online ((inp u)\<lparr>rbytes := out\<rparr>) (outp u) (notices u) u"
    unfolding conn v_def by simp
  moreover have "rbytes (inp u) = ?ready @ out" by (simp add: conn(1) stream)
  ultimately have served: "server_transfer T C J (\<lambda>k. False) ?hs v = (q, t')"
    using server_rest_run [OF J, of u out T C "\<lambda>k. False" ?hs] u(3) by simp
  let ?s1 = "online (inp v) (outp v) (notices v) t3"
  have recv: "receive T (hs_target ?hs) (hs_zfs_receive_opts ?hs) v = (Ok recv, ?s1)"
    using offlineD [OF offline_run(3) assms(16)] by (simp add: v_def)
  obtain sr i' where sr: "receive_stream (\<lambda>k. False) recv ?s1 =
      (Ok (sr, recv\<lparr>zr_stdin := \<lparr>wbytes = concat (take (Suc i) ?cs), wcap = None\<rparr>\<rparr>), ?s1\<lparr>inp := i'\<rparr>)"
    "sr \<noteq> Inr True" "sr = Inr False \<longleftrightarrow> Suc i = length ?cs"
    using receive_cut [OF out assms(18-20), of ?s1 recv] assms(17) receive_stdin [OF assms(16)] by (auto simp: v_def)
  have fin: "finish T (recv\<lparr>zr_stdin := \<lparr>wbytes = concat (take (Suc i) ?cs), wcap = None\<rparr>\<rparr>)
      (?s1\<lparr>inp := i'\<rparr>) = (fin, online i' (outp v) (notices v) t4)"
    using offlineD [OF offline_run(4) assms(21)] by simp
  have "settle T C (hs_target ?hs) (sr = Inr False) fin t4 = (a, t5)"
    using assms(22) by (simp add: settle_def sr(3))
  then have "settle T C (hs_target ?hs) (sr = Inr False) fin (online i' (outp v) (notices v) t4) =
      (a, online i' (outp v) (notices v) t5)"
    by (rule offlineD [OF offline_settle])
  from server_transfer_settles [OF recv sr(1,2) fin this, of J] served client show ?thesis by simp
qed

section \<open>Witness\<close>

text \<open>The transfer of three bytes in one chunk, cancelled while it is being sent.\<close>

lemma chunks_three: "chunks [1, 2, 3 :: u8] = [[1, 2, 3]]"
  by (simp add: chunks_def CHUNK_SIZE_def)

lemma cancelled_transfer_witness:
  "fst (send_on listing_os example_json ''d@zrb-2026-05-07T00:00:00Z'' xf_snaps xf_cfg ''t'' ''laptop'' ''row''
      True (\<lambda>k. True) xf_client) = Err (WithContext ''transferring stream'' Cancelled)"
proof -
  let ?send = "send_on listing_os example_json ''d@zrb-2026-05-07T00:00:00Z'' xf_snaps xf_cfg ''t'' ''laptop'' ''row''
      True (\<lambda>k. True) xf_client"
  have d: "IncrementalSend ''d@zrb-2026-05-06T00:00:00Z'' \<noteq> AlreadyUpToDate" by simp
  have em: "emit_chunks (\<lambda>k. True) 0 (chunks [1, 2, 3]) = (encode_stream [1, 2, 3], True)"
    by (simp add: chunks_three encode_stream_def)
  have cap: "wcap (outp xf_client) = None" and start: "outp xf_client = \<lparr>wbytes = [], wcap = None\<rparr>"
    by (simp_all add: xf_client_def hs_state_def st0_def)
  have inp: "rbytes (inp xf_client) = json_line (ser_server_status example_json) ok_status @
      json_line (ser_server_hello example_json) hs_hello @ json_line (ser_server_status example_json) ok_status"
    by (simp add: xf_client_def hs_state_def)
  have "wbytes (outp (snd ?send)) = rbytes (inp xf_server)"
    using send_on_cut [OF xf_messages cap inp xf_decide d xf_open _ xf_unthrottled, of "\<lambda>k. True" "encode_stream [1, 2, 3]"
        "''row''" True] em start
    by (auto simp: xf_server_def hs_state_def)
  then have conn: "connected xf_client (snd ?send) xf_server
      (snd (run_server_on listing_os gregorian example_json hs_config [''laptop''] (\<lambda>k. False) xf_server))"
    using xf_connected by (simp add: connected_def)
  show ?thesis
    using cancelled_transfer [OF prod.collapse [symmetric] prod.collapse [symmetric] conn xf_messages xf_server_cfg
        xf_token xf_raw xf_hello xf_decide d xf_open _ xf_unthrottled xf_recv _ _ _ _ xf_finish
        prod.collapse [symmetric], of 0]
    by (simp add: chunks_three)
qed

end
