(* ===== verification/Tui.thy ===== *)
theory Tui
  imports World
begin

text \<open>
  The terminal interface (\<open>src/tui.rs\<close>): the state machine that turns transfer events and keys
  into what is shown, its two event loops, the buffering logger, and the text of the screens.
  Instants are nanoseconds. What the terminal library does with a screen, the raw mode and the
  systemd watchdog are left out; a loop takes its inputs from a list, in the order in which
  \<open>select!\<close> picks them.
\<close>

section \<open>Time and speed\<close>

type_synonym instant = nat

text \<open>\<open>now.duration_since(last).as_secs_f64()\<close>, which is zero when the clock went backwards.\<close>

definition secs_since :: "instant \<Rightarrow> instant \<Rightarrow> f64" where
  "secs_since now earlier =
     (let d = now - earlier
      in f64_add (round_f64 (of_nat (d div 1000000000)))
           (f64_div (Fin (of_nat (d mod 1000000000))) (Fin 1000000000)))"

definition sat_sub :: "'a::len word \<Rightarrow> 'a word \<Rightarrow> 'a word" where
  "sat_sub a b = (if b \<le> a then a - b else 0)"

text \<open>
  Speed and remaining time after a progress report, from the previous one and, for an active
  transfer, its total size with the speed and time shown so far.
\<close>

definition transfer_rate ::
    "instant \<Rightarrow> (instant \<times> u64) option \<Rightarrow> (u64 \<times> f64 \<times> f64 option) option \<Rightarrow> u64 \<Rightarrow> f64 \<times> f64 option" where
  "transfer_rate now last_progress active bytes_sent =
     (case (last_progress, active) of
        (Some (last_time, last_bytes), Some (total_bytes, shown_speed, shown_eta)) \<Rightarrow>
          let dt = secs_since now last_time
          in if f64_less (Fin 0) dt
             then let speed = f64_div (f64_of_u64 (sat_sub bytes_sent last_bytes)) dt
                  in (speed,
                      if f64_less (Fin 0) speed
                      then Some (f64_div (f64_of_u64 (sat_sub total_bytes bytes_sent)) speed)
                      else None)
             else (shown_speed, shown_eta)
      | _ \<Rightarrow> (Fin 0, None))"

section \<open>The state machine\<close>

definition SUMMARY_TIMEOUT_OK_SECS :: u8 where
  "SUMMARY_TIMEOUT_OK_SECS = 10"

definition SUMMARY_TIMEOUT_FAIL_SECS :: u8 where
  "SUMMARY_TIMEOUT_FAIL_SECS = 30"

datatype tui_key = KAny | KSkip | KQuit | KUp | KDown

datatype row_state =
    Waiting
  | Active (row_sent: u64) (row_total: u64) (row_speed: f64) (row_eta: "f64 option")
  | Done u64 f64
  | Failed string
  | Skipped
  | UpToDate

record remote_row =
  rr_name :: string
  rr_state :: row_state
  rr_last_progress :: "(instant \<times> u64) option"

definition new_row :: "string \<Rightarrow> remote_row" where
  "new_row name = \<lparr>rr_name = name, rr_state = Waiting, rr_last_progress = None\<rparr>"

datatype tui_state = Countdown u8 | Aborted | Transferring | Summary | Exiting

text \<open>A cancellation token is shared with its transfer; what is kept of it is whether it is cancelled.\<close>

record tui_app =
  ta_state :: tui_state
  ta_remotes :: "remote_row list"
  ta_focused :: nat
  ta_summary_countdown :: u8
  ta_tokens :: "(string, bool) hmap"

definition tui_new :: tui_app where
  "tui_new = \<lparr>ta_state = Countdown 5, ta_remotes = [], ta_focused = 0,
     ta_summary_countdown = SUMMARY_TIMEOUT_OK_SECS, ta_tokens = []\<rparr>"

definition build_cancel_map :: "string list \<Rightarrow> (string, bool) hmap" where
  "build_cancel_map names = map (\<lambda>n. (n, False)) (remdups names)"

definition for_transfer_with_tokens :: "string list \<Rightarrow> (string, bool) hmap \<Rightarrow> tui_app" where
  "for_transfer_with_tokens names tokens =
     \<lparr>ta_state = Transferring, ta_remotes = map new_row names, ta_focused = 0,
      ta_summary_countdown = SUMMARY_TIMEOUT_OK_SECS, ta_tokens = tokens\<rparr>"

definition for_transfer :: "string list \<Rightarrow> tui_app" where
  "for_transfer names = for_transfer_with_tokens names (build_cancel_map names)"

definition cancel_map :: "tui_app \<Rightarrow> (string, bool) hmap" where
  "cancel_map app = ta_tokens app"

definition cancel_token :: "string \<Rightarrow> (string, bool) hmap \<Rightarrow> (string, bool) hmap" where
  "cancel_token name tokens = map (\<lambda>(n, b). (n, b \<or> n = name)) tokens"

text \<open>\<open>remotes.iter_mut().find(|r| r.name == remote)\<close> and an update of what was found.\<close>

fun update_row :: "string \<Rightarrow> (remote_row \<Rightarrow> remote_row) \<Rightarrow> remote_row list \<Rightarrow> remote_row list" where
  "update_row name f [] = []"
| "update_row name f (r # rs) = (if rr_name r = name then f r # rs else r # update_row name f rs)"

definition on_row :: "string \<Rightarrow> (remote_row \<Rightarrow> remote_row) \<Rightarrow> tui_app \<Rightarrow> tui_app" where
  "on_row name f app = app\<lparr>ta_remotes := update_row name f (ta_remotes app)\<rparr>"

definition progress_row :: "instant \<Rightarrow> u64 \<Rightarrow> remote_row \<Rightarrow> remote_row" where
  "progress_row now bytes_sent row =
     (let active = (case rr_state row of
                      Active bs total_bytes speed eta \<Rightarrow> Some (total_bytes, speed, eta)
                    | _ \<Rightarrow> None);
          (speed, eta) = transfer_rate now (rr_last_progress row) active bytes_sent
      in row\<lparr>rr_state := (case rr_state row of
                            Active bs total_bytes _ _ \<Rightarrow> Active bytes_sent total_bytes speed eta
                          | st \<Rightarrow> st),
             rr_last_progress := Some (now, bytes_sent)\<rparr>)"

definition is_failed :: "row_state \<Rightarrow> bool" where
  "is_failed st = (case st of Failed e \<Rightarrow> True | _ \<Rightarrow> False)"

definition is_pending :: "row_state \<Rightarrow> bool" where
  "is_pending st = (case st of Active a b c d \<Rightarrow> True | Waiting \<Rightarrow> True | _ \<Rightarrow> False)"

fun handle_send_event :: "instant \<Rightarrow> send_event \<Rightarrow> tui_app \<Rightarrow> tui_app" where
  "handle_send_event now (CountdownTick remaining_secs) app =
     (case ta_state app of
        Countdown _ \<Rightarrow>
          app\<lparr>ta_state := (if remaining_secs = 0 then Transferring else Countdown remaining_secs)\<rparr>
      | _ \<Rightarrow> app)"
| "handle_send_event now CountdownAborted app =
     (case ta_state app of Countdown _ \<Rightarrow> app\<lparr>ta_state := Aborted\<rparr> | _ \<Rightarrow> app)"
| "handle_send_event now (RemoteProgress remote bytes_sent) app =
     on_row remote (progress_row now bytes_sent) app"
| "handle_send_event now (RemoteStarted remote total_bytes) app =
     on_row remote (\<lambda>row. row\<lparr>rr_state := Active 0 total_bytes (Fin 0) None,
                               rr_last_progress := Some (now, 0)\<rparr>) app"
| "handle_send_event now (RemoteCompleted remote elapsed_s bytes) app =
     on_row remote (\<lambda>row. row\<lparr>rr_state := Done bytes elapsed_s\<rparr>) app"
| "handle_send_event now (RemoteFailed remote error) app =
     on_row remote (\<lambda>row. row\<lparr>rr_state := Failed error\<rparr>) app"
| "handle_send_event now (RemoteSkipped remote) app =
     on_row remote (\<lambda>row. row\<lparr>rr_state := Skipped\<rparr>) app"
| "handle_send_event now (RemoteUpToDate remote) app =
     on_row remote (\<lambda>row. row\<lparr>rr_state := UpToDate\<rparr>) app"
| "handle_send_event now AllDone app =
     (if ta_state app = Transferring
      then app\<lparr>ta_summary_countdown :=
                 (if \<exists>r \<in> set (ta_remotes app). is_failed (rr_state r) then SUMMARY_TIMEOUT_FAIL_SECS
                  else SUMMARY_TIMEOUT_OK_SECS),
               ta_state := Summary\<rparr>
      else app)"
| "handle_send_event now SummaryTick app =
     (if ta_state app = Summary
      then let c = sat_sub (ta_summary_countdown app) 1
           in app\<lparr>ta_summary_countdown := c, ta_state := (if c = 0 then Exiting else Summary)\<rparr>
      else app)"

definition skip_all_active :: "tui_app \<Rightarrow> tui_app" where
  "skip_all_active app =
     app\<lparr>ta_remotes := map (\<lambda>r. if is_pending (rr_state r) then r\<lparr>rr_state := Skipped\<rparr> else r) (ta_remotes app)\<rparr>"

definition handle_key :: "tui_key \<Rightarrow> tui_app \<Rightarrow> tui_app" where
  "handle_key key app =
     (case ta_state app of
        Countdown _ \<Rightarrow> app\<lparr>ta_state := Aborted\<rparr>
      | Summary \<Rightarrow> app\<lparr>ta_state := Exiting\<rparr>
      | Transferring \<Rightarrow>
          (case key of
             KSkip \<Rightarrow>
               if length (ta_remotes app) = 1
               then (skip_all_active (app\<lparr>ta_tokens := cancel_token (rr_name (hd (ta_remotes app))) (ta_tokens app)\<rparr>))
                      \<lparr>ta_state := Summary\<rparr>
               else if ta_focused app < length (ta_remotes app) \<and>
                       is_pending (rr_state (ta_remotes app ! ta_focused app))
               then let row = ta_remotes app ! ta_focused app
                    in app\<lparr>ta_tokens := cancel_token (rr_name row) (ta_tokens app),
                           ta_remotes := (ta_remotes app)[ta_focused app := row\<lparr>rr_state := Skipped\<rparr>]\<rparr>
               else app
           | KQuit \<Rightarrow>
               (skip_all_active (app\<lparr>ta_tokens := map (\<lambda>(n, b). (n, True)) (ta_tokens app)\<rparr>))
                 \<lparr>ta_state := Summary\<rparr>
           | KUp \<Rightarrow> app\<lparr>ta_focused := ta_focused app - 1\<rparr>
           | KDown \<Rightarrow>
               if ta_focused app + 1 < length (ta_remotes app)
               then app\<lparr>ta_focused := ta_focused app + 1\<rparr> else app
           | KAny \<Rightarrow> app)
      | _ \<Rightarrow> app)"

section \<open>The event loops\<close>

text \<open>
  \<open>draw k\<close> is the error, if any, of the \<open>k\<close>-th call of \<open>terminal.draw\<close>. A loop that has used
  up its inputs is still waiting: None.
\<close>

datatype countdown_input = SecondTick | KeyPress | OtherInput

fun countdown_loop ::
    "(nat \<Rightarrow> string option) \<Rightarrow> nat \<Rightarrow> u8 \<Rightarrow> tui_app \<Rightarrow> (instant \<times> countdown_input) list \<Rightarrow> bool res option" where
  "countdown_loop draw k remaining app inputs =
     (case draw k of
        Some e \<Rightarrow> Some (Err (Message e))
      | None \<Rightarrow>
          (case inputs of
             [] \<Rightarrow> None
           | (now, input) # inputs' \<Rightarrow>
               let remaining' = (if input = SecondTick then sat_sub remaining 1 else remaining);
                   app' = (case input of
                             SecondTick \<Rightarrow> handle_send_event now (CountdownTick remaining') app
                           | KeyPress \<Rightarrow> handle_key KAny app
                           | OtherInput \<Rightarrow> app)
               in (case ta_state app' of
                     Aborted \<Rightarrow>
                       (case draw (Suc k) of Some e \<Rightarrow> Some (Err (Message e)) | None \<Rightarrow> Some (Ok False))
                   | Transferring \<Rightarrow> Some (Ok True)
                   | _ \<Rightarrow> countdown_loop draw (Suc k) remaining' app' inputs')))"

declare countdown_loop.simps [simp del]

datatype key_code = KeyChar char | KeyUp | KeyDown | KeyOther

definition tui_key_of :: "key_code \<Rightarrow> tui_key" where
  "tui_key_of code =
     (case code of
        KeyChar c \<Rightarrow>
          if c = CHR ''s'' \<or> c = CHR ''S'' then KSkip
          else if c = CHR ''q'' \<or> c = CHR ''Q'' then KQuit else KAny
      | KeyUp \<Rightarrow> KUp
      | KeyDown \<Rightarrow> KDown
      | KeyOther \<Rightarrow> KAny)"

text \<open>A closed channel (None) counts as the end of all transfers; the summary's interval is only
  listened to while the summary is shown.\<close>

datatype transfer_input =
    RenderTick
  | TermKey key_code
  | TermOther
  | Channel "send_event option"
  | SummaryInterval

definition transfer_step :: "instant \<Rightarrow> transfer_input \<Rightarrow> tui_app \<Rightarrow> tui_app" where
  "transfer_step now input app =
     (case input of
        RenderTick \<Rightarrow> app
      | TermKey code \<Rightarrow> handle_key (tui_key_of code) app
      | TermOther \<Rightarrow> app
      | Channel ev \<Rightarrow> handle_send_event now (case ev of Some e \<Rightarrow> e | None \<Rightarrow> AllDone) app
      | SummaryInterval \<Rightarrow>
          if ta_state app = Summary then handle_send_event now SummaryTick app else app)"

fun transfer_loop ::
    "(nat \<Rightarrow> string option) \<Rightarrow> nat \<Rightarrow> tui_app \<Rightarrow> (instant \<times> transfer_input) list \<Rightarrow> unit res option \<times> tui_app" where
  "transfer_loop draw k app [] = (None, app)"
| "transfer_loop draw k app ((now, input) # inputs) =
     (case (if input = RenderTick then draw k else None) of
        Some e \<Rightarrow> (Some (Err (Message e)), app)
      | None \<Rightarrow>
          let k' = (if input = RenderTick then Suc k else k);
              app' = transfer_step now input app
          in if ta_state app' = Exiting
             then (case draw k' of
                     Some e \<Rightarrow> (Some (Err (Message e)), app')
                   | None \<Rightarrow> (Some (Ok ()), app'))
             else transfer_loop draw k' app' inputs)"

section \<open>The buffering logger\<close>

record stored_record =
  sr_level :: nat
  sr_target :: string
  sr_args :: string

text \<open>\<open>tl_printed\<close> is what the inner logger was given.\<close>

record tui_logger =
  tl_enabled :: "stored_record \<Rightarrow> bool"
  tl_buffer :: "stored_record list option"
  tl_printed :: "stored_record list"

definition tui_log :: "stored_record \<Rightarrow> tui_logger \<Rightarrow> tui_logger" where
  "tui_log r l =
     (if \<not> tl_enabled l r then l
      else case tl_buffer l of
        Some buf \<Rightarrow> l\<lparr>tl_buffer := Some (buf @ [r])\<rparr>
      | None \<Rightarrow> l\<lparr>tl_printed := tl_printed l @ [r]\<rparr>)"

definition start_buffering :: "tui_logger option \<Rightarrow> tui_logger option" where
  "start_buffering logger =
     map_option (\<lambda>l. if tl_buffer l = None then l\<lparr>tl_buffer := Some []\<rparr> else l) logger"

definition stop_and_replay :: "tui_logger option \<Rightarrow> tui_logger option" where
  "stop_and_replay logger =
     map_option (\<lambda>l.
       let records = (case tl_buffer l of Some buf \<Rightarrow> buf | None \<Rightarrow> [])
       in fold tui_log records (l\<lparr>tl_buffer := None\<rparr>)) logger"

text \<open>\<open>init_logger\<close> sets the logger once; a later call changes nothing.\<close>

definition init_logger :: "(stored_record \<Rightarrow> bool) \<Rightarrow> tui_logger option \<Rightarrow> tui_logger option" where
  "init_logger enabled logger =
     (case logger of
        None \<Rightarrow> Some \<lparr>tl_enabled = enabled, tl_buffer = None, tl_printed = []\<rparr>
      | Some l \<Rightarrow> Some l)"

section \<open>The screens' sessions\<close>

text \<open>The terminal's modes and the global logger, and how the calls that change them end: an error
  of the set-up, and whether what undoes it works.\<close>

record console =
  cn_raw :: bool
  cn_alternate :: bool
  cn_logger :: "tui_logger option"

record terminal_calls =
  tc_raw_mode :: "string option"
  tc_alternate_screen :: "string option"
  tc_terminal :: "string option"
  tc_disables_raw :: bool
  tc_leaves_alternate :: bool

text \<open>\<open>logged\<close> are the records logged while the loop runs, \<open>result\<close> is what the loop returns,
  if it does.\<close>

definition on_screen ::
    "terminal_calls \<Rightarrow> stored_record list \<Rightarrow> 'a res option \<Rightarrow> console \<Rightarrow> ('a res \<times> console) option" where
  "on_screen T logged result c =
     (case tc_raw_mode T of
        Some e \<Rightarrow> Some (Err (WithContext ''enable raw mode'' (Message e)), c)
      | None \<Rightarrow>
          let c1 = c\<lparr>cn_raw := True\<rparr>
          in case tc_alternate_screen T of
            Some e \<Rightarrow> Some (Err (WithContext ''enter alternate screen'' (Message e)), c1)
          | None \<Rightarrow>
              let c2 = c1\<lparr>cn_alternate := True, cn_logger := start_buffering (cn_logger c1)\<rparr>
              in case tc_terminal T of
                Some e \<Rightarrow> Some (Err (WithContext ''create terminal'' (Message e)), c2)
              | None \<Rightarrow>
                  map_option (\<lambda>r. (r,
                    \<lparr>cn_raw = \<not> tc_disables_raw T, cn_alternate = \<not> tc_leaves_alternate T,
                     cn_logger = stop_and_replay (map_option (fold tui_log logged) (cn_logger c2))\<rparr>)) result)"

definition run_countdown ::
    "terminal_calls \<Rightarrow> (nat \<Rightarrow> string option) \<Rightarrow> (instant \<times> countdown_input) list \<Rightarrow> stored_record list \<Rightarrow>
     console \<Rightarrow> (bool res \<times> console) option" where
  "run_countdown T draw inputs logged c =
     on_screen T logged (countdown_loop draw 0 5 tui_new inputs) c"

definition run_transfer ::
    "terminal_calls \<Rightarrow> (nat \<Rightarrow> string option) \<Rightarrow> string list \<Rightarrow> (string, bool) hmap \<Rightarrow>
     (instant \<times> transfer_input) list \<Rightarrow> stored_record list \<Rightarrow> console \<Rightarrow> (unit res \<times> console) option" where
  "run_transfer T draw names tokens inputs logged c =
     on_screen T logged (fst (transfer_loop draw 0 (for_transfer_with_tokens names tokens) inputs)) c"

section \<open>Text\<close>

definition char_count :: "string \<Rightarrow> nat" where
  "char_count s = length (filter char_start s)"

text \<open>\<open>{:<width$}\<close> and \<open>{:>width$}\<close>.\<close>

definition pad_right :: "nat \<Rightarrow> string \<Rightarrow> string" where
  "pad_right width s = s @ replicate (width - char_count s) (CHR '' '')"

definition make_bar :: "u8 \<Rightarrow> nat \<Rightarrow> string" where
  "make_bar pct width =
     (let filled = min (unat pct * width div 100) width
      in concat (replicate filled [CHR 0xE2, CHR 0x96, CHR 0x88]) @
         concat (replicate (width - filled) [CHR 0xE2, CHR 0x96, CHR 0x91]))"

definition fmt_bytes :: "u64 \<Rightarrow> string" where
  "fmt_bytes bytes =
     (if 1000000000 \<le> bytes then fmt_fixed 1 (f64_div (f64_of_u64 bytes) (Fin 1000000000)) @ '' GB''
      else if 1000000 \<le> bytes then fmt_fixed 0 (f64_div (f64_of_u64 bytes) (Fin 1000000)) @ '' MB''
      else if 1000 \<le> bytes then fmt_fixed 0 (f64_div (f64_of_u64 bytes) (Fin 1000)) @ '' KB''
      else nat_str (unat bytes) @ '' B'')"

definition fmt_speed :: "f64 \<Rightarrow> string" where
  "fmt_speed bps =
     (if f64_ge bps (Fin 1000000) then fmt_fixed 1 (f64_div bps (Fin 1000000)) @ '' MB/s''
      else if f64_ge bps (Fin 1000) then fmt_fixed 0 (f64_div bps (Fin 1000)) @ '' KB/s''
      else fmt_fixed 0 bps @ '' B/s'')"

definition fmt_duration :: "f64 \<Rightarrow> string" where
  "fmt_duration secs =
     (let s = unat (f64_to_u64 (f64_max secs (Fin 0)))
      in if 60 \<le> s then nat_str (s div 60) @ ''m '' @ pad_left 2 (CHR ''0'') (nat_str (s mod 60)) @ ''s''
         else nat_str s @ ''s'')"

definition truncate_str :: "string \<Rightarrow> nat \<Rightarrow> string" where
  "truncate_str s max_chars =
     (case drop max_chars (filter (\<lambda>i. char_start (s ! i)) [0..<length s]) of
        idx # _ \<Rightarrow> take idx s
      | [] \<Rightarrow> s)"

text \<open>A styled piece of text, a line of them, and a screen: title, border and lines.\<close>

datatype colour = Red | Green | DarkGray | Reset

datatype text_modifier = Bold | Dim | Reversed

record text_style =
  ts_fg :: "colour option"
  ts_modifiers :: "text_modifier list"

definition plain :: text_style where
  "plain = \<lparr>ts_fg = None, ts_modifiers = []\<rparr>"

record text_line =
  ln_centered :: bool
  ln_spans :: "(string \<times> text_style) list"

definition left_line :: "(string \<times> text_style) list \<Rightarrow> text_line" where
  "left_line spans = \<lparr>ln_centered = False, ln_spans = spans\<rparr>"

definition centered_line :: "string \<Rightarrow> text_style \<Rightarrow> text_line" where
  "centered_line s style = \<lparr>ln_centered = True, ln_spans = [(s, style)]\<rparr>"

record screen =
  sn_title :: string
  sn_border :: "colour option"
  sn_lines :: "text_line list"

definition percent :: "u64 \<Rightarrow> u64 \<Rightarrow> u8" where
  "percent bytes_sent total_bytes =
     (if 0 < total_bytes then ucast (min (bytes_sent * 100 div total_bytes) 100) else 0)"

definition ellipsis :: string where
  "ellipsis = [CHR 0xE2, CHR 0x80, CHR 0xA6]"

definition render_remote_row :: "remote_row \<Rightarrow> nat \<Rightarrow> bool \<Rightarrow> text_line" where
  "render_remote_row row name_w focused =
     (let name_span = (pad_right name_w (rr_name row),
                       if focused then plain\<lparr>ts_modifiers := [Reversed]\<rparr> else plain)
      in left_line (name_span #
        (case rr_state row of
           Waiting \<Rightarrow> [(''  '', plain), (''waiting'' @ ellipsis, plain\<lparr>ts_fg := Some DarkGray\<rparr>)]
         | Active bytes_sent total_bytes speed_bps eta_secs \<Rightarrow>
             let pct = percent bytes_sent total_bytes
             in [(''  ['' @ make_bar pct 16 @ ''] '' @ pad_left 3 (CHR '' '') (nat_str (unat pct)) @ ''%  '' @
                  fmt_bytes bytes_sent @ '' / '' @ fmt_bytes total_bytes @ ''  '' @ fmt_speed speed_bps @ ''  '' @
                  (case eta_secs of None \<Rightarrow> ''ETA ?'' | Some s \<Rightarrow> ''ETA '' @ fmt_duration s), plain)]
         | Done bytes elapsed_s \<Rightarrow>
             [(''  '' @ [CHR 0xE2, CHR 0x9C, CHR 0x93] @ '' '' @ fmt_bytes bytes @ ''  '' @ fmt_duration elapsed_s,
               \<lparr>ts_fg = Some Green, ts_modifiers = [Bold]\<rparr>)]
         | Failed error \<Rightarrow>
             [(''  '' @ [CHR 0xE2, CHR 0x9C, CHR 0x97] @ '' '' @ truncate_str error 40,
               \<lparr>ts_fg = Some Red, ts_modifiers = [Reversed]\<rparr>)]
         | Skipped \<Rightarrow> [(''  skipped'', plain\<lparr>ts_modifiers := [Dim]\<rparr>)]
         | UpToDate \<Rightarrow> [(''  up to date'', plain\<lparr>ts_modifiers := [Dim]\<rparr>)])))"

definition any_bad :: "tui_app \<Rightarrow> bool" where
  "any_bad app \<longleftrightarrow> (\<exists>r \<in> set (ta_remotes app). is_failed (rr_state r) \<or> rr_state r = Skipped)"

definition summary_title :: "tui_app \<Rightarrow> string" where
  "summary_title app = (if any_bad app then '' Backup Finished '' else '' Backup Complete '')"

definition render_transfer :: "tui_app \<Rightarrow> screen" where
  "render_transfer app =
     (let is_summary = (ta_state app \<in> {Summary, Exiting});
          border = (if is_summary then if any_bad app then Red else Green else Reset);
          name_w = (if ta_remotes app = [] then 8 else Max (set (map (length \<circ> rr_name) (ta_remotes app))))
      in \<lparr>sn_title = (if is_summary then summary_title app else '' ZRB ZFS Backup ''),
          sn_border = Some border,
          sn_lines = [left_line []] @
            map (\<lambda>(i, row). render_remote_row row name_w (i = ta_focused app \<and> ta_state app = Transferring))
              (enumerate 0 (ta_remotes app)) @
            [left_line []] @
            (case ta_state app of
               Transferring \<Rightarrow> [centered_line ''[S] Skip remote   [Q] Quit'' (plain\<lparr>ts_fg := Some DarkGray\<rparr>)]
             | Summary \<Rightarrow> [centered_line (''Closing in '' @ nat_str (unat (ta_summary_countdown app)) @ ''s '' @
                 [CHR 0xE2, CHR 0x80, CHR 0x94] @ '' press any key to dismiss'') (plain\<lparr>ts_fg := Some DarkGray\<rparr>)]
             | Exiting \<Rightarrow> [centered_line (''Closing'' @ ellipsis) (plain\<lparr>ts_fg := Some DarkGray\<rparr>)]
             | _ \<Rightarrow> [])\<rparr>)"

text \<open>The countdown screen: its lines, and the box they are shown in.\<close>

fun join_with :: "string \<Rightarrow> string list \<Rightarrow> string" where
  "join_with sep [] = []"
| "join_with sep [s] = s"
| "join_with sep (s # ss) = s @ sep @ join_with sep ss"

definition render_countdown :: "tui_app \<Rightarrow> (string \<times> string list) list \<Rightarrow> screen" where
  "render_countdown app datasets =
     \<lparr>sn_title = '' ZRB ZFS Backup '', sn_border = None,
      sn_lines = [left_line []] @
        map (\<lambda>(dataset, remotes). left_line [(''  '' @ dataset @ ''  '' @ [CHR 0xE2, CHR 0x86, CHR 0x92] @ ''  '' @
            (if remotes = [] then ''(no remotes)'' else join_with '', '' remotes), plain)]) datasets @
        [left_line []] @
        (case ta_state app of
           Countdown remaining \<Rightarrow>
             [centered_line (''  Starting in '' @ nat_str (unat remaining) @ ''s'' @ ellipsis)
                (plain\<lparr>ts_modifiers := [Bold]\<rparr>),
              left_line [], centered_line ''  Press any key to cancel'' plain]
         | Aborted \<Rightarrow> [centered_line ''  Backup skipped.'' (plain\<lparr>ts_modifiers := [Bold]\<rparr>)]
         | _ \<Rightarrow> [])\<rparr>"

type_synonym u16 = "16 word"

record rect =
  rx :: u16
  ry :: u16
  rw :: u16
  rh :: u16

definition centered_box :: "rect \<Rightarrow> u16 \<Rightarrow> u16 \<Rightarrow> rect" where
  "centered_box area desired_w desired_h =
     (let w = min desired_w (sat_sub (rw area) 2);
          h = min desired_h (sat_sub (rh area) 2)
      in \<lparr>rx = rx area + sat_sub (rw area) w div 2, ry = ry area + sat_sub (rh area) h div 2,
          rw = w, rh = h\<rparr>)"

definition dataset_box_height :: "(string \<times> string list) list \<Rightarrow> u16" where
  "dataset_box_height datasets =
     (let n = length datasets; rows = (if n \<le> 65535 then word_of_nat n else - 1)
      in 2 + 1 + rows + 1 + 1 + 1 + 1)"

section \<open>Rows and tokens\<close>

lemma update_row_names [simp]:
  "(\<And>r. rr_name (f r) = rr_name r) \<Longrightarrow> map rr_name (update_row name f rs) = map rr_name rs"
  by (induction rs) auto

lemma length_update_row [simp]: "length (update_row name f rs) = length rs"
  by (induction rs) auto

lemma progress_row_name [simp]: "rr_name (progress_row now b r) = rr_name r"
  by (simp add: progress_row_def Let_def split: prod.split)

lemma cancel_token_names [simp]: "map fst (cancel_token name tokens) = map fst tokens"
  by (simp add: cancel_token_def comp_def case_prod_beta)

lemma skip_all_active_sel [simp]:
  "ta_state (skip_all_active app) = ta_state app" "ta_focused (skip_all_active app) = ta_focused app"
  "ta_summary_countdown (skip_all_active app) = ta_summary_countdown app"
  "ta_tokens (skip_all_active app) = ta_tokens app"
  "map rr_name (ta_remotes (skip_all_active app)) = map rr_name (ta_remotes app)"
  "length (ta_remotes (skip_all_active app)) = length (ta_remotes app)"
  by (simp_all add: skip_all_active_def comp_def)

text \<open>What a key or an event may change, component by component.\<close>

lemma handle_send_event_names [simp]:
  "map rr_name (ta_remotes (handle_send_event now e app)) = map rr_name (ta_remotes app)"
  by (cases e) (auto simp: on_row_def Let_def split: tui_state.splits)

lemma handle_send_event_keeps [simp]:
  "ta_focused (handle_send_event now e app) = ta_focused app"
  "ta_tokens (handle_send_event now e app) = ta_tokens app"
  by (cases e; auto simp: on_row_def Let_def split: tui_state.splits)+

lemma handle_key_names [simp]:
  "map rr_name (ta_remotes (handle_key key app)) = map rr_name (ta_remotes app)"
  by (auto simp: handle_key_def Let_def map_update list_update_same_conv
      split: tui_state.splits tui_key.splits)

section \<open>The machine as a step relation\<close>

inductive tui_step :: "tui_app \<Rightarrow> tui_app \<Rightarrow> bool" where
  event: "tui_step app (handle_send_event now e app)"
| key: "tui_step app (handle_key k app)"

inductive tui_reach :: "tui_app \<Rightarrow> tui_app \<Rightarrow> bool" where
  start: "tui_reach app app"
| more: "tui_reach app app' \<Longrightarrow> tui_step app' app'' \<Longrightarrow> tui_reach app app''"

inductive_cases tui_stepE: "tui_step app app'"

inductive_simps tui_step_iff: "tui_step app app'"

lemma tui_reach_trans: "tui_reach b c \<Longrightarrow> tui_reach a b \<Longrightarrow> tui_reach a c"
  by (induction rule: tui_reach.induct) (auto intro: tui_reach.intros)

text \<open>A property that every step keeps holds of all reachable states.\<close>

lemma tui_invariantI:
  assumes "tui_reach app app'" "P app" "\<And>a a'. P a \<Longrightarrow> tui_step a a' \<Longrightarrow> P a'"
  shows "P app'"
  using assms by induction auto

text \<open>How far the session is: the phases never go back.\<close>

fun phase :: "tui_state \<Rightarrow> nat" where
  "phase (Countdown n) = 0"
| "phase Transferring = 1"
| "phase Summary = 2"
| "phase Exiting = 3"
| "phase Aborted = 4"

definition follows :: "tui_state \<Rightarrow> tui_state \<Rightarrow> bool" where
  "follows st st' \<longleftrightarrow> (case st of
     Countdown _ \<Rightarrow> (\<exists>n. st' = Countdown n) \<or> st' \<in> {Transferring, Aborted}
   | Transferring \<Rightarrow> st' \<in> {Transferring, Summary}
   | Summary \<Rightarrow> st' \<in> {Summary, Exiting}
   | Exiting \<Rightarrow> st' = Exiting
   | Aborted \<Rightarrow> st' = Aborted)"

lemma tui_step_follows: "tui_step app app' \<Longrightarrow> follows (ta_state app) (ta_state app')"
proof (elim tui_stepE)
  fix now e assume "app' = handle_send_event now e app"
  then show ?thesis
    by (cases e) (auto simp: follows_def on_row_def Let_def split: tui_state.splits)
next
  fix k assume "app' = handle_key k app"
  then show ?thesis
    by (auto simp: follows_def handle_key_def Let_def split: tui_state.splits tui_key.splits)
qed

definition tui_inv :: "string list \<Rightarrow> string list \<Rightarrow> tui_app \<Rightarrow> bool" where
  "tui_inv names toks app \<longleftrightarrow>
     map rr_name (ta_remotes app) = names \<and> map fst (ta_tokens app) = toks \<and>
     ta_focused app \<le> length names - 1 \<and> unat (ta_summary_countdown app) \<le> 30"

lemma sat_sub_le: "unat (sat_sub a b) \<le> unat a"
  by (simp add: sat_sub_def unat_sub)

lemma tui_inv_step:
  assumes inv: "tui_inv names toks app" and step: "tui_step app app'"
  shows "tui_inv names toks app'"
  using step
proof (elim tui_stepE)
  fix now e assume app': "app' = handle_send_event now e app"
  have "unat (ta_summary_countdown app') \<le> 30"
    using inv sat_sub_le [of "ta_summary_countdown app" 1] unfolding app'
    by (cases e) (auto simp: tui_inv_def on_row_def Let_def SUMMARY_TIMEOUT_OK_SECS_def
        SUMMARY_TIMEOUT_FAIL_SECS_def split: tui_state.splits)
  with inv show ?thesis by (simp add: tui_inv_def app')
next
  fix k assume app': "app' = handle_key k app"
  have len: "length (ta_remotes app) = length names"
    using inv by (metis tui_inv_def length_map)
  have "ta_focused app' \<le> length names - 1 \<and> unat (ta_summary_countdown app') \<le> 30 \<and>
      map fst (ta_tokens app') = map fst (ta_tokens app)"
    using inv len unfolding app'
    by (auto simp: tui_inv_def handle_key_def Let_def comp_def case_prod_beta
        split: tui_state.splits tui_key.splits)
  with inv show ?thesis by (simp add: tui_inv_def app')
qed

section \<open>Properties of the session\<close>

text \<open>What holds in every state of a transfer session.\<close>

definition countdown_ok :: "tui_app \<Rightarrow> bool" where
  "countdown_ok app \<longleftrightarrow>
     (case ta_state app of
        Transferring \<Rightarrow> ta_summary_countdown app = 10
      | Summary \<Rightarrow> ta_summary_countdown app \<noteq> 0
      | Exiting \<Rightarrow> True
      | _ \<Rightarrow> False)"

definition session_inv :: "string list \<Rightarrow> string list \<Rightarrow> tui_app \<Rightarrow> bool" where
  "session_inv names toks app \<longleftrightarrow> tui_inv names toks app \<and> countdown_ok app"

lemma session_start: "session_inv names (map fst tokens) (for_transfer_with_tokens names tokens)"
  by (simp add: session_inv_def countdown_ok_def tui_inv_def for_transfer_with_tokens_def new_row_def comp_def
      SUMMARY_TIMEOUT_OK_SECS_def)

lemma countdown_ok_event: "countdown_ok app \<Longrightarrow> countdown_ok (handle_send_event now e app)"
  by (cases "ta_state app"; cases e; simp add: countdown_ok_def on_row_def Let_def
      SUMMARY_TIMEOUT_OK_SECS_def SUMMARY_TIMEOUT_FAIL_SECS_def)

lemma countdown_ok_key: "countdown_ok app \<Longrightarrow> countdown_ok (handle_key k app)"
  by (cases "ta_state app"; cases k; simp add: countdown_ok_def handle_key_def Let_def)

lemma session_inv_step:
  assumes "session_inv names toks app" and "tui_step app app'"
  shows "session_inv names toks app'"
proof -
  have "countdown_ok app'"
    using assms countdown_ok_event countdown_ok_key by (auto simp: session_inv_def tui_step_iff)
  moreover have "tui_inv names toks app'"
    using assms unfolding session_inv_def by (blast intro: tui_inv_step)
  ultimately show ?thesis by (simp add: session_inv_def)
qed

text \<open>Cancelled tokens stay cancelled.\<close>

definition cancelled :: "string \<Rightarrow> tui_app \<Rightarrow> bool" where
  "cancelled name app \<longleftrightarrow> (name, True) \<in> set (ta_tokens app)"

lemma tui_step_cancelled:
  assumes "cancelled name app" and step: "tui_step app app'"
  shows "cancelled name app'"
  using step
proof (elim tui_stepE)
  fix now e assume "app' = handle_send_event now e app"
  with assms(1) show ?thesis by (simp add: cancelled_def)
next
  fix k assume "app' = handle_key k app"
  then have "ta_tokens app' \<in> {ta_tokens app, map (\<lambda>(n, b). (n, True)) (ta_tokens app)} \<union>
      range (\<lambda>n. cancel_token n (ta_tokens app))"
    by (auto simp: handle_key_def Let_def split: tui_state.splits tui_key.splits)
  with assms(1) show ?thesis
    by (force simp: cancelled_def cancel_token_def image_iff)
qed

text \<open>
  C24. A transfer session is well formed at all times: whatever events and keys arrive, its rows
  and tokens are those it started with, the focus is on a row, the countdown of the summary is
  positive while the summary is shown and at most 30, the session never returns to the
  countdown screen, and a transfer that was cancelled stays cancelled.
\<close>

theorem tui_session_invariant:
  assumes "tui_reach (for_transfer_with_tokens names tokens) app"
  shows "map rr_name (ta_remotes app) = names \<and> map fst (ta_tokens app) = map fst tokens \<and>
    (names \<noteq> [] \<longrightarrow> ta_focused app < length names) \<and>
    unat (ta_summary_countdown app) \<le> 30 \<and>
    (ta_state app = Summary \<longrightarrow> 0 < ta_summary_countdown app) \<and>
    ta_state app \<in> {Transferring, Summary, Exiting} \<and>
    (\<forall>name. (name, True) \<in> set tokens \<longrightarrow> (name, True) \<in> set (ta_tokens app))"
proof -
  have inv: "session_inv names (map fst tokens) app"
    by (rule tui_invariantI [where P = "session_inv names (map fst tokens)", OF assms session_start session_inv_step])
  have "cancelled name app" if "(name, True) \<in> set tokens" for name
    using assms
    by (rule tui_invariantI [where P = "cancelled name"])
      (use that tui_step_cancelled in \<open>auto simp: cancelled_def for_transfer_with_tokens_def\<close>)
  with inv show ?thesis
    by (auto simp: session_inv_def countdown_ok_def tui_inv_def cancelled_def neq_Nil_conv word_gt_0
        split: tui_state.splits)
qed

lemma tui_session_invariant_witness:
  "ta_focused (handle_key KDown (for_transfer [''a'', ''b''])) < 2"
proof -
  have "tui_reach (for_transfer_with_tokens [''a'', ''b''] (build_cancel_map [''a'', ''b'']))
      (handle_key KDown (for_transfer [''a'', ''b'']))"
    unfolding for_transfer_def by (rule tui_reach.more [OF tui_reach.start tui_step.key])
  from tui_session_invariant [OF this]
  have "[''a'', ''b''] \<noteq> [] \<longrightarrow>
      ta_focused (handle_key KDown (for_transfer [''a'', ''b''])) < length [''a'', ''b'']"
    by (elim conjE)
  then show ?thesis by simp
qed

section \<open>The end of a session\<close>

text \<open>Every input is an event, a key or nothing.\<close>

lemma transfer_step_cases: "transfer_step now input app = app \<or> tui_step app (transfer_step now input app)"
  by (cases input)
    (auto simp: transfer_step_def tui_step_iff simp del: handle_send_event.simps split: option.split)

lemma transfer_step_reach: "tui_reach app (transfer_step now input app)"
  using transfer_step_cases by (metis tui_reach.intros)

text \<open>The loop when drawing never fails.\<close>

abbreviation undisturbed :: "nat \<Rightarrow> string option" where
  "undisturbed \<equiv> (\<lambda>k. None)"

lemma transfer_loop_undisturbed:
  "transfer_loop undisturbed k app ((now, input) # inputs) =
     (let app' = transfer_step now input app
      in if ta_state app' = Exiting then (Some (Ok ()), app') else transfer_loop undisturbed 0 app' inputs)"
proof -
  have any: "transfer_loop undisturbed k app inputs = transfer_loop undisturbed j app inputs" for j k app inputs
    by (induction inputs arbitrary: j k app) (auto simp: Let_def)
  show ?thesis
    using any by (auto simp: Let_def)
qed

lemma transfer_loop_reach:
  "transfer_loop undisturbed k app inputs = (r, app') \<Longrightarrow>
   tui_reach app app' \<and> (r = None \<or> r = Some (Ok ()))"
proof (induction inputs arbitrary: k app)
  case (Cons x inputs)
  obtain now input where x: "x = (now, input)" by fastforce
  have run: "(if ta_state (transfer_step now input app) = Exiting
      then (Some (Ok ()), transfer_step now input app)
      else transfer_loop undisturbed 0 (transfer_step now input app) inputs) = (r, app')"
    using Cons.prems unfolding x transfer_loop_undisturbed Let_def .
  show ?case
  proof (cases "ta_state (transfer_step now input app) = Exiting")
    case True
    with run transfer_step_reach [of app now input] show ?thesis by auto
  next
    case False
    with run Cons.IH tui_reach_trans transfer_step_reach show ?thesis by (metis (full_types))
  qed
qed (auto intro: tui_reach.start)

text \<open>How many seconds the summary can still be shown.\<close>

fun seconds_left :: "tui_app \<Rightarrow> nat" where
  "seconds_left app = (case ta_state app of Summary \<Rightarrow> unat (ta_summary_countdown app) | _ \<Rightarrow> 0)"

definition closing :: "tui_app \<Rightarrow> bool" where
  "closing app \<longleftrightarrow> ta_state app \<in> {Summary, Exiting}"

lemma closing_step: "closing app \<Longrightarrow> closing (transfer_step now input app)"
  using transfer_step_cases [of now input app] tui_step_follows [of app "transfer_step now input app"]
  by (auto simp: closing_def follows_def)

lemma countdown_ok_transfer: "countdown_ok app \<Longrightarrow> countdown_ok (transfer_step now input app)"
  using transfer_step_cases [of now input app] countdown_ok_event countdown_ok_key
  by (metis tui_step_iff)

lemma summary_step_seconds:
  assumes "ta_state app = Summary" and "ta_state (transfer_step now input app) \<noteq> Exiting"
  shows "seconds_left (transfer_step now input app) + (if input = SummaryInterval then 1 else 0) \<le> seconds_left app"
proof (cases input)
  case (TermKey code)
  with assms show ?thesis by (simp add: transfer_step_def handle_key_def)
next
  case (Channel ev)
  with assms show ?thesis
    by (cases "case ev of Some e \<Rightarrow> e | None \<Rightarrow> AllDone")
      (auto simp: transfer_step_def on_row_def Let_def sat_sub_le split: if_splits)
next
  case SummaryInterval
  with assms show ?thesis
    by (auto simp: transfer_step_def Let_def sat_sub_def unat_sub word_le_nat_alt split: if_splits)
qed (use assms in \<open>simp_all add: transfer_step_def\<close>)

definition intervals :: "(instant \<times> transfer_input) list \<Rightarrow> nat" where
  "intervals inputs = length (filter (\<lambda>x. snd x = SummaryInterval) inputs)"

lemma summary_closes:
  assumes "ta_state app = Summary" and "countdown_ok app" and "seconds_left app \<le> intervals inputs"
  shows "fst (transfer_loop undisturbed k app inputs) = Some (Ok ())"
  using assms
proof (induction inputs arbitrary: k app)
  case Nil
  then show ?case by (simp add: intervals_def countdown_ok_def unat_eq_zero)
next
  case (Cons x inputs)
  obtain now input where x: "x = (now, input)" by fastforce
  let ?app = "transfer_step now input app"
  show ?case
  proof (cases "ta_state ?app = Exiting")
    case True
    then show ?thesis unfolding x transfer_loop_undisturbed by simp
  next
    case False
    have st: "ta_state ?app = Summary"
      using closing_step [of app now input] Cons.prems(1) False by (auto simp: closing_def)
    have "seconds_left ?app \<le> intervals inputs"
      using summary_step_seconds [OF Cons.prems(1) False] Cons.prems(3) x
      by (auto simp: intervals_def split: if_splits)
    from Cons.IH [OF st countdown_ok_transfer [OF Cons.prems(2)] this] False show ?thesis
      unfolding x transfer_loop_undisturbed by simp
  qed
qed

lemma transfer_loop_append:
  "transfer_loop undisturbed k app (pre @ rest) =
     (case transfer_loop undisturbed k app pre of
        (None, app') \<Rightarrow> transfer_loop undisturbed 0 app' rest
      | (Some r, app') \<Rightarrow> (Some r, app'))"
proof (induction pre arbitrary: k app)
  case Nil
  have "transfer_loop undisturbed k app rest = transfer_loop undisturbed 0 app rest"
    by (cases rest) (auto simp: transfer_loop_undisturbed simp del: transfer_loop.simps(2))
  then show ?case by simp
next
  case (Cons x pre)
  obtain now input where x: "x = (now, input)" by fastforce
  show ?case
    using Cons.IH unfolding x append_Cons transfer_loop_undisturbed by (simp add: Let_def)
qed

text \<open>
  C25. The transfer screen closes by itself, in time: once the transfers are over (the last event
  says so, or the channel is closed), whatever was shown and pressed before, at most 30 ticks of
  the summary's clock end the loop without an error.
\<close>

theorem transfer_loop_closes:
  assumes "inputs = pre @ (now, Channel ev) # post" and "ev = None \<or> ev = Some AllDone"
    and "30 \<le> intervals post"
  shows "fst (transfer_loop undisturbed 0 (for_transfer_with_tokens names tokens) inputs) = Some (Ok ())"
proof -
  let ?start = "for_transfer_with_tokens names tokens"
  obtain r app where run: "transfer_loop undisturbed 0 ?start pre = (r, app)" by fastforce
  note reach = transfer_loop_reach [OF run]
  show ?thesis
  proof (cases r)
    case (Some x)
    with run reach assms(1) show ?thesis by (simp add: transfer_loop_append)
  next
    case None
    let ?next = "transfer_step now (Channel ev) app"
    have "session_inv names (map fst tokens) app"
      using conjunct1 [OF reach]
      by (rule tui_invariantI [where P = "session_inv names (map fst tokens)"])
        (use session_start session_inv_step in auto)
    then have "countdown_ok app" by (simp add: session_inv_def)
    moreover from \<open>session_inv names (map fst tokens) app\<close>
    have "session_inv names (map fst tokens) ?next"
      using transfer_step_cases [of now "Channel ev" app] session_inv_step by metis
    then have inv: "countdown_ok ?next" "unat (ta_summary_countdown ?next) \<le> 30"
      by (simp_all add: session_inv_def tui_inv_def)
    ultimately have "closing ?next"
      using assms(2) by (auto simp: closing_def countdown_ok_def transfer_step_def split: tui_state.splits)
    then have "fst (transfer_loop undisturbed 0 app ((now, Channel ev) # post)) = Some (Ok ())"
      using summary_closes [of ?next post 0] inv assms(3)
      by (auto simp: transfer_loop_undisturbed closing_def simp del: transfer_loop.simps(2))
    with run None assms(1) show ?thesis by (simp add: transfer_loop_append del: transfer_loop.simps(2))
  qed
qed

lemma transfer_loop_closes_witness:
  "fst (transfer_loop undisturbed 0 (for_transfer_with_tokens [''a''] [(''a'', False)])
     ((0, Channel (Some (RemoteStarted ''a'' 10))) # (1, Channel None) # replicate 30 (2, SummaryInterval))) =
   Some (Ok ())"
  using transfer_loop_closes [of _ "[(0, Channel (Some (RemoteStarted ''a'' 10)))]" 1 None
      "replicate 30 (2, SummaryInterval)" "[''a'']" "[(''a'', False)]"]
  by (simp add: intervals_def del: transfer_loop.simps(2))

text \<open>
  C29. Quitting stops everything: while transfers run, the quit key cancels every token, turns
  every row that is waiting or active into a skipped one, leaves the others as they are and
  shows the summary; and whatever happens afterwards, all tokens stay cancelled.
\<close>

theorem quit_cancels_all:
  assumes "ta_state app = Transferring" and "tui_reach (handle_key KQuit app) app'"
  shows "ta_state (handle_key KQuit app) = Summary \<and>
    map rr_state (ta_remotes (handle_key KQuit app)) =
      map (\<lambda>r. if is_pending (rr_state r) then Skipped else rr_state r) (ta_remotes app) \<and>
    map fst (ta_tokens app') = map fst (ta_tokens app) \<and> list_all snd (ta_tokens app')"
proof -
  let ?P = "\<lambda>a. map fst (ta_tokens a) = map fst (ta_tokens app) \<and> list_all snd (ta_tokens a)"
  have "?P a \<Longrightarrow> tui_step a a' \<Longrightarrow> ?P a'" for a a'
  proof (elim tui_stepE)
    fix k assume "?P a" and a': "a' = handle_key k a"
    have "ta_tokens a' \<in> {ta_tokens a, map (\<lambda>(n, b). (n, True)) (ta_tokens a)} \<union>
        range (\<lambda>n. cancel_token n (ta_tokens a))"
      unfolding a' by (auto simp: handle_key_def Let_def split: tui_state.splits tui_key.splits)
    with \<open>?P a\<close> show "?P a'"
      by (auto simp: cancel_token_def comp_def case_prod_beta list_all_iff)
  qed simp
  moreover have "?P (handle_key KQuit app)"
    using assms(1) by (simp add: handle_key_def comp_def case_prod_beta list_all_iff)
  ultimately have "?P app'"
    using tui_invariantI [OF assms(2), of ?P] by blast
  then show ?thesis
    using assms(1) by (simp add: handle_key_def skip_all_active_def)
qed

lemma quit_cancels_all_witness:
  "list_all snd (ta_tokens (handle_key KQuit (for_transfer [''a'', ''b''])))"
  using quit_cancels_all [OF _ tui_reach.start, of "for_transfer [''a'', ''b'']"]
  by (simp add: for_transfer_def for_transfer_with_tokens_def)

section \<open>The countdown\<close>

text \<open>What the countdown should do: run for five ticks unless a key comes first.\<close>

definition countdown_verdict :: "nat \<Rightarrow> (instant \<times> countdown_input) list \<Rightarrow> bool res option" where
  "countdown_verdict n inputs =
     (let quiet = takeWhile (\<lambda>x. snd x \<noteq> KeyPress) inputs
      in if n \<le> length (filter (\<lambda>x. snd x = SecondTick) quiet) then Some (Ok True)
         else if length quiet < length inputs then Some (Ok False) else None)"

lemma countdown_loop_verdict:
  assumes "ta_state app = Countdown m" and "n \<noteq> 0"
  shows "countdown_loop undisturbed k n app inputs = countdown_verdict (unat n) inputs"
  using assms
proof (induction inputs arbitrary: k n m app)
  case Nil
  then show ?case by (simp add: countdown_loop.simps countdown_verdict_def unat_eq_zero)
next
  case (Cons x inputs)
  obtain now input where x: "x = (now, input)" by fastforce
  have n: "0 < unat n" using Cons.prems(2) unat_gt_0 by blast
  show ?case
  proof (cases input)
    case SecondTick
    let ?app = "handle_send_event now (CountdownTick (n - 1)) app"
    have 1: "1 \<le> n" using n by (simp add: word_le_nat_alt)
    then have n1: "unat (n - 1) = unat n - 1" by (simp add: unat_sub)
    show ?thesis
    proof (cases "n - 1 = 0")
      case True
      with 1 n1 n Cons.prems SecondTick x show ?thesis
        by (simp add: countdown_loop.simps [of _ k] countdown_verdict_def sat_sub_def Let_def)
    next
      case False
      then have "ta_state ?app = Countdown (n - 1)" using Cons.prems by simp
      from Cons.IH [OF this False, of "Suc k"] False 1 n1 n Cons.prems SecondTick x show ?thesis
        by (auto simp: countdown_loop.simps [of _ k] countdown_verdict_def sat_sub_def Let_def)
    qed
  next
    case KeyPress
    with Cons.prems n x show ?thesis
      by (simp add: countdown_loop.simps [of _ k] countdown_verdict_def Let_def handle_key_def)
  next
    case OtherInput
    with Cons.IH [OF Cons.prems, of "Suc k"] Cons.prems n x show ?thesis
      by (auto simp: countdown_loop.simps [of _ k] countdown_verdict_def Let_def)
  qed
qed

text \<open>
  C30. The countdown keeps its promise: it lets the transfer proceed exactly after five ticks
  without a key press, it reports a skipped backup exactly when a key came before the fifth
  tick, and until then it waits; resizing, mouse and other events change nothing. Drawing
  is assumed to work.
\<close>

theorem countdown_correct:
  "countdown_loop undisturbed 0 5 tui_new inputs = countdown_verdict 5 inputs"
  using countdown_loop_verdict [of tui_new 5 5 0 inputs] by (simp add: tui_new_def)

section \<open>The log\<close>

lemma fold_tui_log_buffering:
  "tl_buffer l = Some buf \<Longrightarrow>
   fold tui_log rs l = l\<lparr>tl_buffer := Some (buf @ filter (tl_enabled l) rs)\<rparr>"
  by (induction rs arbitrary: l buf) (simp_all add: tui_log_def)

lemma fold_tui_log_printing:
  "tl_buffer l = None \<Longrightarrow>
   fold tui_log rs l = l\<lparr>tl_printed := tl_printed l @ filter (tl_enabled l) rs\<rparr>"
  by (induction rs arbitrary: l) (simp_all add: tui_log_def)

lemma fold_tui_log_option:
  "map_option (fold tui_log rs) (Some l) = Some (fold tui_log rs l)"
  by simp

text \<open>
  C31. No log record is lost and the terminal is restored: when the screen can be set up and
  undone, a run of the countdown or of the transfer screen, however its loop ends, leaves the raw mode and the
  alternate screen, and the records that were logged meanwhile have been printed, in order,
  exactly as they would have been without the screen.
\<close>

theorem screen_restored:
  assumes "tc_raw_mode T = None" and "tc_alternate_screen T = None" and "tc_terminal T = None"
    and "tc_disables_raw T" and "tc_leaves_alternate T"
    and "tl_buffer l = None"
    and "run_transfer T draw names tokens inputs logged
           \<lparr>cn_raw = False, cn_alternate = False, cn_logger = Some l\<rparr> = Some (r, c)"
  shows "fst (transfer_loop draw 0 (for_transfer_with_tokens names tokens) inputs) = Some r \<and>
    c = \<lparr>cn_raw = False, cn_alternate = False, cn_logger = Some (fold tui_log logged l)\<rparr>"
  using assms
  by (auto simp: run_transfer_def on_screen_def Let_def start_buffering_def stop_and_replay_def
      fold_tui_log_printing fold_tui_log_buffering [of _ "[]"])

definition all_calls_work :: terminal_calls where
  "all_calls_work = \<lparr>tc_raw_mode = None, tc_alternate_screen = None, tc_terminal = None,
     tc_disables_raw = True, tc_leaves_alternate = True\<rparr>"

lemma screen_restored_witness:
  "run_transfer all_calls_work undisturbed [''a''] [(''a'', False)]
       [(0, TermKey (KeyChar (CHR ''q''))), (1, TermKey KeyOther)]
       [\<lparr>sr_level = 2, sr_target = ''zrb'', sr_args = ''send a: cancelled''\<rparr>]
       \<lparr>cn_raw = False, cn_alternate = False, cn_logger = init_logger (\<lambda>r. True) None\<rparr> =
     Some (Ok (), \<lparr>cn_raw = False, cn_alternate = False, cn_logger = Some
       \<lparr>tl_enabled = (\<lambda>r. True), tl_buffer = None,
        tl_printed = [\<lparr>sr_level = 2, sr_target = ''zrb'', sr_args = ''send a: cancelled''\<rparr>]\<rparr>\<rparr>)"
proof -
  define run where "run = run_transfer all_calls_work undisturbed [''a''] [(''a'', False)]
       [(0, TermKey (KeyChar (CHR ''q''))), (1, TermKey KeyOther)]
       [\<lparr>sr_level = 2, sr_target = ''zrb'', sr_args = ''send a: cancelled''\<rparr>]
       \<lparr>cn_raw = False, cn_alternate = False, cn_logger = init_logger (\<lambda>r. True) None\<rparr>"
  have "run \<noteq> None"
    by (simp add: run_def run_transfer_def on_screen_def all_calls_work_def Let_def transfer_step_def
        tui_key_of_def handle_key_def for_transfer_with_tokens_def new_row_def skip_all_active_def
        is_pending_def)
  then obtain r c where run: "run = Some (r, c)" by fastforce
  have "fst (transfer_loop undisturbed 0 (for_transfer_with_tokens [''a''] [(''a'', False)])
      [(0, TermKey (KeyChar (CHR ''q''))), (1, TermKey KeyOther)]) = Some (Ok ())"
    by (simp add: transfer_step_def tui_key_of_def handle_key_def for_transfer_with_tokens_def
        new_row_def skip_all_active_def is_pending_def Let_def)
  then show ?thesis
    using screen_restored [OF _ _ _ _ _ _ run [unfolded run_def init_logger_def option.case]] run
    by (simp add: run_def all_calls_work_def init_logger_def tui_log_def)
qed

text \<open>
  When the terminal cannot be created, the screen is left half set up: the raw mode and the
  alternate screen stay on, and no record that is logged from then on is ever printed.
\<close>

theorem terminal_failure_loses_log:
  assumes "tc_raw_mode T = None" and "tc_alternate_screen T = None" and "tc_terminal T = Some e"
  shows "\<exists>l'. run_countdown T draw inputs logged \<lparr>cn_raw = False, cn_alternate = False, cn_logger = Some l\<rparr> =
      Some (Err (WithContext ''create terminal'' (Message e)),
            \<lparr>cn_raw = True, cn_alternate = True, cn_logger = Some l'\<rparr>) \<and>
    tl_printed (fold tui_log later l') = tl_printed l"
proof -
  let ?l = "if tl_buffer l = None then l\<lparr>tl_buffer := Some []\<rparr> else l"
  obtain buf where buf: "tl_buffer ?l = Some buf" by (cases "tl_buffer l") auto
  have "tl_printed (fold tui_log later ?l) = tl_printed l"
    unfolding fold_tui_log_buffering [OF buf] by simp
  with assms show ?thesis
    by (intro exI [of _ ?l])
      (simp add: run_countdown_def on_screen_def start_buffering_def Let_def)
qed

lemma terminal_failure_loses_log_witness:
  "\<exists>l'. run_countdown (all_calls_work\<lparr>tc_terminal := Some ''no tty''\<rparr>) undisturbed [] []
      \<lparr>cn_raw = False, cn_alternate = False, cn_logger = Some \<lparr>tl_enabled = (\<lambda>r. True), tl_buffer = None, tl_printed = []\<rparr>\<rparr> =
      Some (Err (WithContext ''create terminal'' (Message ''no tty'')),
            \<lparr>cn_raw = True, cn_alternate = True, cn_logger = Some l'\<rparr>) \<and>
    tl_printed (fold tui_log [\<lparr>sr_level = 1, sr_target = ''zrb'', sr_args = ''fatal''\<rparr>] l') = []"
  using terminal_failure_loses_log [of "all_calls_work\<lparr>tc_terminal := Some ''no tty''\<rparr>" "''no tty''" undisturbed
      "[]" "[]" "\<lparr>tl_enabled = (\<lambda>r. True), tl_buffer = None, tl_printed = []\<rparr>"
      "[\<lparr>sr_level = 1, sr_target = ''zrb'', sr_args = ''fatal''\<rparr>]"]
  by (simp add: all_calls_work_def)

section \<open>Truncation\<close>

definition char_starts :: "string \<Rightarrow> nat list" where
  "char_starts s = filter (\<lambda>i. char_start (s ! i)) [0..<length s]"

lemma char_count_take:
  "m \<le> length s \<Longrightarrow> char_count (take m s) = length (filter (\<lambda>i. char_start (s ! i)) [0..<m])"
proof -
  assume "m \<le> length s"
  then have "take m s = map ((!) s) [0..<m]"
    by (intro nth_equalityI) simp_all
  then show ?thesis by (simp add: char_count_def comp_def filter_map)
qed

lemma char_count_starts: "char_count s = length (char_starts s)"
  using char_count_take [of "length s" s] by (simp add: char_starts_def)

text \<open>The characters before the start of the \<open>n\<close>-th one are \<open>n\<close>.\<close>

lemma char_starts_before:
  assumes "n < length (char_starts s)" and "idx = char_starts s ! n"
  shows "idx < length s \<and> char_start (s ! idx) \<and> char_count (take idx s) = n"
proof -
  let ?P = "\<lambda>i. char_start (s ! i)"
  have "idx \<in> set (char_starts s)" using assms by simp
  then have idx: "idx < length s" "?P idx" by (simp_all add: char_starts_def)
  have "[0..<length s] = [0..<idx] @ idx # [Suc idx..<length s]"
    using idx(1) upt_add_eq_append [of 0 idx "length s - idx"] by (simp add: upt_conv_Cons)
  then have split: "char_starts s = filter ?P [0..<idx] @ idx # filter ?P [Suc idx..<length s]"
    using idx(2) by (simp add: char_starts_def)
  have "char_starts s ! length (filter ?P [0..<idx]) = idx"
    unfolding split by simp
  moreover have "distinct (char_starts s)" by (simp add: char_starts_def)
  moreover have "length (filter ?P [0..<idx]) < length (char_starts s)"
    unfolding split by simp
  ultimately have "n = length (filter ?P [0..<idx])"
    using assms by (metis nth_eq_iff_index_eq)
  with idx show ?thesis by (simp add: char_count_take)
qed

text \<open>
  An error message is cut safely: what \<open>truncate_str\<close> returns begins the message, has at
  most the given number of characters (all of them when the message is no longer), and ends
  where a character ends, so it is still valid UTF-8.
\<close>

theorem truncate_str_correct:
  "\<exists>k. truncate_str s n = take k s \<and> char_count (take k s) = min n (char_count s) \<and>
     (k < length s \<longrightarrow> char_start (s ! k)) \<and> (char_count s \<le> n \<longrightarrow> take k s = s)"
proof (cases "n < length (char_starts s)")
  case True
  then have "truncate_str s n = take (char_starts s ! n) s"
    by (simp add: truncate_str_def char_starts_def [symmetric] Cons_nth_drop_Suc [symmetric])
  moreover have "\<not> char_count s \<le> n" using True by (simp add: char_count_starts)
  ultimately show ?thesis
    using char_starts_before [OF True refl] by (intro exI [of _ "char_starts s ! n"]) auto
next
  case False
  then have "truncate_str s n = s"
    by (simp add: truncate_str_def char_starts_def [symmetric])
  with False show ?thesis
    by (intro exI [of _ "length s"]) (simp add: char_count_starts)
qed

lemma truncate_str_correct_witness:
  "\<exists>k. truncate_str [CHR 0xC3, CHR 0xA9, CHR ''a''] 1 = take k [CHR 0xC3, CHR 0xA9, CHR ''a''] \<and>
     (k < 3 \<longrightarrow> char_start ([CHR 0xC3, CHR 0xA9, CHR ''a''] ! k))"
  using truncate_str_correct [of "[CHR 0xC3, CHR 0xA9, CHR ''a'']" 1] by auto

end
