(* ===== verification/Progress.thy ===== *)
theory Progress
  imports Tui
begin

text \<open>
  The progress display (\<open>src/progress.rs\<close>): the observer that forwards a transfer's events over
  a bounded channel, the tracker behind the plain and the inline display, and their two loops.
  It also states what a display owes the events, as a locale, and interprets it for the tracker
  and for the terminal interface. A progress bar of the \<open>indicatif\<close> crate is looked at through
  the calls it received; which calls finish it is a parameter.
\<close>

section \<open>The channel\<close>

text \<open>A bounded channel: what is sent to a full or to a closed one is dropped, since the result of
  \<open>try_send\<close> is ignored.\<close>

record channel =
  ch_queue :: "send_event list"
  ch_capacity :: nat
  ch_receiver :: bool

definition try_send :: "send_event \<Rightarrow> channel \<Rightarrow> channel" where
  "try_send e ch =
     (if ch_receiver ch \<and> length (ch_queue ch) < ch_capacity ch
      then ch\<lparr>ch_queue := ch_queue ch @ [e]\<rparr> else ch)"

definition remote_started :: "string \<Rightarrow> u64 \<Rightarrow> channel \<Rightarrow> channel" where
  "remote_started remote total_bytes = try_send (RemoteStarted remote total_bytes)"

definition remote_progress :: "string \<Rightarrow> u64 \<Rightarrow> channel \<Rightarrow> channel" where
  "remote_progress remote bytes_sent = try_send (RemoteProgress remote bytes_sent)"

definition remote_completed :: "string \<Rightarrow> u64 \<Rightarrow> f64 \<Rightarrow> channel \<Rightarrow> channel" where
  "remote_completed remote bytes elapsed_s = try_send (RemoteCompleted remote elapsed_s bytes)"

definition remote_skipped :: "string \<Rightarrow> channel \<Rightarrow> channel" where
  "remote_skipped remote = try_send (RemoteSkipped remote)"

definition remote_up_to_date :: "string \<Rightarrow> channel \<Rightarrow> channel" where
  "remote_up_to_date remote = try_send (RemoteUpToDate remote)"

definition remote_failed :: "string \<Rightarrow> string \<Rightarrow> channel \<Rightarrow> channel" where
  "remote_failed remote error = try_send (RemoteFailed remote error)"

definition all_done :: "channel \<Rightarrow> channel" where
  "all_done = try_send AllDone"

text \<open>The call of the observer that a notice of a transfer stands for.\<close>

fun observer_call :: "send_event \<Rightarrow> channel \<Rightarrow> channel" where
  "observer_call (RemoteStarted remote total_bytes) = remote_started remote total_bytes"
| "observer_call (RemoteProgress remote bytes_sent) = remote_progress remote bytes_sent"
| "observer_call (RemoteCompleted remote elapsed_s bytes) = remote_completed remote bytes elapsed_s"
| "observer_call (RemoteSkipped remote) = remote_skipped remote"
| "observer_call (RemoteUpToDate remote) = remote_up_to_date remote"
| "observer_call (RemoteFailed remote error) = remote_failed remote error"
| "observer_call AllDone = all_done"
| "observer_call e = (\<lambda>ch. ch)"

section \<open>Formatting\<close>

text \<open>The code has copies of the formatting functions of the terminal interface.\<close>

definition fmt_bytes :: "u64 \<Rightarrow> string" where
  "fmt_bytes bytes =
     (if 1000000000 \<le> bytes then fmt_fixed 1 (f64_div (f64_of_u64 bytes) (Fin 1000000000)) @ '' GB''
      else if 1000000 \<le> bytes then fmt_fixed 0 (f64_div (f64_of_u64 bytes) (Fin 1000000)) @ '' MB''
      else if 1000 \<le> bytes then fmt_fixed 0 (f64_div (f64_of_u64 bytes) (Fin 1000)) @ '' KB''
      else nat_str (unat bytes) @ '' B'')"

definition fmt_speed :: "f64 \<Rightarrow> string" where
  "fmt_speed bps =
     (if f64_ge bps (Fin 1000000) then fmt_fixed 1 (f64_div bps (Fin 1000000)) @ '' MB/s''
      else if f64_ge bps (Fin 1000) then fmt_fixed 0 (f64_div bps (Fin 1000)) @ '' KB/s''
      else fmt_fixed 0 bps @ '' B/s'')"

definition fmt_duration :: "f64 \<Rightarrow> string" where
  "fmt_duration secs =
     (let s = unat (f64_to_u64 (f64_max secs (Fin 0)))
      in if 60 \<le> s then nat_str (s div 60) @ ''m '' @ pad_left 2 (CHR ''0'') (nat_str (s mod 60)) @ ''s''
         else nat_str s @ ''s'')"

definition fmt_eta :: "f64 option \<Rightarrow> string" where
  "fmt_eta eta_secs = (case eta_secs of None \<Rightarrow> ''ETA ?'' | Some s \<Rightarrow> ''ETA '' @ fmt_duration s)"

definition fmt_active_line :: "string \<Rightarrow> u64 \<Rightarrow> u64 \<Rightarrow> f64 \<Rightarrow> f64 option \<Rightarrow> string" where
  "fmt_active_line remote bytes_sent total_bytes speed_bps eta_secs =
     (let pct = (if total_bytes = 0 then 0 else min (bytes_sent * 100 div total_bytes) 100)
      in remote @ '': '' @ fmt_bytes bytes_sent @ '' / '' @ fmt_bytes total_bytes @ '' ('' @
         nat_str (unat pct) @ ''%) '' @ fmt_speed speed_bps @ ''  '' @ fmt_eta eta_secs)"

section \<open>The tracker\<close>

datatype entry_state =
    EntryWaiting
  | EntryActive u64 u64 f64 "f64 option"
  | EntryTerminal

record remote_entry =
  re_state :: entry_state
  re_last_progress :: "(instant \<times> u64) option"

definition entry_waiting :: remote_entry where
  "entry_waiting = \<lparr>re_state = EntryWaiting, re_last_progress = None\<rparr>"

record progress_tracker =
  pt_remotes :: "(string, remote_entry) hmap"
  pt_done :: bool

definition tracker_new :: "string list \<Rightarrow> progress_tracker" where
  "tracker_new remote_names =
     \<lparr>pt_remotes = map (\<lambda>n. (n, entry_waiting)) (remdups remote_names), pt_done = False\<rparr>"

text \<open>\<open>get_mut\<close> and an update of what was found.\<close>

definition on_entry :: "string \<Rightarrow> (remote_entry \<Rightarrow> remote_entry) \<Rightarrow> progress_tracker \<Rightarrow> progress_tracker" where
  "on_entry remote f t =
     (case map_of (pt_remotes t) remote of
        None \<Rightarrow> t
      | Some entry \<Rightarrow> t\<lparr>pt_remotes := AList.update remote (f entry) (pt_remotes t)\<rparr>)"

definition progress_entry :: "instant \<Rightarrow> u64 \<Rightarrow> remote_entry \<Rightarrow> remote_entry" where
  "progress_entry now bytes_sent entry =
     (let active = (case re_state entry of
                      EntryActive bs total_bytes speed eta \<Rightarrow> Some (total_bytes, speed, eta)
                    | _ \<Rightarrow> None);
          (speed, eta) = transfer_rate now (re_last_progress entry) active bytes_sent
      in entry\<lparr>re_state := (case re_state entry of
                              EntryActive bs total_bytes _ _ \<Rightarrow> EntryActive bytes_sent total_bytes speed eta
                            | st \<Rightarrow> st),
               re_last_progress := Some (now, bytes_sent)\<rparr>)"

definition ended :: "remote_entry \<Rightarrow> remote_entry" where
  "ended entry = entry\<lparr>re_state := EntryTerminal\<rparr>"

definition dash :: string where
  "dash = [CHR 0xE2, CHR 0x80, CHR 0x94]"

fun handle_event :: "instant \<Rightarrow> send_event \<Rightarrow> progress_tracker \<Rightarrow> string option \<times> progress_tracker" where
  "handle_event now (RemoteStarted remote total_bytes) t =
     (None, t\<lparr>pt_remotes := AList.update remote
        \<lparr>re_state = EntryActive 0 total_bytes (Fin 0) None, re_last_progress = Some (now, 0)\<rparr> (pt_remotes t)\<rparr>)"
| "handle_event now (RemoteProgress remote bytes_sent) t =
     (None, on_entry remote (progress_entry now bytes_sent) t)"
| "handle_event now (RemoteCompleted remote elapsed_s bytes) t =
     (Some (remote @ '': done '' @ dash @ '' '' @ fmt_bytes bytes @ '' in '' @ fmt_duration elapsed_s),
      on_entry remote ended t)"
| "handle_event now (RemoteFailed remote error) t =
     (Some (remote @ '': failed '' @ dash @ '' '' @ error), on_entry remote ended t)"
| "handle_event now (RemoteSkipped remote) t =
     (Some (remote @ '': skipped''), on_entry remote ended t)"
| "handle_event now (RemoteUpToDate remote) t =
     (Some (remote @ '': up to date''), on_entry remote ended t)"
| "handle_event now AllDone t = (None, t\<lparr>pt_done := True\<rparr>)"
| "handle_event now e t = (None, t)"

definition tick_lines :: "progress_tracker \<Rightarrow> string list" where
  "tick_lines t =
     sort (concat (map (\<lambda>(name, entry).
       case re_state entry of
         EntryActive bytes_sent total_bytes speed_bps eta_secs \<Rightarrow>
           [fmt_active_line name bytes_sent total_bytes speed_bps eta_secs]
       | _ \<Rightarrow> []) (pt_remotes t)))"

definition is_done :: "progress_tracker \<Rightarrow> bool" where
  "is_done t = pt_done t"

section \<open>The plain display\<close>

text \<open>A closed channel is None, the tick of ten seconds is \<open>PlainTick\<close>. The loop yields the lines
  it prints and, when it has returned, its result.\<close>

datatype plain_input = PlainEvent "send_event option" | PlainTick

fun plain_loop :: "progress_tracker \<Rightarrow> (instant \<times> plain_input) list \<Rightarrow> string list \<times> unit res option" where
  "plain_loop t [] = ([], None)"
| "plain_loop t ((now, PlainEvent maybe_event) # inputs) =
     (let event = (case maybe_event of Some e \<Rightarrow> e | None \<Rightarrow> AllDone);
          (line, t') = handle_event now event t;
          printed = (case line of Some l \<Rightarrow> [l] | None \<Rightarrow> [])
      in if is_done t' then (printed, Some (Ok ()))
         else apfst ((@) printed) (plain_loop t' inputs))"
| "plain_loop t ((now, PlainTick) # inputs) = apfst ((@) (tick_lines t)) (plain_loop t inputs)"

definition run_plain :: "(instant \<times> plain_input) list \<Rightarrow> string list \<times> unit res option" where
  "run_plain inputs = plain_loop (tracker_new []) inputs"

section \<open>The inline display\<close>

datatype bar_call =
    SetLength u64
  | SetPosition u64
  | SetMessage string
  | FinishWith string
  | AbandonWith string

type_synonym bars = "(string, bar_call list) hmap"

definition new_bars :: "string list \<Rightarrow> bars" where
  "new_bars remote_names =
     map (\<lambda>n. (n, [SetMessage (''waiting'' @ ellipsis)])) (remdups remote_names)"

definition on_bar :: "string \<Rightarrow> bar_call list \<Rightarrow> bars \<Rightarrow> bars" where
  "on_bar remote calls = map (\<lambda>(n, cs). (n, if n = remote then cs @ calls else cs))"

text \<open>\<open>&error[..error.len().min(40)]\<close>, which panics inside a character.\<close>

definition slice_to_40 :: "string \<Rightarrow> string res" where
  "slice_to_40 error =
     (let n = min (length error) 40
      in if is_char_boundary error n then Ok (take n error) else Panic slice_panic)"

definition not_reached :: string where
  "not_reached = [CHR 0xE2, CHR 0x9C, CHR 0x97] @ '' not reached '' @ dash @ '' check logs''"

fun update_bars :: "(bar_call list \<Rightarrow> bool) \<Rightarrow> send_event \<Rightarrow> bars \<Rightarrow> bars res" where
  "update_bars is_finished (RemoteStarted remote total_bytes) bars =
     Ok (on_bar remote [SetLength total_bytes, SetPosition 0, SetMessage (''starting'' @ ellipsis)] bars)"
| "update_bars is_finished (RemoteProgress remote bytes_sent) bars =
     Ok (on_bar remote [SetPosition bytes_sent] bars)"
| "update_bars is_finished (RemoteCompleted remote elapsed_s bytes) bars =
     Ok (on_bar remote [FinishWith ([CHR 0xE2, CHR 0x9C, CHR 0x93] @ '' '' @ fmt_bytes bytes @ ''  '' @
           fmt_duration elapsed_s)] bars)"
| "update_bars is_finished (RemoteFailed remote error) bars =
     (if map_of bars remote = None then Ok bars
      else case slice_to_40 error of
        Ok e \<Rightarrow> Ok (on_bar remote [AbandonWith ([CHR 0xE2, CHR 0x9C, CHR 0x97] @ '' '' @ e)] bars)
      | Err e \<Rightarrow> Err e
      | Panic p \<Rightarrow> Panic p)"
| "update_bars is_finished (RemoteSkipped remote) bars = Ok (on_bar remote [FinishWith ''skipped''] bars)"
| "update_bars is_finished (RemoteUpToDate remote) bars = Ok (on_bar remote [FinishWith ''up to date''] bars)"
| "update_bars is_finished AllDone bars =
     Ok (map (\<lambda>(n, cs). (n, if is_finished cs then cs else cs @ [AbandonWith not_reached])) bars)"
| "update_bars is_finished e bars = Ok bars"

definition refresh_calls :: "remote_entry \<Rightarrow> bar_call list" where
  "refresh_calls entry =
     (case re_state entry of
        EntryActive bytes_sent total_bytes speed_bps eta_secs \<Rightarrow>
          [SetLength total_bytes, SetPosition bytes_sent,
           SetMessage (fmt_bytes bytes_sent @ '' / '' @ fmt_bytes total_bytes @ ''  '' @
             fmt_speed speed_bps @ ''  '' @ fmt_eta eta_secs)]
      | _ \<Rightarrow> [])"

definition refresh :: "progress_tracker \<Rightarrow> bars \<Rightarrow> bars" where
  "refresh t bars = fold (\<lambda>(name, entry). on_bar name (refresh_calls entry)) (pt_remotes t) bars"

fun inline_loop ::
    "(bar_call list \<Rightarrow> bool) \<Rightarrow> progress_tracker \<Rightarrow> bars \<Rightarrow> (instant \<times> send_event option) list \<Rightarrow>
     unit res option \<times> bars" where
  "inline_loop is_finished t bars [] = (None, bars)"
| "inline_loop is_finished t bars ((now, maybe_event) # inputs) =
     (let event = (case maybe_event of Some e \<Rightarrow> e | None \<Rightarrow> AllDone)
      in case update_bars is_finished event bars of
           Ok bars1 \<Rightarrow>
             let t' = snd (handle_event now event t); bars2 = refresh t' bars1
             in if is_done t' then (Some (Ok ()), bars2) else inline_loop is_finished t' bars2 inputs
         | Err e \<Rightarrow> (Some (Err e), bars)
         | Panic p \<Rightarrow> (Some (Panic p), bars))"

definition run_inline ::
    "(bar_call list \<Rightarrow> bool) \<Rightarrow> string list \<Rightarrow> (instant \<times> send_event option) list \<Rightarrow> unit res option \<times> bars" where
  "run_inline is_finished remote_names inputs =
     inline_loop is_finished (tracker_new remote_names) (new_bars remote_names) inputs"

section \<open>What a display owes the events\<close>

text \<open>The remote an event is about.\<close>

fun subject :: "send_event \<Rightarrow> string option" where
  "subject (RemoteStarted remote total_bytes) = Some remote"
| "subject (RemoteProgress remote bytes_sent) = Some remote"
| "subject (RemoteCompleted remote elapsed_s bytes) = Some remote"
| "subject (RemoteFailed remote error) = Some remote"
| "subject (RemoteSkipped remote) = Some remote"
| "subject (RemoteUpToDate remote) = Some remote"
| "subject e = None"

fun ends :: "send_event \<Rightarrow> bool" where
  "ends (RemoteCompleted remote elapsed_s bytes) = True"
| "ends (RemoteFailed remote error) = True"
| "ends (RemoteSkipped remote) = True"
| "ends (RemoteUpToDate remote) = True"
| "ends e = False"

text \<open>
  A display keeps something for each remote, which only the events about that remote change. It
  shows outcomes when an ending event about a known remote makes it show that ending.
\<close>

locale event_display =
  fixes handle :: "instant \<Rightarrow> send_event \<Rightarrow> 's \<Rightarrow> 's"
    and row :: "string \<Rightarrow> 's \<Rightarrow> 'r option"
    and step :: "instant \<Rightarrow> send_event \<Rightarrow> 'r option \<Rightarrow> 'r option"
  assumes local: "row k (handle now e s) = (if subject e = Some k then step now e (row k s) else row k s)"
begin

definition shown :: "(instant \<times> send_event) list \<Rightarrow> 's \<Rightarrow> 's" where
  "shown = fold (\<lambda>(now, e). handle now e)"

lemma shown_append: "shown (es @ es') s = shown es' (shown es s)"
  by (simp add: shown_def)

lemma row_shown:
  "row k (shown es s) = fold (\<lambda>(now, e). step now e) (filter (\<lambda>x. subject (snd x) = Some k) es) (row k s)"
  by (induction es arbitrary: s) (auto simp: shown_def local)

lemma row_untouched:
  "(\<And>now e. (now, e) \<in> set es \<Longrightarrow> subject e \<noteq> Some k) \<Longrightarrow> row k (shown es s) = row k s"
proof -
  assume "\<And>now e. (now, e) \<in> set es \<Longrightarrow> subject e \<noteq> Some k"
  then have "filter (\<lambda>x. subject (snd x) = Some k) es = []" by (auto simp: filter_empty_conv)
  then show ?thesis by (simp add: row_shown)
qed

end

locale outcome_display = event_display handle row step
  for handle :: "instant \<Rightarrow> send_event \<Rightarrow> 's \<Rightarrow> 's" and row :: "string \<Rightarrow> 's \<Rightarrow> 'r option" and step +
  fixes tells :: "'r \<Rightarrow> send_event \<Rightarrow> bool"
  assumes known: "step now e (Some r) \<noteq> None"
    and outcome: "ends e \<Longrightarrow> step now e (Some r) = Some r' \<Longrightarrow> tells r' e"
begin

lemma row_stays: "row k s \<noteq> None \<Longrightarrow> row k (shown es s) \<noteq> None"
proof (induction es arbitrary: s)
  case (Cons x es)
  obtain now e where x: "x = (now, e)" by fastforce
  have "row k (handle now e s) \<noteq> None"
    using Cons.prems known by (auto simp: local)
  from Cons.IH [OF this] x show ?case by (simp add: shown_def)
qed (simp add: shown_def)

text \<open>What is shown of a remote is its last ending event, however the events of other remotes are
  interleaved with its own.\<close>

lemma outcome_interleaved:
  assumes "row k s \<noteq> None" and "filter (\<lambda>x. subject (snd x) = Some k) es = pre @ [(now, e)]" and "ends e"
  shows "\<exists>r. row k (shown es s) = Some r \<and> tells r e"
proof -
  have "set (pre @ [(now, e)]) \<subseteq> {x. subject (snd x) = Some k}"
    unfolding assms(2) [symmetric] by auto
  then have "filter (\<lambda>x. subject (snd x) = Some k) pre = pre" by (auto simp: filter_id_conv)
  then have "row k (shown es s) = step now e (row k (shown pre s))"
    using row_shown [of k es s] row_shown [of k pre s] unfolding assms(2) by simp
  moreover obtain r where "row k (shown pre s) = Some r"
    using row_stays [OF assms(1), of pre] by auto
  moreover obtain r' where "step now e (Some r) = Some r'"
    using known [of now e r] by auto
  ultimately show ?thesis using outcome [OF assms(3)] by auto
qed

text \<open>The last ending event about a remote is what is shown of it.\<close>

lemma outcome_shown:
  assumes "row k s \<noteq> None" and "subject e = Some k" and "ends e"
    and "\<And>t e'. (t, e') \<in> set post \<Longrightarrow> subject e' \<noteq> Some k"
  shows "\<exists>r. row k (shown (pre @ (now, e) # post) s) = Some r \<and> tells r e"
proof -
  obtain r where r: "row k (shown pre s) = Some r"
    using row_stays [OF assms(1), of pre] by auto
  obtain r' where r': "step now e (Some r) = Some r'"
    using known [of now e r] by auto
  have "row k (shown (pre @ (now, e) # post) s) = row k (shown post (handle now e (shown pre s)))"
    by (simp add: shown_def)
  also have "\<dots> = Some r'"
    using row_untouched [OF assms(4)] r r' assms(2) by (simp add: local)
  finally show ?thesis using outcome [OF assms(3) r'] by auto
qed

end

section \<open>The terminal interface as a display\<close>

definition row_of :: "string \<Rightarrow> tui_app \<Rightarrow> remote_row option" where
  "row_of k app = find (\<lambda>r. rr_name r = k) (ta_remotes app)"

fun row_step :: "instant \<Rightarrow> send_event \<Rightarrow> remote_row \<Rightarrow> remote_row" where
  "row_step now (RemoteProgress remote bytes_sent) r = progress_row now bytes_sent r"
| "row_step now (RemoteStarted remote total_bytes) r =
     r\<lparr>rr_state := Active 0 total_bytes (Fin 0) None, rr_last_progress := Some (now, 0)\<rparr>"
| "row_step now (RemoteCompleted remote elapsed_s bytes) r = r\<lparr>rr_state := Done bytes elapsed_s\<rparr>"
| "row_step now (RemoteFailed remote error) r = r\<lparr>rr_state := Failed error\<rparr>"
| "row_step now (RemoteSkipped remote) r = r\<lparr>rr_state := Skipped\<rparr>"
| "row_step now (RemoteUpToDate remote) r = r\<lparr>rr_state := UpToDate\<rparr>"
| "row_step now e r = r"

text \<open>How the state of a row tells an ending.\<close>

fun row_tells :: "row_state \<Rightarrow> send_event \<Rightarrow> bool" where
  "row_tells st (RemoteCompleted remote elapsed_s bytes) \<longleftrightarrow> st = Done bytes elapsed_s"
| "row_tells st (RemoteFailed remote error) \<longleftrightarrow> st = Failed error"
| "row_tells st (RemoteSkipped remote) \<longleftrightarrow> st = Skipped"
| "row_tells st (RemoteUpToDate remote) \<longleftrightarrow> st = UpToDate"
| "row_tells st e \<longleftrightarrow> False"

lemma find_update_row:
  "(\<And>r. rr_name (f r) = rr_name r) \<Longrightarrow>
   find (\<lambda>r. rr_name r = k) (update_row name f rs) =
     (if k = name then map_option f (find (\<lambda>r. rr_name r = k) rs) else find (\<lambda>r. rr_name r = k) rs)"
  by (induction rs) auto

lemma row_of_on_row:
  "(\<And>r. rr_name (f r) = rr_name r) \<Longrightarrow>
   row_of k (on_row name f app) = (if k = name then map_option f (row_of k app) else row_of k app)"
  by (simp add: row_of_def on_row_def find_update_row)

lemma row_of_state [simp]:
  "row_of k (app\<lparr>ta_state := st\<rparr>) = row_of k app"
  "row_of k (app\<lparr>ta_summary_countdown := c\<rparr>) = row_of k app"
  by (simp_all add: row_of_def)

interpretation tui_display: outcome_display handle_send_event row_of
  "\<lambda>now e. map_option (row_step now e)" "\<lambda>r e. row_tells (rr_state r) e"
proof
  fix k now e app
  show "row_of k (handle_send_event now e app) =
      (if subject e = Some k then map_option (row_step now e) (row_of k app) else row_of k app)"
    by (cases e; cases "row_of k app") (auto simp: row_of_on_row Let_def split: tui_state.split)
next
  fix now e and r r' :: remote_row assume "ends e" "map_option (row_step now e) (Some r) = Some r'"
  then show "row_tells (rr_state r') e" by (cases e) auto
qed simp

section \<open>The tracker as a display\<close>

definition entry_of :: "string \<Rightarrow> progress_tracker \<Rightarrow> remote_entry option" where
  "entry_of k t = map_of (pt_remotes t) k"

fun entry_step :: "instant \<Rightarrow> send_event \<Rightarrow> remote_entry option \<Rightarrow> remote_entry option" where
  "entry_step now (RemoteStarted remote total_bytes) entry =
     Some \<lparr>re_state = EntryActive 0 total_bytes (Fin 0) None, re_last_progress = Some (now, 0)\<rparr>"
| "entry_step now (RemoteProgress remote bytes_sent) entry = map_option (progress_entry now bytes_sent) entry"
| "entry_step now e entry = (if ends e then map_option ended entry else entry)"

lemma entry_of_on_entry:
  "entry_of k (on_entry remote f t) = (if k = remote then map_option f (entry_of k t) else entry_of k t)"
  by (auto simp: entry_of_def on_entry_def AList.update_conv' split: option.split)

interpretation tracker_display: outcome_display "\<lambda>now e t. snd (handle_event now e t)" entry_of entry_step
  "\<lambda>entry e. re_state entry = EntryTerminal"
proof
  fix k now e t
  show "entry_of k (snd (handle_event now e t)) =
      (if subject e = Some k then entry_step now e (entry_of k t) else entry_of k t)"
    by (cases e; simp add: entry_of_on_entry; auto simp: entry_of_def AList.update_conv')
next
  fix now e and r r' :: remote_entry assume "ends e" "entry_step now e (Some r) = Some r'"
  then show "re_state r' = EntryTerminal" by (cases e) (auto simp: ended_def)
next
  fix now e and r :: remote_entry
  show "entry_step now e (Some r) \<noteq> None" by (cases e) auto
qed

section \<open>The two displays agree\<close>

fun entry_state_of :: "row_state \<Rightarrow> entry_state" where
  "entry_state_of Waiting = EntryWaiting"
| "entry_state_of (Active bytes_sent total_bytes speed eta) = EntryActive bytes_sent total_bytes speed eta"
| "entry_state_of st = EntryTerminal"

definition entry_of_row :: "remote_row \<Rightarrow> remote_entry" where
  "entry_of_row r = \<lparr>re_state = entry_state_of (rr_state r), re_last_progress = rr_last_progress r\<rparr>"

lemma entry_of_progress_row:
  "entry_of_row (progress_row now b r) = progress_entry now b (entry_of_row r)"
  by (cases "rr_state r")
    (simp_all add: entry_of_row_def progress_row_def progress_entry_def Let_def split: prod.split)

lemma entry_step_row: "entry_step now e (Some (entry_of_row r)) = Some (entry_of_row (row_step now e r))"
  by (cases e; simp add: entry_of_progress_row; simp add: entry_of_row_def ended_def)

lemma fold_entry_step:
  "fold (\<lambda>(now, e). entry_step now e) es (Some (entry_of_row r)) =
     map_option entry_of_row (fold (\<lambda>(now, e). map_option (row_step now e)) es (Some r))"
  by (induction es arbitrary: r) (auto simp: entry_step_row)

lemma entry_of_new: "k \<in> set names \<Longrightarrow> entry_of k (tracker_new names) = Some (entry_of_row (new_row k))"
  by (simp add: entry_of_def tracker_new_def map_of_map_restrict entry_of_row_def new_row_def entry_waiting_def)

lemma row_of_new: "k \<in> set names \<Longrightarrow> row_of k (for_transfer_with_tokens names tokens) = Some (new_row k)"
  by (simp add: row_of_def for_transfer_with_tokens_def, induction names) (auto simp: new_row_def)

text \<open>
  C26. The progress tracker and the terminal interface are two implementations of one machine:
  for every remote they were both started with, after any events at any times, the tracker's
  entry is the abstraction of the interface's row, with the same bytes, speed, remaining time and
  time of the last progress, and it is terminal exactly when the row shows an ending.
\<close>

theorem tracker_agrees_with_tui:
  assumes "k \<in> set names"
  shows "entry_of k (fold (\<lambda>(now, e) t. snd (handle_event now e t)) es (tracker_new names)) =
    map_option entry_of_row
      (row_of k (fold (\<lambda>(now, e). handle_send_event now e) es (for_transfer_with_tokens names tokens)))"
  unfolding tracker_display.shown_def [symmetric] tui_display.shown_def [symmetric]
    tracker_display.row_shown tui_display.row_shown entry_of_new [OF assms] row_of_new [OF assms]
  by (rule fold_entry_step)

lemma tracker_agrees_with_tui_witness:
  "entry_of ''a'' (fold (\<lambda>(now, e) t. snd (handle_event now e t)) [(7, RemoteStarted ''a'' 100)] (tracker_new [''a''])) =
     Some \<lparr>re_state = EntryActive 0 100 (Fin 0) None, re_last_progress = Some (7, 0)\<rparr>"
  using tracker_agrees_with_tui [of "''a''" "[''a'']" "[(7, RemoteStarted ''a'' 100)]" "[]"]
  by (simp add: for_transfer_with_tokens_def new_row_def row_of_def on_row_def entry_of_row_def)

section \<open>The plain display tells every outcome\<close>

text \<open>The lines that a reader of the log relies on.\<close>

fun outcome_line :: "send_event \<Rightarrow> string option" where
  "outcome_line (RemoteCompleted remote elapsed_s bytes) =
     Some (remote @ '': done '' @ dash @ '' '' @ fmt_bytes bytes @ '' in '' @ fmt_duration elapsed_s)"
| "outcome_line (RemoteFailed remote error) = Some (remote @ '': failed '' @ dash @ '' '' @ error)"
| "outcome_line (RemoteSkipped remote) = Some (remote @ '': skipped'')"
| "outcome_line (RemoteUpToDate remote) = Some (remote @ '': up to date'')"
| "outcome_line e = None"

fun plain_outcome :: "plain_input \<Rightarrow> string option" where
  "plain_outcome (PlainEvent (Some e)) = outcome_line e"
| "plain_outcome i = None"

fun plain_closes :: "plain_input \<Rightarrow> bool" where
  "plain_closes (PlainEvent maybe_event) \<longleftrightarrow> maybe_event = None \<or> maybe_event = Some AllDone"
| "plain_closes PlainTick \<longleftrightarrow> False"

lemma fst_handle_event: "fst (handle_event now e t) = outcome_line e"
  by (cases e) simp_all

lemma pt_done_handle_event: "pt_done (snd (handle_event now e t)) \<longleftrightarrow> e = AllDone \<or> pt_done t"
  by (cases e) (simp_all add: on_entry_def split: option.split)

lemma plain_loop_reports:
  assumes "list_all (\<lambda>x. \<not> plain_closes (snd x)) pre" and "plain_closes i" and "\<not> pt_done t"
  shows "\<exists>printed. plain_loop t (pre @ (now, i) # post) = (printed, Some (Ok ())) \<and>
    subseq (List.map_filter (\<lambda>x. plain_outcome (snd x)) pre) printed"
  using assms(1,3)
proof (induction pre arbitrary: t)
  case Nil
  obtain maybe_event where i: "i = PlainEvent maybe_event"
    using assms(2) by (cases i) auto
  with assms(2) show ?case
    by (auto simp: is_done_def map_filter_simps Let_def)
next
  case (Cons x pre)
  obtain time input where x: "x = (time, input)" by fastforce
  show ?case
  proof (cases input)
    case (PlainEvent maybe_event)
    then obtain e where e: "maybe_event = Some e" "e \<noteq> AllDone"
      using Cons.prems x by auto
    obtain line t' where run: "handle_event time e t = (line, t')" by fastforce
    then have "line = outcome_line e" "\<not> pt_done t'"
      using fst_handle_event [of time e t] pt_done_handle_event [of time e t] e Cons.prems by simp_all
    moreover obtain printed where "plain_loop t' (pre @ (now, i) # post) = (printed, Some (Ok ()))"
        "subseq (List.map_filter (\<lambda>x. plain_outcome (snd x)) pre) printed"
      using Cons.IH [of t'] Cons.prems \<open>\<not> pt_done t'\<close> by auto
    ultimately show ?thesis
      using x PlainEvent e run
      by (auto simp: is_done_def map_filter_simps split: option.split)
  next
    case PlainTick
    obtain printed where "plain_loop t (pre @ (now, i) # post) = (printed, Some (Ok ()))"
        "subseq (List.map_filter (\<lambda>x. plain_outcome (snd x)) pre) printed"
      using Cons.IH [of t] Cons.prems by auto
    then show ?thesis
      using x PlainTick by (auto simp: map_filter_simps intro: list_emb_append2)
  qed
qed

text \<open>
  C32. Without a terminal nothing is lost from the log: the plain display returns when the
  transfers are over or the channel is closed, and by then it has printed the outcome of every
  transfer that it was told, in order, whatever was printed between them.
\<close>

theorem plain_display_reports:
  assumes "list_all (\<lambda>x. \<not> plain_closes (snd x)) pre" and "plain_closes i"
  shows "\<exists>printed. run_plain (pre @ (now, i) # post) = (printed, Some (Ok ())) \<and>
    subseq (List.map_filter (\<lambda>x. plain_outcome (snd x)) pre) printed"
  using plain_loop_reports [OF assms, of "tracker_new []"] by (simp add: run_plain_def tracker_new_def)

lemma plain_display_reports_witness:
  "\<exists>printed. run_plain [(0, PlainEvent (Some (RemoteStarted ''a'' 5))), (1, PlainTick),
        (2, PlainEvent (Some (RemoteFailed ''a'' ''no space''))), (3, PlainEvent None)] = (printed, Some (Ok ())) \<and>
    ''a: failed '' @ dash @ '' no space'' \<in> set printed"
proof -
  obtain printed where "run_plain ([(0, PlainEvent (Some (RemoteStarted ''a'' 5))), (1, PlainTick),
        (2, PlainEvent (Some (RemoteFailed ''a'' ''no space'')))] @ (3, PlainEvent None) # []) = (printed, Some (Ok ()))"
      "subseq [''a: failed '' @ dash @ '' no space''] printed"
    using plain_display_reports [of "[(0, PlainEvent (Some (RemoteStarted ''a'' 5))), (1, PlainTick),
        (2, PlainEvent (Some (RemoteFailed ''a'' ''no space'')))]" "PlainEvent None" 3 "[]"]
    by (auto simp: map_filter_simps)
  then show ?thesis by (auto simp: subseq_singleton_left)
qed

section \<open>The inline display\<close>

definition sliceable :: "string \<Rightarrow> bool" where
  "sliceable error \<longleftrightarrow> length error \<le> 40 \<or> char_start (error ! 40)"

lemma slice_to_40_cases:
  "sliceable error \<Longrightarrow> slice_to_40 error = Ok (take 40 error)"
  "\<not> sliceable error \<Longrightarrow> slice_to_40 error = Panic slice_panic"
  by (auto simp: slice_to_40_def sliceable_def is_char_boundary_def Let_def min_def)

text \<open>Events that neither end the display nor make it panic.\<close>

fun harmless :: "send_event option \<Rightarrow> bool" where
  "harmless None = False"
| "harmless (Some AllDone) = False"
| "harmless (Some (RemoteFailed remote error)) = sliceable error"
| "harmless (Some e) = True"

lemma on_bar_names [simp]: "map fst (on_bar remote calls bars) = map fst bars"
  by (simp add: on_bar_def comp_def case_prod_beta)

lemma refresh_names [simp]: "map fst (refresh t bars) = map fst bars"
proof -
  have "map fst (fold (\<lambda>(name, entry). on_bar name (refresh_calls entry)) es bars) = map fst bars" for es
    by (induction es arbitrary: bars) auto
  then show ?thesis by (simp add: refresh_def)
qed

lemma update_bars_harmless:
  assumes "harmless (Some e)"
  obtains bars' where "update_bars fin e bars = Ok bars'" and "map fst bars' = map fst bars"
proof -
  have "\<exists>bars'. update_bars fin e bars = Ok bars' \<and> map fst bars' = map fst bars"
    using assms by (cases e) (auto simp: slice_to_40_cases)
  with that show thesis by blast
qed

lemma inline_loop_harmless:
  assumes "list_all (\<lambda>x. harmless (snd x)) pre" and "\<not> pt_done t"
  shows "\<exists>t' bars'. inline_loop fin t bars (pre @ rest) = inline_loop fin t' bars' rest \<and>
    map fst bars' = map fst bars \<and> \<not> pt_done t'"
  using assms
proof (induction pre arbitrary: t bars)
  case (Cons x pre)
  obtain now e where x: "x = (now, Some e)" "harmless (Some e)"
    using Cons.prems(1) by (cases x; cases "snd x") auto
  obtain bars1 where up: "update_bars fin e bars = Ok bars1" "map fst bars1 = map fst bars"
    using update_bars_harmless [OF x(2)] by blast
  have "\<not> pt_done (snd (handle_event now e t))"
    using Cons.prems(2) x(2) by (auto simp: pt_done_handle_event)
  with Cons.IH [of "snd (handle_event now e t)" "refresh (snd (handle_event now e t)) bars1"] Cons.prems x up
  show ?case by (simp add: Let_def is_done_def)
qed auto

lemma on_bar_finished:
  assumes "\<And>cs c. fin cs \<Longrightarrow> fin (cs @ [c])" and "list_all (\<lambda>x. fin (snd x)) bars"
  shows "list_all (\<lambda>x. fin (snd x)) (on_bar remote calls bars)"
proof -
  have "fin (cs @ calls)" if "fin cs" for cs
    using that
  proof (induction calls arbitrary: cs)
    case (Cons c calls)
    from Cons.IH [OF assms(1) [OF Cons.prems, of c]] show ?case by simp
  qed simp
  with assms(2) show ?thesis by (auto simp: on_bar_def list_all_iff)
qed

lemma refresh_finished:
  assumes "\<And>cs c. fin cs \<Longrightarrow> fin (cs @ [c])" and "list_all (\<lambda>x. fin (snd x)) bars"
  shows "list_all (\<lambda>x. fin (snd x)) (refresh t bars)"
proof -
  have "list_all (\<lambda>x. fin (snd x)) (fold (\<lambda>(name, entry). on_bar name (refresh_calls entry)) es bars)" for es
    using assms(2)
    by (induction es arbitrary: bars) (auto intro: on_bar_finished [where fin = fin] assms(1))
  then show ?thesis by (simp add: refresh_def)
qed

text \<open>
  C33. No progress bar is left open: when the transfers are over or the channel is closed, the
  inline display returns with exactly one bar for each remote, and every bar is finished. It is
  assumed that abandoning a bar finishes it, that a finished bar stays finished, and that no
  error message reported before has a character across its 40th byte.
\<close>

theorem inline_display_closes:
  assumes "\<And>cs m. fin (cs @ [AbandonWith m])" and "\<And>cs c. fin cs \<Longrightarrow> fin (cs @ [c])"
    and "list_all (\<lambda>x. harmless (snd x)) pre" and "maybe_event = None \<or> maybe_event = Some AllDone"
  shows "\<exists>bars. run_inline fin names (pre @ (now, maybe_event) # post) = (Some (Ok ()), bars) \<and>
    map fst bars = remdups names \<and> list_all (\<lambda>x. fin (snd x)) bars"
proof -
  have "\<not> pt_done (tracker_new names)" by (simp add: tracker_new_def)
  from inline_loop_harmless [OF assms(3) this, of fin "new_bars names" "(now, maybe_event) # post"]
  obtain t bars where run: "run_inline fin names (pre @ (now, maybe_event) # post) =
      inline_loop fin t bars ((now, maybe_event) # post)" "map fst bars = map fst (new_bars names)"
    unfolding run_inline_def by blast
  let ?bars = "map (\<lambda>(n, cs). (n, if fin cs then cs else cs @ [AbandonWith not_reached])) bars"
  have "list_all (\<lambda>x. fin (snd x)) ?bars" using assms(1) by (auto simp: list_all_iff)
  note finished = refresh_finished [OF assms(2) this]
  have "inline_loop fin t bars ((now, maybe_event) # post) =
      (Some (Ok ()), refresh (snd (handle_event now AllDone t)) ?bars)"
    using assms(4) by (auto simp: is_done_def Let_def)
  moreover have "map fst ?bars = remdups names"
    using run(2) by (simp add: new_bars_def comp_def case_prod_beta)
  ultimately show ?thesis
    using run(1) finished by auto
qed

definition closed_by_call :: "bar_call list \<Rightarrow> bool" where
  "closed_by_call cs = list_ex (\<lambda>c. case c of FinishWith m \<Rightarrow> True | AbandonWith m \<Rightarrow> True | _ \<Rightarrow> False) cs"

lemma inline_display_closes_witness:
  "\<exists>bars. run_inline closed_by_call [''a'', ''b'']
      [(0, Some (RemoteStarted ''a'' 5)), (1, Some (RemoteFailed ''a'' ''no space'')), (2, None)] = (Some (Ok ()), bars) \<and>
    map fst bars = [''a'', ''b''] \<and> list_all (\<lambda>x. closed_by_call (snd x)) bars"
  using inline_display_closes [of closed_by_call "[(0, Some (RemoteStarted ''a'' 5)), (1, Some (RemoteFailed ''a'' ''no space''))]"
      None "[''a'', ''b'']" 2 "[]"]
  by (auto simp: closed_by_call_def sliceable_def)

text \<open>
  The inline display crashes on some error messages: when a transfer fails with a message that
  has a character across its 40th byte, the slice of the first 40 bytes panics, and the display
  ends before it has shown this or any later outcome.
\<close>

theorem inline_display_panics:
  assumes "list_all (\<lambda>x. harmless (snd x)) pre" and "remote \<in> set names" and "\<not> sliceable error"
  shows "fst (run_inline fin names (pre @ (now, Some (RemoteFailed remote error)) # post)) =
    Some (Panic slice_panic)"
proof -
  have "\<not> pt_done (tracker_new names)" by (simp add: tracker_new_def)
  from inline_loop_harmless [OF assms(1) this, of fin "new_bars names" "(now, Some (RemoteFailed remote error)) # post"]
  obtain t bars where run: "run_inline fin names (pre @ (now, Some (RemoteFailed remote error)) # post) =
      inline_loop fin t bars ((now, Some (RemoteFailed remote error)) # post)" "map fst bars = map fst (new_bars names)"
    unfolding run_inline_def by blast
  have "remote \<in> set (map fst bars)"
    using assms(2) run(2) by (simp add: new_bars_def comp_def)
  then have "map_of bars remote \<noteq> None" by (simp add: map_of_eq_None_iff)
  with run(1) assms(3) show ?thesis by (simp add: slice_to_40_cases)
qed

lemma inline_display_panics_witness:
  "fst (run_inline closed_by_call [''a''] [(0, Some (RemoteStarted ''a'' 5)),
      (1, Some (RemoteFailed ''a'' (replicate 39 (CHR ''x'') @ [CHR 0xC3, CHR 0xA9])))]) =
   Some (Panic slice_panic)"
proof -
  let ?msg = "replicate 39 (CHR ''x'') @ [CHR 0xC3, CHR 0xA9]"
  have "?msg ! 40 = CHR 0xA9" by (simp add: nth_append)
  then have "\<not> sliceable ?msg" by (simp add: sliceable_def char_start_def Let_def)
  from inline_display_panics [OF _ _ this, of "[(0, Some (RemoteStarted ''a'' 5))]" "''a''" "[''a'']" closed_by_call 1 "[]"]
  show ?thesis by simp
qed

section \<open>The channel\<close>

datatype channel_step = Offer send_event | Take

text \<open>What the receiver got, and the channel afterwards.\<close>

fun channel_run :: "channel \<Rightarrow> channel_step list \<Rightarrow> send_event list \<times> channel" where
  "channel_run ch [] = ([], ch)"
| "channel_run ch (Offer e # steps) = channel_run (observer_call e ch) steps"
| "channel_run ch (Take # steps) =
     (case ch_queue ch of
        [] \<Rightarrow> channel_run ch steps
      | e # es \<Rightarrow> apfst (Cons e) (channel_run (ch\<lparr>ch_queue := es\<rparr>) steps))"

fun offered :: "channel_step list \<Rightarrow> send_event list" where
  "offered [] = []"
| "offered (Offer e # steps) = e # offered steps"
| "offered (Take # steps) = offered steps"

text \<open>The receiver keeps up when the channel is never full at an offer.\<close>

fun keeps_up :: "channel \<Rightarrow> channel_step list \<Rightarrow> bool" where
  "keeps_up ch [] = True"
| "keeps_up ch (Offer e # steps) \<longleftrightarrow>
     length (ch_queue ch) < ch_capacity ch \<and> keeps_up (observer_call e ch) steps"
| "keeps_up ch (Take # steps) = keeps_up (ch\<lparr>ch_queue := tl (ch_queue ch)\<rparr>) steps"

definition transfer_event :: "send_event \<Rightarrow> bool" where
  "transfer_event e \<longleftrightarrow> subject e \<noteq> None \<or> e = AllDone"

lemma observer_call_transfer: "transfer_event e \<Longrightarrow> observer_call e = try_send e"
  by (cases e) (simp_all add: transfer_event_def remote_started_def remote_progress_def remote_completed_def
      remote_failed_def remote_skipped_def remote_up_to_date_def all_done_def)

lemma observer_call_other: "\<not> transfer_event e \<Longrightarrow> observer_call e ch = ch"
  by (cases e) (simp_all add: transfer_event_def)

lemma channel_run_subseq:
  "channel_run ch steps = (got, ch') \<Longrightarrow> subseq (got @ ch_queue ch') (ch_queue ch @ offered steps)"
proof (induction ch steps arbitrary: got rule: channel_run.induct)
  case (2 ch e steps)
  have "subseq (got @ ch_queue ch') (ch_queue (observer_call e ch) @ offered steps)"
    using 2 by simp
  moreover have "subseq (ch_queue (observer_call e ch)) (ch_queue ch @ [e])"
    by (cases "transfer_event e") (auto simp: observer_call_transfer observer_call_other try_send_def)
  then have "subseq (ch_queue (observer_call e ch) @ offered steps) ((ch_queue ch @ [e]) @ offered steps)"
    by (rule list_emb_append_mono) simp
  ultimately show ?case
    using subseq_order.trans by fastforce
next
  case (3 ch steps)
  then show ?case by (auto split: list.splits prod.splits simp: apfst_def map_prod_def)
qed auto

lemma channel_run_keeps:
  "channel_run ch steps = (got, ch') \<Longrightarrow> ch_receiver ch \<Longrightarrow> keeps_up ch steps \<Longrightarrow>
   list_all transfer_event (offered steps) \<Longrightarrow> got @ ch_queue ch' = ch_queue ch @ offered steps"
proof (induction ch steps arbitrary: got rule: channel_run.induct)
  case (2 ch e steps)
  then show ?case by (auto simp: observer_call_transfer try_send_def)
next
  case (3 ch steps)
  have "ch\<lparr>ch_queue := []\<rparr> = ch" if "ch_queue ch = []" using that by (cases ch) simp
  with 3 show ?case by (cases "ch_queue ch") (auto split: prod.splits simp: apfst_def map_prod_def)
qed auto

text \<open>
  The channel between a transfer and its display is faithful: the display gets the events in
  the order in which the observer was called, none twice and none invented; and as long as the
  channel is open and never full at a call, it gets every one of them.
\<close>

theorem channel_faithful:
  assumes "channel_run ch steps = (got, ch')"
  shows "subseq (got @ ch_queue ch') (ch_queue ch @ offered steps) \<and>
    (ch_receiver ch \<and> keeps_up ch steps \<and> list_all transfer_event (offered steps) \<longrightarrow>
       got @ ch_queue ch' = ch_queue ch @ offered steps)"
  using channel_run_subseq [OF assms] channel_run_keeps [OF assms] by blast

lemma channel_faithful_witness:
  "\<exists>got ch'. channel_run \<lparr>ch_queue = [], ch_capacity = 256, ch_receiver = True\<rparr>
     [Offer (RemoteStarted ''a'' 5), Take, Offer (RemoteSkipped ''a'')] = (got, ch') \<and>
   got @ ch_queue ch' = [RemoteStarted ''a'' 5, RemoteSkipped ''a'']"
proof -
  let ?run = "channel_run \<lparr>ch_queue = [], ch_capacity = 256, ch_receiver = True\<rparr>
     [Offer (RemoteStarted ''a'' 5), Take, Offer (RemoteSkipped ''a'')]"
  obtain got ch' where run: "?run = (got, ch')" by fastforce
  have "got @ ch_queue ch' = [RemoteStarted ''a'' 5, RemoteSkipped ''a'']"
    using channel_faithful [OF run] by (simp add: transfer_event_def remote_started_def try_send_def)
  with run show ?thesis by blast
qed

lemma fill_channel:
  "list_all transfer_event es \<Longrightarrow>
   ch_queue (fold observer_call es \<lparr>ch_queue = q, ch_capacity = n, ch_receiver = True\<rparr>) =
     q @ take (n - length q) es"
proof (induction es arbitrary: q)
  case (Cons e es)
  then show ?case
    by (cases "length q < n")
      (simp_all add: observer_call_transfer try_send_def take_Cons' Suc_diff_Suc)
qed simp

text \<open>
  The end of a transfer can be lost: when the display does not read while 256 events are
  reported, every event after them is dropped, the final one included. The display then shows
  the transfer as still running, whatever became of it.
\<close>

theorem full_channel_loses_outcome:
  assumes "progresses = map (RemoteProgress k) sent" and "255 \<le> length sent" and "transfer_event final"
    and "k \<in> set names"
  shows "\<exists>events row. events = ch_queue (fold observer_call (RemoteStarted k total_bytes # progresses @ [final])
        \<lparr>ch_queue = [], ch_capacity = 256, ch_receiver = True\<rparr>) \<and>
      length events = 256 \<and>
      row_of k (fold (\<lambda>e. handle_send_event now e) events (for_transfer_with_tokens names tokens)) = Some row \<and>
      is_pending (rr_state row)"
proof -
  let ?events = "RemoteStarted k total_bytes # take 255 progresses"
  have "list_all transfer_event (RemoteStarted k total_bytes # progresses @ [final])"
    using assms by (simp add: list_all_iff transfer_event_def)
  from fill_channel [OF this, of "[]" 256]
  have queue: "ch_queue (fold observer_call (RemoteStarted k total_bytes # progresses @ [final])
      \<lparr>ch_queue = [], ch_capacity = 256, ch_receiver = True\<rparr>) = ?events"
    using assms(1,2) by (simp add: take_Cons')
  have keep: "\<exists>row'. fold (\<lambda>(t, e). map_option (row_step t e)) (map (Pair now) (map (RemoteProgress k) bs)) (Some row) =
      Some row' \<and> is_pending (rr_state row')" if "is_pending (rr_state row)" for bs row
    using that
  proof (induction bs arbitrary: row)
    case (Cons b bs)
    have "is_pending (rr_state (progress_row now b row))"
      using Cons.prems by (cases "rr_state row") (simp_all add: is_pending_def progress_row_def Let_def split: prod.split)
    from Cons.IH [OF this] show ?case by simp
  qed simp
  have "row_of k (fold (\<lambda>e. handle_send_event now e) ?events (for_transfer_with_tokens names tokens)) =
      row_of k (tui_display.shown (map (Pair now) ?events) (for_transfer_with_tokens names tokens))"
    by (simp add: tui_display.shown_def fold_map comp_def)
  also have "\<dots> = fold (\<lambda>(t, e). map_option (row_step t e)) (map (Pair now) (map (RemoteProgress k) (take 255 sent)))
      (Some (row_step now (RemoteStarted k total_bytes) (new_row k)))"
  proof -
    have "filter (\<lambda>x. subject (snd x) = Some k) (map (Pair now) ?events) = map (Pair now) ?events"
      using assms(1) by (auto simp: filter_id_conv take_map)
    then show ?thesis
      by (simp add: tui_display.row_shown row_of_new [OF assms(4)] assms(1) take_map)
  qed
  finally show ?thesis
    using keep [of "row_step now (RemoteStarted k total_bytes) (new_row k)" "take 255 sent"] queue assms(1,2)
    by (auto simp: is_pending_def)
qed

lemma full_channel_loses_outcome_witness:
  "\<exists>row. row_of ''a'' (fold (\<lambda>e. handle_send_event 0 e)
      (ch_queue (fold observer_call (RemoteStarted ''a'' 9 # map (RemoteProgress ''a'') (replicate 300 1) @ [RemoteFailed ''a'' ''lost''])
        \<lparr>ch_queue = [], ch_capacity = 256, ch_receiver = True\<rparr>))
      (for_transfer_with_tokens [''a''] [])) = Some row \<and> is_pending (rr_state row)"
  using full_channel_loses_outcome [OF refl, of "replicate 300 1" "RemoteFailed ''a'' ''lost''" "''a''" "[''a'']" 9 0 "[]"]
  unfolding length_replicate by (simp only: transfer_event_def subject.simps) auto

text \<open>
  A remote whose transfer is still active when the transfers are over has its bar abandoned with
  the hint to look at the logs, and the refresh that follows at once replaces the hint by the
  transfer's last progress.
\<close>

lemma map_of_on_bar:
  "map_of (on_bar remote calls bars) k =
     (if k = remote then map_option (\<lambda>cs. cs @ calls) (map_of bars k) else map_of bars k)"
  by (induction bars) (auto simp: on_bar_def)

lemma map_of_refresh_fold:
  "distinct (map fst es) \<Longrightarrow>
   map_of (fold (\<lambda>(name, entry). on_bar name (refresh_calls entry)) es bars) k =
     map_option (\<lambda>cs. cs @ (case map_of es k of None \<Rightarrow> [] | Some entry \<Rightarrow> refresh_calls entry)) (map_of bars k)"
proof (induction es arbitrary: bars)
  case (Cons x es)
  then have "map_of es (fst x) = None" by (simp add: map_of_eq_None_iff)
  with Cons show ?case
    by (cases x) (auto simp: map_of_on_bar option.map_comp comp_def option.map_ident split: option.split)
qed (simp add: option.map_ident)

text \<open>
  The hint that a transfer was not reached is never seen for a remote that is still active
  when the display ends: the last thing its bar is told is the progress of the transfer.
\<close>

theorem not_reached_hint_overwritten:
  assumes "distinct (map fst (pt_remotes t))" and "entry_of k t = Some entry"
    and "re_state entry = EntryActive bytes_sent total_bytes speed_bps eta_secs"
    and "map_of bars k = Some cs"
  shows "\<exists>bars' cs'. inline_loop fin t bars [(now, None)] = (Some (Ok ()), bars') \<and>
    map_of bars' k = Some cs' \<and>
    last cs' = SetMessage (fmt_bytes bytes_sent @ '' / '' @ fmt_bytes total_bytes @ ''  '' @
      fmt_speed speed_bps @ ''  '' @ fmt_eta eta_secs)"
proof -
  let ?close = "\<lambda>cs. if fin cs then cs else cs @ [AbandonWith not_reached]"
  let ?bars = "map (\<lambda>(n, cs). (n, ?close cs)) bars"
  have run: "inline_loop fin t bars [(now, None)] =
      (Some (Ok ()), refresh (t\<lparr>pt_done := True\<rparr>) ?bars)"
    by (simp add: is_done_def Let_def)
  have "map_of ?bars k = Some (?close cs)"
    using assms(4) by (simp add: map_of_map)
  then have "map_of (refresh (t\<lparr>pt_done := True\<rparr>) ?bars) k = Some (?close cs @ refresh_calls entry)"
    using assms(1,2) by (simp add: refresh_def map_of_refresh_fold entry_of_def)
  with run assms(3) show ?thesis
    by (simp add: refresh_calls_def)
qed

lemma not_reached_hint_overwritten_witness:
  "\<exists>bars' cs'. inline_loop closed_by_call
      \<lparr>pt_remotes = [(''a'', \<lparr>re_state = EntryActive 5 9 (Fin 0) None, re_last_progress = None\<rparr>)], pt_done = False\<rparr>
      [(''a'', [])] [(1, None)] = (Some (Ok ()), bars') \<and> map_of bars' ''a'' = Some cs' \<and>
    last cs' = SetMessage (fmt_bytes 5 @ '' / '' @ fmt_bytes 9 @ ''  '' @ fmt_speed (Fin 0) @ ''  '' @ fmt_eta None)"
  by (rule not_reached_hint_overwritten
      [where entry = "\<lparr>re_state = EntryActive 5 9 (Fin 0) None, re_last_progress = None\<rparr>" and cs = "[]"])
    (simp_all add: entry_of_def)

end
