(* ===== verification/Cli.thy ===== *)
theory Cli
  imports Prune Server Send Progress
begin

text \<open>
  The command line (\<open>src/main.rs\<close>): the version gate, the configuration paths, the sub-commands
  and what they print. \<open>clap\<close> has turned the arguments into a \<open>commands\<close> value. Environment
  variables, configuration files, the terminal and the texts that \<open>clap_complete\<close> and
  \<open>clap_mangen\<close> generate are a parameter; printing is a list of lines.
\<close>

section \<open>The arguments\<close>

datatype shell_choice = Bash | Zsh | Fish | Nushell | Elvish

datatype commands =
    Snapshot "string list"
  | ListSnaps "string option" bool
  | SendTo "string list" "string list" bool bool
  | PruneSnaps "string list" bool bool
  | Serve "string list"
  | Completions shell_choice
  | Man

record cli =
  cli_verbose :: bool
  cli_config :: "string option"
  cli_command :: commands

text \<open>What surrounds the process: two environment variables, the files, whether standard output is
  a terminal, what the countdown screen returns when it is shown some text, and the generated
  shell completions and manual page.\<close>

record host =
  ho_xdg_config_home :: "string option"
  ho_home :: "string option"
  ho_files :: config_files
  ho_tty :: bool
  ho_countdown :: "(string \<times> string list) list \<Rightarrow> bool res"
  ho_completions :: "shell_choice \<Rightarrow> string"
  ho_man :: "string + string"

text \<open>What the process has printed, and its exit code.\<close>

record outcome =
  oc_stdout :: "string list"
  oc_stderr :: "string list"
  oc_code :: nat

definition quiet :: outcome where
  "quiet = \<lparr>oc_stdout = [], oc_stderr = [], oc_code = 0\<rparr>"

definition quoted :: "string \<Rightarrow> string" where
  "quoted s = [CHR 0x22] @ s @ [CHR 0x22]"

definition validate_dataset :: "string \<Rightarrow> unit res" where
  "validate_dataset ds =
     (if prefix ''/'' ds
      then Err (Message (''invalid dataset '' @ quoted ds @ '': ZFS dataset paths must not start with '' @ quoted ''/''))
      else Ok ())"

text \<open>\<open>PathBuf::join\<close>.\<close>

definition path_join :: "string \<Rightarrow> string \<Rightarrow> string" where
  "path_join p q =
     (if prefix ''/'' q then q
      else if p = [] \<or> last p = CHR ''/'' then p @ q else p @ ''/'' @ q)"

definition xdg_config_home :: "host \<Rightarrow> string" where
  "xdg_config_home H =
     (case ho_xdg_config_home H of
        Some p \<Rightarrow> p
      | None \<Rightarrow> (case ho_home H of Some h \<Rightarrow> path_join h ''.config'' | None \<Rightarrow> ''.config''))"

definition default_source_config :: "host \<Rightarrow> string" where
  "default_source_config H = path_join (xdg_config_home H) ''zrb/config.toml''"

definition default_server_config :: "host \<Rightarrow> string" where
  "default_server_config H = path_join (xdg_config_home H) ''zrb/server.toml''"

section \<open>The version gate\<close>

definition parse_zfs_version_line :: "string \<Rightarrow> string + nat \<times> nat \<times> nat" where
  "parse_zfs_version_line line =
     (let bad = Inl (''unexpected zfs version format: '' @ line)
      in case strip_prefix ''zfs-'' line of
           None \<Rightarrow> bad
         | Some rest \<Rightarrow>
             (case split_char (CHR ''.'') (hd (split_char (CHR ''-'') rest)) of
                a # b # c # _ \<Rightarrow>
                  (case (parse_uint u32_max a, parse_uint u32_max b, parse_uint u32_max c) of
                     (Some major, Some minor, Some patch) \<Rightarrow> Inr (major, minor, patch)
                   | _ \<Rightarrow> bad)
              | _ \<Rightarrow> bad))"

text \<open>\<open>str::trim_start_matches\<close>.\<close>

function trim_start_matches :: "string \<Rightarrow> string \<Rightarrow> string" where
  "trim_start_matches p s =
     (if p \<noteq> [] \<and> prefix p s then trim_start_matches p (drop (length p) s) else s)"
  by pat_completeness auto
termination
  by (relation "measure (\<lambda>(p, s). length s)") (auto simp: prefix_def)

declare trim_start_matches.simps [simp del]

definition first_line :: "string \<Rightarrow> string" where
  "first_line stdout = trim (case lines stdout of l # _ \<Rightarrow> l | [] \<Rightarrow> [])"

definition check_zfs_version :: "'w os \<Rightarrow> ('w, unit) io" where
  "check_zfs_version S =
     (let undetermined = (\<lambda>e. Message (''could not determine zfs version: '' @ e))
      in io_match (command_output S [''version''])
           (\<lambda>(stdout, stderr).
              case parse_zfs_version_line (first_line stdout) of
                Inl e \<Rightarrow> io_fail (undetermined e)
              | Inr (major, minor, patch) \<Rightarrow>
                  if major < 2 \<or> major = 2 \<and> minor < 3
                  then io_fail (Message (''zrb requires zfs >= 2.3.0, found '' @
                         trim_start_matches ''zfs-'' (first_line stdout)))
                  else io_return ())
           (\<lambda>e. io_fail (undetermined (display_err e))))"

section \<open>Printing\<close>

text \<open>Groups are separated by an empty line.\<close>

fun print_grouped :: "(string \<times> string list) list \<Rightarrow> string list" where
  "print_grouped [] = []"
| "print_grouped [(dataset, snaps)] = dataset # map (\<lambda>s. ''  '' @ s) snaps"
| "print_grouped ((dataset, snaps) # groups) =
     dataset # map (\<lambda>s. ''  '' @ s) snaps @ [] # print_grouped groups"

datatype dry_run_entry = Keep string keep_reason | Delete string

definition dry_run_line :: "dry_run_entry \<Rightarrow> string" where
  "dry_run_line entry =
     (case entry of
        Keep name reason \<Rightarrow>
          ''  '' @ [CHR 0xE2, CHR 0x9C, CHR 0x93] @ '' '' @ pad_right 9 (keep_reason_str reason) @ '' '' @ name
      | Delete name \<Rightarrow> ''  '' @ [CHR 0xE2, CHR 0x9C, CHR 0x97] @ ''           '' @ name)"

definition dry_run_entries :: "chrono \<Rightarrow> prune_result \<Rightarrow> (datetime option \<times> dry_run_entry) list" where
  "dry_run_entries C result =
     sort_key fst
       (map (\<lambda>(s, r). (parse C s, Keep s r)) (pr_kept result) @
        map (\<lambda>s. (parse C s, Delete s)) (pr_deleted result))"

definition pause :: string where
  "pause = [CHR 0xE2, CHR 0x8F, CHR 0xB8]"

text \<open>The first entry of each held snapshot.\<close>

fun held_lines :: "string set \<Rightarrow> (string \<times> string) list \<Rightarrow> string list" where
  "held_lines seen [] = []"
| "held_lines seen ((snap, tag) # rest) =
     (if snap \<in> seen then held_lines seen rest
      else (''  '' @ pause @ '' held       '' @ snap @ '' ('' @ tag @ '')'') # held_lines (insert snap seen) rest)"

definition dry_run_group :: "chrono \<Rightarrow> string \<times> prune_result \<Rightarrow> string list" where
  "dry_run_group C g =
     (case g of (dataset, result) \<Rightarrow>
        dataset #
        (if pr_resume_skipped result
         then [''  '' @ pause @ '' skipped '' @ dash @ '' resume transfer in progress'']
         else map (\<lambda>(ts, entry). dry_run_line entry) (dry_run_entries C result) @ held_lines {} (pr_hold_skipped result)))"

fun print_prune_dry_run :: "chrono \<Rightarrow> (string \<times> prune_result) list \<Rightarrow> string list" where
  "print_prune_dry_run C [] = []"
| "print_prune_dry_run C [g] = dry_run_group C g"
| "print_prune_dry_run C (g # gs) = dry_run_group C g @ [] # print_prune_dry_run C gs"

section \<open>The sub-commands\<close>

definition resolve_datasets :: "string list \<Rightarrow> source_config \<Rightarrow> string list" where
  "resolve_datasets explicit config = (if explicit = [] then source_configured_datasets config else explicit)"

definition validate_all :: "string list \<Rightarrow> ('w, unit) io" where
  "validate_all datasets = io_for datasets (\<lambda>ds. io_res (validate_dataset ds))"

definition config_path :: "cli \<Rightarrow> string \<Rightarrow> string" where
  "config_path c dflt = (case cli_config c of Some p \<Rightarrow> p | None \<Rightarrow> dflt)"

definition load_valid_source :: "host \<Rightarrow> string \<Rightarrow> source_config res" where
  "load_valid_source H path =
     (case load_source (ho_files H) path of Ok config \<Rightarrow> validate config | Err e \<Rightarrow> Err e | Panic p \<Rightarrow> Panic p)"

fun snapshot_loop :: "'w os \<Rightarrow> chrono \<Rightarrow> string list \<Rightarrow> ('w, string list) io" where
  "snapshot_loop S C [] = io_return []"
| "snapshot_loop S C (ds # dss) =
     io_match (snapshot S C ds) (\<lambda>name. snapshot_loop S C dss)
       (\<lambda>e. io_bind (snapshot_loop S C dss) (\<lambda>errors.
              io_return ((''error: snapshot '' @ ds @ '': '' @ display_err e) # errors)))"

definition cmd_snapshot :: "'w os \<Rightarrow> chrono \<Rightarrow> host \<Rightarrow> cli \<Rightarrow> string list \<Rightarrow> ('w, outcome) io" where
  "cmd_snapshot S C H c datasets =
     io_bind (validate_all datasets) (\<lambda>_.
     io_bind (io_res (load_valid_source H (config_path c (default_source_config H)))) (\<lambda>config.
     io_bind (snapshot_loop S C (resolve_datasets datasets config)) (\<lambda>errors.
       io_return \<lparr>oc_stdout = [], oc_stderr = errors, oc_code = (if errors = [] then 0 else 1)\<rparr>)))"

definition cmd_list :: "'w os \<Rightarrow> chrono \<Rightarrow> string option \<Rightarrow> bool \<Rightarrow> ('w, outcome) io" where
  "cmd_list S C dataset recursive =
     io_bind (validate_all (case dataset of None \<Rightarrow> [] | Some ds \<Rightarrow> [ds])) (\<lambda>_.
     io_bind (case dataset of
                None \<Rightarrow> list_all_zrb S C
              | Some ds \<Rightarrow>
                  if recursive then list_recursive S C ds
                  else io_bind (list_zrb S C ds) (\<lambda>snaps. io_return [(ds, snaps)])) (\<lambda>groups.
       io_return (quiet\<lparr>oc_stdout := print_grouped groups\<rparr>)))"

text \<open>The rows of the display: one for each remote that will be sent to.\<close>

definition chosen_remotes :: "source_config \<Rightarrow> string list option \<Rightarrow> string \<Rightarrow> string list" where
  "chosen_remotes config filt ds =
     (case map_of (sc_datasets config) ds of
        None \<Rightarrow> []
      | Some targets \<Rightarrow> filter (\<lambda>n. case filt of None \<Rightarrow> True | Some f \<Rightarrow> n \<in> set f) (map fst targets))"

definition arrow :: string where
  "arrow = '' '' @ [CHR 0xE2, CHR 0x86, CHR 0x92] @ '' ''"

definition row_keys :: "source_config \<Rightarrow> string list option \<Rightarrow> string list \<Rightarrow> string list" where
  "row_keys config filt datasets =
     sort (concat (map (\<lambda>ds. map (\<lambda>r. ds @ arrow @ r) (chosen_remotes config filt ds)) datasets))"

definition display_info :: "source_config \<Rightarrow> string list option \<Rightarrow> string list \<Rightarrow> (string \<times> string list) list" where
  "display_info config filt datasets = map (\<lambda>ds. (ds, sort (chosen_remotes config filt ds))) datasets"

text \<open>
  Sending with a display: the screen, the progress bars, or plain lines. \<open>pressed key k\<close> says
  whether the user has cancelled the transfer of a row by its \<open>k\<close>-th chunk (the tokens of the map
  are shared with the screen), and \<open>await_task d\<close> waits for the task of the display \<open>d\<close>.
\<close>

datatype display = RunTransfer "string list" | RunInline "string list" | RunPlain

definition run_send ::
    "'w os \<Rightarrow> chrono \<Rightarrow> json_api \<Rightarrow> ('w, unit) io \<Rightarrow> string list \<Rightarrow> string list option \<Rightarrow> source_config \<Rightarrow>
     bool \<Rightarrow> cancel_map option \<Rightarrow> ('w, unit) io" where
  "run_send S C J await_task datasets filt config sequential cm =
     io_bind (send S C J datasets filt config sequential True cm) (\<lambda>_. await_task)"

definition cmd_send ::
    "'w os \<Rightarrow> chrono \<Rightarrow> json_api \<Rightarrow> host \<Rightarrow> (string \<Rightarrow> nat \<Rightarrow> bool) \<Rightarrow> (display \<Rightarrow> ('w, unit) io) \<Rightarrow> cli \<Rightarrow>
     string list \<Rightarrow> string list \<Rightarrow> bool \<Rightarrow> bool \<Rightarrow> ('w, outcome) io" where
  "cmd_send S C J H pressed await_task c explicit remotes sequential with_tui =
     io_bind (validate_all explicit) (\<lambda>_.
     io_bind (io_res (load_valid_source H (config_path c (default_source_config H)))) (\<lambda>config.
     let datasets = resolve_datasets explicit config;
         filt = (if remotes = [] then None else Some remotes);
         keys = row_keys config filt datasets
     in if with_tui
        then if \<not> ho_tty H
             then io_fail (Message (''--tui requires a controlling TTY; stdout is not a terminal '' @
                                    ''(piped or redirected)''))
             else io_bind (io_res (ho_countdown H (display_info config filt datasets))) (\<lambda>proceed.
                  if \<not> proceed then io_return quiet
                  else io_bind (run_send S C J (await_task (RunTransfer keys)) datasets filt config sequential
                                  (Some (map (\<lambda>k. (k, pressed k)) (remdups keys))))
                         (\<lambda>_. io_return quiet))
        else io_bind (run_send S C J (await_task (if ho_tty H then RunInline keys else RunPlain))
                        datasets filt config sequential None)
               (\<lambda>_. io_return quiet)))"

text \<open>The server's configuration takes priority; when it cannot be loaded, the source's is tried.\<close>

definition prune_config :: "host \<Rightarrow> string \<Rightarrow> (retention_config \<times> u32 option \<times> string list) res" where
  "prune_config H path =
     (case load_server (ho_files H) path of
        Ok config \<Rightarrow> Ok (sv_retention config, Some (resume_hold_days config), server_configured_datasets config)
      | Panic p \<Rightarrow> Panic p
      | Err _ \<Rightarrow>
          (case load_source (ho_files H) path of
             Ok config \<Rightarrow> Ok (sc_retention config, None, source_configured_datasets config)
           | Err e \<Rightarrow> Err e
           | Panic p \<Rightarrow> Panic p))"

definition cmd_prune ::
    "'w os \<Rightarrow> chrono \<Rightarrow> host \<Rightarrow> cli \<Rightarrow> string list \<Rightarrow> bool \<Rightarrow> bool \<Rightarrow> ('w, outcome) io" where
  "cmd_prune S C H c datasets dry_run abort_res =
     io_bind (validate_all datasets) (\<lambda>_.
     io_bind (io_res (prune_config H (config_path c (default_source_config H)))) (\<lambda>(retention, hold_days, configured).
     let targets = (if datasets = [] then configured else datasets)
     in io_bind (io_map (\<lambda>ds. io_bind (prune S C ds retention hold_days dry_run abort_res)
                               (\<lambda>result. io_return (ds, result))) targets) (\<lambda>results.
          io_return (quiet\<lparr>oc_stdout := (if dry_run then print_prune_dry_run C results else [])\<rparr>))))"

definition cmd_server ::
    "'w os \<Rightarrow> chrono \<Rightarrow> json_api \<Rightarrow> host \<Rightarrow> (nat \<Rightarrow> bool) \<Rightarrow> cli \<Rightarrow> string list \<Rightarrow> ('w, outcome) io" where
  "cmd_server S C J H hup c clients =
     io_bind (io_res (load_server (ho_files H) (config_path c (default_server_config H)))) (\<lambda>config.
     io_bind (server S C J config clients hup) (\<lambda>_. io_return quiet))"

text \<open>The generated texts are printed as they are.\<close>

definition cmd_man :: "host \<Rightarrow> ('w, outcome) io" where
  "cmd_man H =
     (case ho_man H of
        Inl e \<Rightarrow> io_fail (Message e)
      | Inr txt \<Rightarrow> io_return (quiet\<lparr>oc_stdout := [txt]\<rparr>))"

definition needs_zfs :: "commands \<Rightarrow> bool" where
  "needs_zfs c = (case c of Completions shell \<Rightarrow> False | Man \<Rightarrow> False | _ \<Rightarrow> True)"

definition run_cli ::
    "'w os \<Rightarrow> chrono \<Rightarrow> json_api \<Rightarrow> host \<Rightarrow> (string \<Rightarrow> nat \<Rightarrow> bool) \<Rightarrow> (display \<Rightarrow> ('w, unit) io) \<Rightarrow>
     (nat \<Rightarrow> bool) \<Rightarrow> cli \<Rightarrow> ('w, outcome) io" where
  "run_cli S C J H pressed await_task hup c =
     io_bind (if needs_zfs (cli_command c) then check_zfs_version S else io_return ()) (\<lambda>_.
     case cli_command c of
       Snapshot datasets \<Rightarrow> cmd_snapshot S C H c datasets
     | ListSnaps dataset recursive \<Rightarrow> cmd_list S C dataset recursive
     | SendTo datasets remotes sequential with_tui \<Rightarrow>
         cmd_send S C J H pressed await_task c datasets remotes sequential with_tui
     | PruneSnaps datasets dry_run abort_res \<Rightarrow> cmd_prune S C H c datasets dry_run abort_res
     | Serve clients \<Rightarrow> cmd_server S C J H hup c clients
     | Completions shell \<Rightarrow> io_return (quiet\<lparr>oc_stdout := [ho_completions H shell]\<rparr>)
     | Man \<Rightarrow> cmd_man H)"

text \<open>
  \<open>{e:#}\<close>: an error with all its contexts and sources. The errors that wrap another one
  name it in their own message already, so its text appears twice.
\<close>

fun display_chain :: "err \<Rightarrow> string" where
  "display_chain (WithContext m e) = m @ '': '' @ display_chain e"
| "display_chain (JsonParse e) = display_err (JsonParse e) @ '': '' @ e"
| "display_chain (Io e) = display_err (Io e) @ '': '' @ e"
| "display_chain (Json e) = display_err (Json e) @ '': '' @ e"
| "display_chain (SshSpawn d e) = display_err (SshSpawn d e) @ '': '' @ e"
| "display_chain (ConfigIo e) = display_err (ConfigIo e) @ '': '' @ e"
| "display_chain (ConfigToml e) = display_err (ConfigToml e) @ '': '' @ e"
| "display_chain e = display_err e"

definition main ::
    "'w os \<Rightarrow> chrono \<Rightarrow> json_api \<Rightarrow> host \<Rightarrow> (string \<Rightarrow> nat \<Rightarrow> bool) \<Rightarrow> (display \<Rightarrow> ('w, unit) io) \<Rightarrow>
     (nat \<Rightarrow> bool) \<Rightarrow> cli \<Rightarrow> ('w, outcome) io" where
  "main S C J H pressed await_task hup c =
     io_match (run_cli S C J H pressed await_task hup c) io_return
       (\<lambda>e. io_return \<lparr>oc_stdout = [], oc_stderr = [''error: '' @ display_chain e], oc_code = 1\<rparr>)"

section \<open>The version gate is right\<close>

lemma nat_str_no: "c \<notin> set ''0123456789'' \<Longrightarrow> c \<notin> set (nat_str n)"
  using set_nat_str by blast

lemma dotted_triple:
  "split_char (CHR ''.'') (nat_str a @ ''.'' @ nat_str b @ ''.'' @ nat_str c) = [nat_str a, nat_str b, nat_str c]"
  using split_char_append [of "CHR ''.''" "nat_str a" "nat_str b @ ''.'' @ nat_str c"]
    split_char_append [of "CHR ''.''" "nat_str b" "nat_str c"]
    split_char_absent [of "CHR ''.''" "nat_str c"]
  by (simp add: nat_str_no)

definition version_line :: "nat \<Rightarrow> nat \<Rightarrow> nat \<Rightarrow> string \<Rightarrow> string" where
  "version_line a b c sfx = ''zfs-'' @ nat_str a @ ''.'' @ nat_str b @ ''.'' @ nat_str c @ sfx"

lemma version_line_head:
  assumes "sfx = [] \<or> hd sfx = CHR ''-''"
  shows "hd (split_char (CHR ''-'') (nat_str a @ ''.'' @ nat_str b @ ''.'' @ nat_str c @ sfx)) =
    nat_str a @ ''.'' @ nat_str b @ ''.'' @ nat_str c"
proof -
  let ?v = "nat_str a @ ''.'' @ nat_str b @ ''.'' @ nat_str c"
  have v: "CHR ''-'' \<notin> set ?v" by (simp add: nat_str_no)
  show ?thesis
  proof (cases sfx)
    case Nil
    with split_char_absent [OF v] show ?thesis by simp
  next
    case (Cons x xs)
    with assms split_char_append [OF v, of xs] show ?thesis by simp
  qed
qed

lemma parse_version_line:
  assumes "a \<le> u32_max" "b \<le> u32_max" "c \<le> u32_max" and "sfx = [] \<or> hd sfx = CHR ''-''"
  shows "parse_zfs_version_line (version_line a b c sfx) = Inr (a, b, c)"
proof -
  have "strip_prefix ''zfs-'' (version_line a b c sfx) =
      Some (nat_str a @ ''.'' @ nat_str b @ ''.'' @ nat_str c @ sfx)"
    unfolding version_line_def by (rule strip_prefix_append)
  then show ?thesis
    unfolding parse_zfs_version_line_def Let_def
    by (simp only: option.case version_line_head [OF assms(4)] dotted_triple list.case
        parse_uint_nat_str [OF assms(1)] parse_uint_nat_str [OF assms(2)] parse_uint_nat_str [OF assms(3)]
        prod.case)
qed

lemma solid_digit: "d \<in> set ''0123456789'' \<Longrightarrow> solid d"
  by (auto simp: solid_def ws_seqs_def)

lemma first_line_version:
  assumes "newline \<notin> set sfx" and "sfx = [] \<or> solid (last sfx)"
  shows "first_line (version_line a b c sfx @ newline # rest) = version_line a b c sfx"
proof -
  let ?l = "version_line a b c sfx"
  obtain ds d where d: "nat_str c = ds @ [d]" "d \<in> set ''0123456789''" by (rule nat_str_snoc)
  have last: "solid (last ?l)"
    using assms(2) d solid_digit by (cases "sfx = []") (auto simp: version_line_def)
  have "newline \<notin> set ?l"
    using assms(1) by (simp add: version_line_def nat_str_no)
  moreover have "strip_cr ?l = ?l"
    using last by (auto simp: strip_cr_def solid_def ws_seqs_def)
  moreover have "trim ?l = ?l"
    by (rule trim_solid) (use last in \<open>simp_all add: version_line_def solid_def ws_seqs_def\<close>)
  ultimately show ?thesis by (simp add: first_line_def)
qed

text \<open>
  C34. The version gate is right for every version that \<open>zfs version\<close> prints in its usual form,
  with any suffix and any further lines: exactly the versions from 2.3.0 on are accepted, compared
  as numbers, the others are rejected with the version that was found, and the check starts
  nothing else and changes nothing.
\<close>

theorem zfs_version_gate:
  assumes "zfs_output S [''version''] (env s) =
      (Exited success (version_line a b c sfx @ newline # rest) stderr, w)"
    and "a \<le> u32_max" "b \<le> u32_max" "c \<le> u32_max"
    and "sfx = [] \<or> hd sfx = CHR ''-'' \<and> newline \<notin> set sfx \<and> solid (last sfx)"
  shows "check_zfs_version S s =
    (if 2 < a \<or> a = 2 \<and> 3 \<le> b then Ok ()
     else Err (Message (''zrb requires zfs >= 2.3.0, found '' @
       nat_str a @ ''.'' @ nat_str b @ ''.'' @ nat_str c @ sfx)),
     s\<lparr>env := w, cmds := cmds s @ [[''version'']]\<rparr>)"
proof -
  have sfx: "newline \<notin> set sfx" "sfx = [] \<or> solid (last sfx)" "sfx = [] \<or> hd sfx = CHR ''-''"
    using assms(5) by auto
  obtain d ds where d: "nat_str a = d # ds" "d \<in> set ''0123456789''" by (rule nat_str_Cons)
  have "trim_start_matches ''zfs-'' (version_line a b c sfx) =
      nat_str a @ ''.'' @ nat_str b @ ''.'' @ nat_str c @ sfx"
  proof -
    have "trim_start_matches ''zfs-'' (''zfs-'' @ x) = trim_start_matches ''zfs-'' x" for x
      by (subst trim_start_matches.simps) simp
    moreover have "trim_start_matches ''zfs-'' (d # ds @ x) = d # ds @ x" for x
      using d(2) by (subst trim_start_matches.simps) auto
    ultimately show ?thesis by (simp add: version_line_def d(1))
  qed
  then show ?thesis
    using assms(1) parse_version_line [OF assms(2-4) sfx(3)] first_line_version [OF sfx(1,2)]
    by (auto simp: check_zfs_version_def Let_def io_match_def command_output_def io_fail_def io_return_def)
qed

definition version_os :: "string \<Rightarrow> unit os" where
  "version_os answer = static_os (\<lambda>_. Exited True answer []) (\<lambda>_. Inl ''no json'') (DateTime 0)"

lemma zfs_version_gate_witness:
  "fst (check_zfs_version (version_os (version_line 2 2 7 ''-1'' @ newline # ''zfs-kmod-2.2.7-1'')) st0) =
     Err (Message (''zrb requires zfs >= 2.3.0, found '' @ nat_str 2 @ ''.'' @ nat_str 2 @ ''.'' @ nat_str 7 @ ''-1''))"
  using zfs_version_gate [of "version_os (version_line 2 2 7 ''-1'' @ newline # ''zfs-kmod-2.2.7-1'')" st0 True 2 2 7
      "''-1''" "''zfs-kmod-2.2.7-1''" "[]" "()"]
  by (simp add: version_os_def st0_def u32_max_def solid_def ws_seqs_def)

section \<open>What a command may start\<close>

definition send_command :: "string list \<Rightarrow> bool" where
  "send_command argv \<longleftrightarrow> read_only argv \<or> (\<exists>args. argv = ''send'' # args) \<or>
     (\<exists>remote snap. argv = [''hold'', transfer_tag remote, snap] \<or> argv = [''release'', transfer_tag remote, snap])"

text \<open>The processes of each sub-command, besides \<open>zfs version\<close>.\<close>

definition cli_command_may :: "host \<Rightarrow> cli \<Rightarrow> string list \<Rightarrow> bool" where
  "cli_command_may H c argv \<longleftrightarrow>
     (case cli_command c of
        Completions shell \<Rightarrow> False
      | Man \<Rightarrow> False
      | Snapshot datasets \<Rightarrow> \<exists>name. argv = [''snapshot'', name]
      | ListSnaps dataset recursive \<Rightarrow> read_only argv
      | SendTo datasets remotes sequential with_tui \<Rightarrow> send_command argv
      | PruneSnaps datasets dry_run abort_res \<Rightarrow>
          read_only argv \<or> \<not> dry_run \<and> (\<exists>ds. prune_command ds argv)
      | Serve clients \<Rightarrow>
          \<exists>config target opts. load_server (ho_files H) (config_path c (default_server_config H)) = Ok config \<and>
            allowed config clients target opts \<and> server_command target opts argv)"

lemma send_command_send [simp]: "send_command (''send'' # args)"
  by (simp add: send_command_def)

lemma emits_validate_all [emits_intro]: "emits P (validate_all datasets)"
  by (auto simp: validate_all_def intro!: emits_intro)

lemma emits_snapshot_loop: "emits (\<lambda>argv. \<exists>name. argv = [''snapshot'', name]) (snapshot_loop S C datasets)"
  by (induction datasets)
    (auto simp: snapshot_def create_snapshot_def io_expect_def Let_def intro!: emits_intro split: option.split)

lemma emits_cmd_snapshot: "emits (\<lambda>argv. \<exists>name. argv = [''snapshot'', name]) (cmd_snapshot S C H c datasets)"
  by (auto simp: cmd_snapshot_def intro!: emits_intro emits_snapshot_loop)

lemma emits_cmd_list: "emits read_only (cmd_list S C dataset recursive)"
  unfolding cmd_list_def list_all_zrb_def list_recursive_def list_each_def
  by (auto intro!: emits_intro)

lemma emits_send_to_remote [emits_intro]: "emits send_command (send_to_remote S J ctx)"
proof -
  have "emits send_command (place_transfer_hold S dataset snap remote)" for dataset snap remote
    by (rule emits_place_transfer_hold) (auto simp: send_command_def read_only_def)
  moreover have "emits send_command (send_on S J latest snaps cfg target client key progress cancel)"
    for latest snaps cfg target client key progress cancel
    by (rule emits_send_on) simp
  ultimately show ?thesis
    unfolding send_to_remote_def by (auto intro!: emits_intro simp: io_elapsed_def)
qed

lemma emits_run_tasks [emits_intro]: "(\<And>t. t \<in> set ts \<Longrightarrow> emits P t) \<Longrightarrow> emits P (run_tasks ts b)"
  by (induction ts arbitrary: b) (auto intro!: emits_intro)

lemma emits_join_tasks [emits_intro]: "(\<And>t. t \<in> set ts \<Longrightarrow> emits P t) \<Longrightarrow> emits P (join_tasks ts b)"
  by (induction ts arbitrary: b) (auto intro!: emits_intro)

lemma emits_dispatch_tasks [emits_intro]:
  "emits send_command (dispatch_tasks S J latest snaps client tasks sequential progress cm)"
  by (auto simp: dispatch_tasks_def Let_def intro!: emits_intro)

lemma emits_send_one_dataset [emits_intro]:
  "emits send_command (send_one_dataset S C J ds config filt sequential progress cm)"
  unfolding send_one_dataset_def
  by (auto intro!: emits_intro simp: send_command_def read_only_def split: option.split)

lemma emits_send_sequential [emits_intro]: "(\<And>ds. emits P (one ds)) \<Longrightarrow> emits P (send_sequential one dss b)"
  by (induction dss arbitrary: b) (auto intro!: emits_intro)

lemma emits_send_parallel [emits_intro]: "(\<And>ds. emits P (one ds)) \<Longrightarrow> emits P (send_parallel one dss b)"
  by (induction dss arbitrary: b) (auto intro!: emits_intro split: res.split)

lemma emits_send [emits_intro]:
  "emits send_command (send S C J datasets filt config sequential progress cm)"
  by (auto simp: send_def Let_def intro!: emits_intro)

lemma emits_cmd_send:
  assumes "\<And>P d. emits P (await_task d)"
  shows "emits send_command (cmd_send S C J H pressed await_task c datasets remotes sequential with_tui)"
proof -
  have "emits send_command (run_send S C J (await_task d) ds filt config sequential cm)"
    for d ds filt config sequential cm
    unfolding run_send_def by (intro emits_intro assms)
  then show ?thesis unfolding cmd_send_def Let_def by (auto intro!: emits_intro)
qed

lemma emits_cmd_prune:
  "emits (\<lambda>argv. read_only argv \<or> \<not> dry_run \<and> (\<exists>ds. prune_command ds argv))
     (cmd_prune S C H c datasets dry_run abort_res)" (is "emits ?Q _")
proof -
  have "emits ?Q (prune S C ds retention hold_days dry_run abort_res)" for ds retention hold_days
    by (rule emits_mono [OF emits_prune]) blast
  then show ?thesis unfolding cmd_prune_def Let_def by (auto intro!: emits_intro split: prod.split)
qed

lemma emits_cmd_server:
  "emits (\<lambda>argv. \<exists>config target opts. load_server (ho_files H) (config_path c (default_server_config H)) = Ok config \<and>
     allowed config clients target opts \<and> server_command target opts argv) (cmd_server S C J H hup c clients)"
  (is "emits ?Q _")
  unfolding cmd_server_def
proof (rule emits_bind_result [OF emits_res])
  fix config s s'
  assume "io_res (load_server (ho_files H) (config_path c (default_server_config H))) s = (Ok config, s')"
  then have "load_server (ho_files H) (config_path c (default_server_config H)) = Ok config"
    by (simp add: io_res_def)
  then have "emits ?Q (server S C J config clients hup)"
    unfolding server_def by (intro emits_mono [OF emits_run_server_on]) blast
  then show "emits ?Q (io_bind (server S C J config clients hup) (\<lambda>_. io_return quiet))"
    by (intro emits_intro)
qed

text \<open>
  C9. No sub-command oversteps: after the version check, \<open>list\<close> and a dry run of \<open>prune\<close> only
  report, \<open>snapshot\<close> only takes snapshots, \<open>send\<close> only reports, sends and moves its own holds,
  and \<open>server\<close> only acts on a dataset that the loaded configuration allows to a permitted client.
  Only \<open>prune\<close> without the dry-run flag destroys anything, and then only single snapshots
  with a \<open>zrb-\<close> name. Completions and the manual page start nothing at all, not even the version
  check. Waiting for the display is assumed to start nothing.
\<close>

theorem cli_commands_allowed:
  assumes "\<And>P d. emits P (await_task d)"
  shows "emits (\<lambda>argv. argv = [''version''] \<and> needs_zfs (cli_command c) \<or> cli_command_may H c argv)
    (main S C J H pressed await_task hup c)"
proof -
  let ?P = "\<lambda>argv. argv = [''version''] \<and> needs_zfs (cli_command c) \<or> cli_command_may H c argv"
  have check: "emits ?P (check_zfs_version S)" if "needs_zfs (cli_command c)"
    using that unfolding check_zfs_version_def Let_def by (auto intro!: emits_intro split: sum.split)
  have "emits ?P (case cli_command c of
       Snapshot datasets \<Rightarrow> cmd_snapshot S C H c datasets
     | ListSnaps dataset recursive \<Rightarrow> cmd_list S C dataset recursive
     | SendTo datasets remotes sequential with_tui \<Rightarrow>
         cmd_send S C J H pressed await_task c datasets remotes sequential with_tui
     | PruneSnaps datasets dry_run abort_res \<Rightarrow> cmd_prune S C H c datasets dry_run abort_res
     | Serve clients \<Rightarrow> cmd_server S C J H hup c clients
     | Completions shell \<Rightarrow> io_return (quiet\<lparr>oc_stdout := [ho_completions H shell]\<rparr>)
     | Man \<Rightarrow> cmd_man H)"
  proof (cases "cli_command c")
    case (Completions shell)
    then show ?thesis by (auto intro!: emits_intro)
  next
    case Man
    then show ?thesis by (auto simp: cmd_man_def intro!: emits_intro split: sum.split)
  next
    case (Snapshot datasets)
    with emits_mono [OF emits_cmd_snapshot, of ?P] show ?thesis by (auto simp: cli_command_may_def)
  next
    case (ListSnaps dataset recursive)
    with emits_mono [OF emits_cmd_list, of ?P] show ?thesis by (auto simp: cli_command_may_def)
  next
    case (SendTo datasets remotes sequential with_tui)
    with emits_mono [OF emits_cmd_send [OF assms], where Q = ?P] show ?thesis by (auto simp: cli_command_may_def)
  next
    case (PruneSnaps datasets dry_run abort_res)
    with emits_mono [OF emits_cmd_prune [of dry_run S C H c datasets abort_res], where Q = ?P] show ?thesis by (auto simp: cli_command_may_def)
  next
    case (Serve clients)
    with emits_mono [OF emits_cmd_server [of H c clients S C J hup], where Q = ?P] show ?thesis by (auto simp: cli_command_may_def)
  qed
  with check show ?thesis
    unfolding main_def run_cli_def by (intro emits_intro)
qed

lemma cli_commands_allowed_witness:
  "list_all (\<lambda>argv. argv = [''version''] \<or> read_only argv)
     (drop 0 (cmds (snd (main (version_os ''zfs-2.3.0'') gregorian example_json
        \<lparr>ho_xdg_config_home = None, ho_home = None,
         ho_files = \<lparr>cf_read = (\<lambda>_. Inl ''no file''), cf_source = (\<lambda>_. Inl []), cf_server = (\<lambda>_. Inl [])\<rparr>,
         ho_tty = False, ho_countdown = (\<lambda>_. Ok True), ho_completions = (\<lambda>_. []), ho_man = Inr []\<rparr>
        (\<lambda>_ _. False) (\<lambda>_. io_return ()) (\<lambda>_. False)
        \<lparr>cli_verbose = False, cli_config = None, cli_command = ListSnaps None False\<rparr> st0))))"
proof -
  let ?H = "\<lparr>ho_xdg_config_home = None, ho_home = None,
         ho_files = \<lparr>cf_read = (\<lambda>_. Inl ''no file''), cf_source = (\<lambda>_. Inl []), cf_server = (\<lambda>_. Inl [])\<rparr>,
         ho_tty = False, ho_countdown = (\<lambda>_. Ok True), ho_completions = (\<lambda>_. []), ho_man = Inr []\<rparr>"
  let ?c = "\<lparr>cli_verbose = False, cli_config = None, cli_command = ListSnaps None False\<rparr>"
  let ?m = "main (version_os ''zfs-2.3.0'') gregorian example_json ?H (\<lambda>_ _. False) (\<lambda>_. io_return ())
    (\<lambda>_. False) ?c"
  have "emits P (io_return ())" for P :: "string list \<Rightarrow> bool" by (intro emits_intro)
  then have m: "emits (\<lambda>argv. argv = [''version''] \<and> needs_zfs (cli_command ?c) \<or> cli_command_may ?H ?c argv) ?m"
    by (rule cli_commands_allowed)
  obtain r s' where run: "?m st0 = (r, s')" by fastforce
  from emitsD [OF m run] show ?thesis
    unfolding run by (auto simp: st0_def cli_command_may_def needs_zfs_def)
qed

section \<open>Naming a remote that does not exist\<close>

lemma collect_tasks_filter:
  "collect_tasks targets (Some filt) remotes = Ok tasks \<Longrightarrow>
   map fst tasks = filter (\<lambda>n. n \<in> set filt) (map fst targets)"
  by (induction targets arbitrary: tasks) (auto split: if_splits option.splits res.splits)

lemma collect_tasks_all:
  "collect_tasks targets None remotes = Ok tasks \<Longrightarrow> map fst tasks = map fst targets"
  by (induction targets arbitrary: tasks) (auto split: option.splits res.splits)

lemma collect_tasks_disjoint:
  "fst ` set targets \<inter> set filt = {} \<Longrightarrow> collect_tasks targets (Some filt) remotes = Ok []"
  by (induction targets) auto

text \<open>A successful run that only reports.\<close>

definition only_reports :: "('w, 'a) io \<Rightarrow> 'a \<Rightarrow> bool" where
  "only_reports m a \<longleftrightarrow>
     (\<forall>s. \<exists>s' cs. m s = (Ok a, s') \<and> cmds s' = cmds s @ cs \<and> list_all read_only cs)"

lemma only_reportsD:
  "only_reports m a \<Longrightarrow> \<exists>s' cs. m s = (Ok a, s') \<and> cmds s' = cmds s @ cs \<and> list_all read_only cs"
  by (simp add: only_reports_def)

lemma only_reports_return [simp]: "only_reports (io_return a) a"
  by (simp add: only_reports_def io_return_def)

lemma only_reports_bind:
  "only_reports m a \<Longrightarrow> only_reports (f a) b \<Longrightarrow> only_reports (io_bind m f) b"
  unfolding only_reports_def
proof
  fix s
  assume m: "\<forall>s. \<exists>s' cs. m s = (Ok a, s') \<and> cmds s' = cmds s @ cs \<and> list_all read_only cs"
    and f: "\<forall>s. \<exists>s' cs. f a s = (Ok b, s') \<and> cmds s' = cmds s @ cs \<and> list_all read_only cs"
  obtain s1 cs1 where 1: "m s = (Ok a, s1)" "cmds s1 = cmds s @ cs1" "list_all read_only cs1"
    using m by blast
  obtain s2 cs2 where "f a s1 = (Ok b, s2)" "cmds s2 = cmds s1 @ cs2" "list_all read_only cs2"
    using f by blast
  with 1 show "\<exists>s' cs. io_bind m f s = (Ok b, s') \<and> cmds s' = cmds s @ cs \<and> list_all read_only cs"
    by (intro exI [of _ s2] exI [of _ "cs1 @ cs2"]) (simp add: io_bind_def)
qed

lemma only_reports_match_join:
  assumes "only_reports m a"
  shows "only_reports (io_match m f g) b \<longleftrightarrow> only_reports (io_bind m f) b"
    and "only_reports (io_join m) (Ok a)"
proof -
  have "io_match m f g s = io_bind m f s" for s
    using only_reportsD [OF assms, of s] by (auto simp: io_match_def io_bind_def)
  then have "io_match m f g = io_bind m f" by (simp add: fun_eq_iff)
  then show "only_reports (io_match m f g) b \<longleftrightarrow> only_reports (io_bind m f) b" by simp
  show "only_reports (io_join m) (Ok a)"
    unfolding only_reports_def
  proof
    fix s
    show "\<exists>s' cs. io_join m s = (Ok (Ok a), s') \<and> cmds s' = cmds s @ cs \<and> list_all read_only cs"
      using only_reportsD [OF assms, of s] by (auto simp: io_join_def)
  qed
qed

lemma only_reports_loops:
  assumes "\<And>ds. ds \<in> set dss \<Longrightarrow> only_reports (one ds) ()"
  shows "only_reports (send_sequential one dss b) b" and "only_reports (send_parallel one dss b) b"
proof -
  show "only_reports (send_sequential one dss b) b"
    using assms by (induction dss) (auto simp: only_reports_match_join intro!: only_reports_bind)
  show "only_reports (send_parallel one dss b) b"
    using assms
  proof (induction dss)
    case (Cons ds dss)
    have "only_reports (io_join (one ds)) (Ok ())"
      by (rule only_reports_match_join(2)) (simp add: Cons.prems)
    then show ?case
      unfolding send_parallel.simps by (rule only_reports_bind) (simp add: Cons)
  qed simp
qed

text \<open>
  A misspelt \<open>--remote\<close> goes unnoticed: when none of the named remotes is configured for the
  chosen datasets, the operation succeeds in both modes although nothing was sent anywhere; it
  only lists the local snapshots. (Each dataset is configured, and its listing works and is not
  empty.)
\<close>

theorem unknown_remote_sends_nothing:
  assumes "\<And>ds. ds \<in> set datasets \<Longrightarrow>
      \<exists>targets. map_of (sc_datasets config) ds = Some targets \<and> fst ` set targets \<inter> set names = {}"
    and "\<And>ds. ds \<in> set datasets \<Longrightarrow> \<exists>snap. \<forall>s. \<exists>snaps s'. list_zrb S C ds s = (Ok (snaps @ [snap]), s')"
  shows "\<exists>s' cs. send S C J datasets (Some names) config sequential True cm s = (Ok (), s') \<and>
    cmds s' = cmds s @ cs \<and> list_all read_only cs"
proof -
  have one: "only_reports (send_one_dataset S C J ds config (Some names) sequential True cm) ()"
    if ds: "ds \<in> set datasets" for ds
    unfolding only_reports_def
  proof
    fix s
    obtain targets where t: "map_of (sc_datasets config) ds = Some targets" "fst ` set targets \<inter> set names = {}"
      using assms(1) [OF ds] by blast
    obtain snaps snap s' where l: "list_zrb S C ds s = (Ok (snaps @ [snap]), s')"
      using assms(2) [OF ds] by blast
    have "last_of (snaps @ [snap]) = Some snap" by (simp add: last_of_def)
    then have "send_one_dataset S C J ds config (Some names) sequential True cm s = (Ok (), s')"
      using l t collect_tasks_disjoint [OF t(2)]
      by (simp add: send_one_dataset_def io_bind_def io_context_def io_match_def io_res_def dispatch_tasks_def
          Let_def io_return_def)
    moreover obtain cs where "cmds s' = cmds s @ cs" "list_all read_only cs"
      using emitsD [OF read_only_list(1) l] by blast
    ultimately show "\<exists>s' cs. send_one_dataset S C J ds config (Some names) sequential True cm s = (Ok (), s') \<and>
        cmds s' = cmds s @ cs \<and> list_all read_only cs" by blast
  qed
  have "only_reports (notify True AllDone) ()"
    by (simp add: only_reports_def notify_def io_notice_def)
  moreover have "only_reports (if sequential
      then send_sequential (\<lambda>ds. send_one_dataset S C J ds config (Some names) sequential True cm) datasets False
      else send_parallel (\<lambda>ds. send_one_dataset S C J ds config (Some names) sequential True cm) datasets False) False"
    using only_reports_loops [of datasets "\<lambda>ds. send_one_dataset S C J ds config (Some names) sequential True cm" False]
      one by (cases sequential) simp_all
  ultimately have "only_reports (send S C J datasets (Some names) config sequential True cm) ()"
    unfolding send_def Let_def by (elim only_reports_bind) (simp add: only_reports_bind)
  then show ?thesis by (rule only_reportsD)
qed

definition one_remote_config :: source_config where
  "one_remote_config = \<lparr>sc_name = ''laptop'',
     sc_remotes = [(''nas'', \<lparr>rc_host = ''nas'', rc_port = None, rc_user = None, rc_ssh_key = None, rc_ssh_opts = [],
        rc_zfs_send_opts = [], rc_bandwidth_limit = None\<rparr>)],
     sc_datasets = [(''t'', [(''nas'', ''b/t'')])],
     sc_retention = \<lparr>recent = 7, weekly_for_days = 30, monthly_for_days = 365\<rparr>\<rparr>"

lemma unknown_remote_sends_nothing_witness:
  "\<exists>s' cs. send listing_os gregorian example_json [''t''] (Some [''naz'']) one_remote_config False True None st0 =
     (Ok (), s') \<and> cmds s' = cmds st0 @ cs \<and> list_all read_only cs"
proof (rule unknown_remote_sends_nothing)
  fix ds assume "ds \<in> set [''t'']"
  then have ds: "ds = ''t''" by simp
  show "\<exists>targets. map_of (sc_datasets one_remote_config) ds = Some targets \<and> fst ` set targets \<inter> set [''naz''] = {}"
    by (simp add: one_remote_config_def ds)
  show "\<exists>snap. \<forall>s. \<exists>snaps s'. list_zrb listing_os gregorian ds s = (Ok (snaps @ [snap]), s')"
    unfolding ds
    by (intro exI [of _ "''t@zrb-2026-05-06T00:00:00Z''"] allI exI [of _ "[''t@zrb-2026-05-05T00:00:00Z'']"])
      (simp add: list_zrb_def list_snapshots_def run_def listing_os_def io_match_def io_bind_def io_result_def
        io_return_def decode_list_json_def parse_json_def two_snapshots_def filter_zrb_def is_zrb_def
        parse_example sort_chronological_def less_eq_datetime_def)
qed

section \<open>A validated configuration does not get stuck\<close>

text \<open>What validation establishes, and what it is for: every remote that a dataset maps to can be
  looked up.\<close>

definition well_formed :: "source_config \<Rightarrow> bool" where
  "well_formed config \<longleftrightarrow>
     (\<forall>(ds, targets) \<in> set (sc_datasets config). \<forall>(r, t) \<in> set targets. map_of (sc_remotes config) r \<noteq> None)"

lemma load_valid_source_well_formed: "load_valid_source H path = Ok config \<Longrightarrow> well_formed config"
  using validate_correct
  by (fastforce simp: load_valid_source_def well_formed_def split: res.splits)

lemma collect_tasks_progress:
  assumes "\<forall>(r, t) \<in> set targets. map_of remotes r \<noteq> None"
  shows "collect_tasks targets filt remotes =
    Ok (map (\<lambda>(r, t). (r, the (map_of remotes r), t))
      (filter (\<lambda>(r, t). case filt of None \<Rightarrow> True | Some f \<Rightarrow> r \<in> set f) targets))"
  using assms by (induction targets) (auto split: option.splits)

text \<open>
  C20. A validated configuration does not get stuck: for a configured dataset the lookups of
  \<open>zrb send\<close> never fail. Its transfers are exactly those to the chosen remotes, each with the
  configuration of its remote and the target of the dataset there, and what remains of the send
  is listing the snapshots, giving up when there is none, and running these transfers.
\<close>

theorem validated_config_not_stuck:
  assumes "load_valid_source H path = Ok config" and "map_of (sc_datasets config) ds = Some targets"
  shows "\<exists>tasks. map fst tasks = chosen_remotes config filt ds \<and>
    (\<forall>(r, remote_cfg, target) \<in> set tasks.
       map_of (sc_remotes config) r = Some remote_cfg \<and> (r, target) \<in> set targets) \<and>
    send_one_dataset S C J ds config filt sequential progress cm =
      io_bind (io_context (''listing local snapshots for '' @ ds) (list_zrb S C ds)) (\<lambda>local_snaps.
      case last_of local_snaps of
        None \<Rightarrow> io_fail (Message (''no local snapshots for '' @ [CHR 0x27] @ ds @ [CHR 0x27] @
          ''; run `zrb snapshot` first''))
      | Some latest \<Rightarrow> dispatch_tasks S J latest local_snaps (sc_name config) tasks sequential progress cm)"
proof -
  let ?chosen = "\<lambda>r. case filt of None \<Rightarrow> True | Some f \<Rightarrow> r \<in> set f"
  let ?tasks = "map (\<lambda>(r, t). (r, the (map_of (sc_remotes config) r), t)) (filter (\<lambda>(r, t). ?chosen r) targets)"
  have "(ds, targets) \<in> set (sc_datasets config)" using assms(2) by (rule map_of_SomeD)
  then have known: "\<forall>(r, t) \<in> set targets. map_of (sc_remotes config) r \<noteq> None"
    using load_valid_source_well_formed [OF assms(1)] by (auto simp: well_formed_def)
  have "map fst ?tasks = chosen_remotes config filt ds"
    by (simp add: chosen_remotes_def assms(2) filter_map comp_def case_prod_beta')
  moreover have "\<forall>(r, remote_cfg, target) \<in> set ?tasks.
      map_of (sc_remotes config) r = Some remote_cfg \<and> (r, target) \<in> set targets"
    using known by auto
  ultimately show ?thesis
    unfolding send_one_dataset_def assms(2) option.case collect_tasks_progress [OF known] io_bind_res_Ok
    by blast
qed

lemma validated_config_not_stuck_witness:
  "\<exists>tasks. map fst tasks = [''nas''] \<and>
     send_one_dataset listing_os gregorian example_json ''t'' one_remote_config None False True None =
       io_bind (io_context (''listing local snapshots for '' @ ''t'') (list_zrb listing_os gregorian ''t'')) (\<lambda>local_snaps.
       case last_of local_snaps of
         None \<Rightarrow> io_fail (Message (''no local snapshots for '' @ [CHR 0x27] @ ''t'' @ [CHR 0x27] @
           ''; run `zrb snapshot` first''))
       | Some latest \<Rightarrow>
           dispatch_tasks listing_os example_json latest local_snaps (sc_name one_remote_config) tasks
             False True None)"
proof -
  let ?H = "\<lparr>ho_xdg_config_home = None, ho_home = None,
       ho_files = \<lparr>cf_read = (\<lambda>_. Inr []), cf_source = (\<lambda>_. Inr one_remote_config), cf_server = (\<lambda>_. Inl [])\<rparr>,
       ho_tty = False, ho_countdown = (\<lambda>_. Ok True), ho_completions = (\<lambda>_. []), ho_man = Inr []\<rparr>"
  have loaded: "load_valid_source ?H ''c'' = Ok one_remote_config"
    by (simp add: load_valid_source_def load_source_def validate_def one_remote_config_def)
  have ds: "map_of (sc_datasets one_remote_config) ''t'' = Some [(''nas'', ''b/t'')]"
    by (simp add: one_remote_config_def)
  have chosen: "chosen_remotes one_remote_config None ''t'' = [''nas'']"
    by (simp add: chosen_remotes_def one_remote_config_def)
  show ?thesis
    using validated_config_not_stuck [OF loaded ds, of None listing_os gregorian example_json False True None]
    unfolding chosen by (elim exE conjE) (intro exI conjI)
qed

section \<open>The rows of the display\<close>

text \<open>
  C27. The command line and the transfers agree on the rows: the keys that \<open>zrb send\<close> gives the
  display for a dataset are exactly the keys under which its transfers report, in the same
  order, so no event is about an unknown row; and a key press on a row reaches exactly the
  transfer of that row.
\<close>

theorem row_keys_agree:
  assumes "map_of (sc_datasets config) ds = Some targets" and "ds \<in> set datasets"
    and "collect_tasks targets filt (sc_remotes config) = Ok tasks"
    and "CHR ''@'' \<notin> set ds" and "latest = ds @ ''@'' @ n"
    and "cm = map (\<lambda>k. (k, pressed k)) (remdups (row_keys config filt datasets))"
  shows "map (\<lambda>t. row_key (task_context latest snaps client progress (Some cm) t)) tasks =
      map (\<lambda>r. ds @ arrow @ r) (chosen_remotes config filt ds) \<and>
    (\<forall>t \<in> set tasks. row_key (task_context latest snaps client progress (Some cm) t) \<in> set (row_keys config filt datasets) \<and>
       sx_cancel (task_context latest snaps client progress (Some cm) t) =
         pressed (row_key (task_context latest snaps client progress (Some cm) t)))"
proof -
  have names: "map fst tasks = chosen_remotes config filt ds"
    using collect_tasks_filter collect_tasks_all assms(1,3)
    by (cases filt) (auto simp: chosen_remotes_def)
  have "dataset_of latest = ds"
    using assms(4,5) by (simp add: dataset_of_def)
  then have key: "row_key (task_context latest snaps client progress (Some cm) t) = ds @ arrow @ fst t" for t
    by (cases t) (simp add: row_key_def row_key_for_def task_context_def arrow_def)
  have first: "map (\<lambda>t. row_key (task_context latest snaps client progress (Some cm) t)) tasks =
      map (\<lambda>r. ds @ arrow @ r) (chosen_remotes config filt ds)"
    unfolding key names [symmetric] by simp
  have known: "ds @ arrow @ fst t \<in> set (row_keys config filt datasets)" if "t \<in> set tasks" for t
  proof -
    have "fst t \<in> set (chosen_remotes config filt ds)"
      using that names [symmetric] by simp
    with assms(2) show ?thesis by (auto simp: row_keys_def)
  qed
  have "sx_cancel (task_context latest snaps client progress (Some cm) t) = pressed (ds @ arrow @ fst t)"
    if "t \<in> set tasks" for t
  proof -
    have "map_of cm (ds @ arrow @ fst t) = Some (pressed (ds @ arrow @ fst t))"
      using known [OF that] by (simp add: assms(6) map_of_map_restrict)
    moreover have "sx_cancel (task_context latest snaps client progress (Some cm) t) =
        cancel_for (Some cm) (ds @ arrow @ fst t)"
      using \<open>dataset_of latest = ds\<close>
      by (cases t) (simp add: task_context_def row_key_for_def arrow_def)
    ultimately show ?thesis by (simp add: cancel_for_def)
  qed
  with first known show ?thesis unfolding key by blast
qed

lemma row_keys_agree_witness:
  "row_key (task_context ''t@zrb-1'' [] ''laptop'' True
     (Some [(''t'' @ arrow @ ''nas'', \<lambda>k. False)]) (''nas'', snd (hd (sc_remotes one_remote_config)), ''b/t'')) \<in>
   set (row_keys one_remote_config None [''t''])"
  using row_keys_agree [of one_remote_config "''t''" "[(''nas'', ''b/t'')]" "[''t'']" None
      "[(''nas'', snd (hd (sc_remotes one_remote_config)), ''b/t'')]" "''t@zrb-1''" "''zrb-1''"
      "[(''t'' @ arrow @ ''nas'', \<lambda>k. False)]" "\<lambda>_ _. False" "[]" "''laptop''" True]
  by (simp add: one_remote_config_def row_keys_def chosen_remotes_def)

section \<open>The preview of a dry run\<close>

lemma length_held_lines: "length (held_lines seen hs) = card (fst ` set hs - seen)"
proof (induction hs arbitrary: seen)
  case (Cons h hs)
  obtain snap tag where h: "h = (snap, tag)" by fastforce
  show ?case
  proof (cases "snap \<in> seen")
    case True
    then have "fst ` set (h # hs) - seen = fst ` set hs - seen" by (auto simp: h)
    with True Cons show ?thesis by (simp add: h)
  next
    case False
    then have "fst ` set (h # hs) - seen = insert snap (fst ` set hs - insert snap seen)" by (auto simp: h)
    with False Cons show ?thesis by (simp add: h)
  qed
qed simp

fun entry_name :: "dry_run_entry \<Rightarrow> string" where
  "entry_name (Keep name reason) = name"
| "entry_name (Delete name) = name"

text \<open>
  The preview of \<open>prune -n\<close> is complete and in order: each dataset's group lists every
  snapshot that would be kept, with its reason, and every one that would go, each once, in
  chronological order, and after them each held snapshot once, whatever number of holds it has.
\<close>

theorem dry_run_preview:
  assumes "\<not> pr_resume_skipped result"
  shows "\<exists>entries held. dry_run_group C (dataset, result) = dataset # map dry_run_line entries @ held \<and>
    mset entries = mset (map (\<lambda>(s, r). Keep s r) (pr_kept result)) + mset (map Delete (pr_deleted result)) \<and>
    sorted (map (\<lambda>e. parse C (entry_name e)) entries) \<and> length held = card (fst ` set (pr_hold_skipped result))"
proof -
  let ?es = "dry_run_entries C result"
  have named: "fst e = parse C (entry_name (snd e))" if "e \<in> set ?es" for e
    using that by (auto simp: dry_run_entries_def)
  have "map (\<lambda>e. parse C (entry_name e)) (map snd ?es) = map fst ?es"
    by (simp add: named)
  then have "sorted (map (\<lambda>e. parse C (entry_name e)) (map snd ?es))"
    by (simp only: dry_run_entries_def sorted_sort_key)
  moreover have "mset (map snd ?es) =
      mset (map (\<lambda>(s, r). Keep s r) (pr_kept result)) + mset (map Delete (pr_deleted result))"
    by (simp add: dry_run_entries_def image_mset.compositionality comp_def split_def)
  moreover have "dry_run_group C (dataset, result) =
      dataset # map dry_run_line (map snd ?es) @ held_lines {} (pr_hold_skipped result)"
    using assms by (simp add: dry_run_group_def case_prod_beta comp_def)
  ultimately show ?thesis
    using length_held_lines [of "{}" "pr_hold_skipped result"] by (metis Diff_empty)
qed

lemma dry_run_preview_witness:
  "length (dry_run_group gregorian (''t'', \<lparr>pr_kept = [(''t@zrb-2026-05-06T00:00:00Z'', Daily)],
      pr_deleted = [''t@zrb-2026-05-05T00:00:00Z''], pr_resume_skipped = False,
      pr_hold_skipped = [(''t@a'', ''zrb:x''), (''t@a'', ''zrb:y'')]\<rparr>)) = 4"
proof -
  let ?r = "\<lparr>pr_kept = [(''t@zrb-2026-05-06T00:00:00Z'', Daily)],
      pr_deleted = [''t@zrb-2026-05-05T00:00:00Z''], pr_resume_skipped = False,
      pr_hold_skipped = [(''t@a'', ''zrb:x''), (''t@a'', ''zrb:y'')]\<rparr>"
  obtain entries held where "dry_run_group gregorian (''t'', ?r) = ''t'' # map dry_run_line entries @ held"
      "mset entries = mset (map (\<lambda>(s, r). Keep s r) (pr_kept ?r)) + mset (map Delete (pr_deleted ?r))"
      "length held = card (fst ` set (pr_hold_skipped ?r))"
    using dry_run_preview [of ?r gregorian "''t''"] by auto
  then have "size (mset entries) = 2" "length held = 1" by simp_all
  with \<open>dry_run_group gregorian (''t'', ?r) = _\<close> show ?thesis by simp
qed

end
