(* ===== verification/Conformance.thy ===== *)
theory Conformance
  imports Cli
begin

text \<open>
  The repository's own unit tests, evaluated on the model: the inputs and the expected values are
  those of the tests that each lemma names. They say nothing new of the code; they are evidence
  that the definitions compute what the code computes. The tests of the parsers of sizes and
  bandwidths are instances of \<open>parse_estimated_size_line\<close> and \<open>parse_bandwidth_units\<close>.
\<close>

section \<open>Names\<close>

text \<open>The tests of \<open>src/snapshot/naming.rs\<close>.\<close>

lemmas naming_eval = parse_def strip_prefix_def PREFIX_def calendar_eval

lemma naming_parses:
  "parse gregorian ''tank/home@zrb-2026-05-22T14:30:00Z'' = Some (DateTime 1779460200000000000)"
  "parse gregorian ''tank/home@zrb-2026-05-20T08:00:00Z'' = Some (DateTime 1779264000000000000)"
  "parse gregorian ''tank/home@zrb-2026-05-21T10:00:00Z'' = Some (DateTime 1779357600000000000)"
  "parse gregorian ''tank/home@manual-2026-05-22T14:30:00Z'' = None"
  "parse gregorian ''tank/home@zrb2026-05-22T14:30:00Z'' = None"
  "parse gregorian ''tank/home@zrb-not-a-date'' = None"
  "parse gregorian ''zrb-2026-05-22T14:30:00Z'' = None"
  "parse gregorian ''tank/home@manual-snap'' = None"
  by (simp_all add: naming_eval)

lemma naming_tests:
  "new_name gregorian ''tank/home'' (DateTime 1779460200000000000) = ''tank/home@zrb-2026-05-22T14:30:00Z''"
  "is_zrb gregorian ''tank/home@zrb-2026-05-22T14:30:00Z''"
  "\<not> is_zrb gregorian ''tank/home@manual-2026-05-22T14:30:00Z''"
  "\<not> is_zrb gregorian ''tank/home@zrb2026-05-22T14:30:00Z''"
  "\<not> is_zrb gregorian ''tank/home@zrb-not-a-date''"
  "\<not> is_zrb gregorian ''zrb-2026-05-22T14:30:00Z''"
  "filter_zrb gregorian [''tank/home@zrb-2026-05-22T14:30:00Z'', ''tank/home@manual-snap'',
     ''tank/home@zrb-2026-05-21T10:00:00Z''] =
   [''tank/home@zrb-2026-05-22T14:30:00Z'', ''tank/home@zrb-2026-05-21T10:00:00Z'']"
  "sort_chronological gregorian [''tank/home@zrb-2026-05-22T14:30:00Z'', ''tank/home@zrb-2026-05-20T08:00:00Z'',
     ''tank/home@zrb-2026-05-21T10:00:00Z''] =
   [''tank/home@zrb-2026-05-20T08:00:00Z'', ''tank/home@zrb-2026-05-21T10:00:00Z'',
    ''tank/home@zrb-2026-05-22T14:30:00Z'']"
  by (simp_all add: is_zrb_def naming_parses filter_zrb_def sort_chronological_def less_eq_datetime_def
      new_name_def PREFIX_def calendar_eval)

section \<open>Retention\<close>

text \<open>
  Tests of \<open>src/retention/policy.rs\<close>, with the names that they make of a number of days before
  noon of 2026-05-22.
\<close>

definition policy_now :: datetime where
  "policy_now = DateTime 1779451200000000000"

lemma policy_parses:
  "parse gregorian ''p@zrb-2026-05-21T12:00:00Z'' = Some (DateTime 1779364800000000000)"
  "parse gregorian ''p@zrb-2026-05-12T12:00:00Z'' = Some (DateTime 1778587200000000000)"
  "parse gregorian ''p@zrb-2026-04-17T12:00:00Z'' = Some (DateTime 1776427200000000000)"
  "parse gregorian ''p@zrb-2026-04-12T12:00:00Z'' = Some (DateTime 1775995200000000000)"
  "parse gregorian ''p@zrb-2025-05-21T12:00:00Z'' = Some (DateTime 1747828800000000000)"
  "parse gregorian ''p@zrb-2025-05-17T12:00:00Z'' = Some (DateTime 1747483200000000000)"
  "parse gregorian ''p@zrb-2025-04-17T12:00:00Z'' = Some (DateTime 1744891200000000000)"
  by (simp_all add: naming_eval)

lemma policy_tests:
  "apply_policy gregorian [] policy_now \<lparr>recent = 7, weekly_for_days = 30, monthly_for_days = 365\<rparr> = Ok ([], [])"
  "apply_policy gregorian [''p@zrb-2026-05-21T12:00:00Z'', ''p@zrb-2026-04-17T12:00:00Z'', ''p@zrb-2026-04-12T12:00:00Z'']
     policy_now \<lparr>recent = 1, weekly_for_days = 7, monthly_for_days = 60\<rparr> =
   Ok ([(''p@zrb-2026-04-12T12:00:00Z'', Monthly), (''p@zrb-2026-05-21T12:00:00Z'', Daily)], [''p@zrb-2026-04-17T12:00:00Z''])"
  "apply_policy gregorian [''p@zrb-2026-05-21T12:00:00Z'', ''p@zrb-2025-05-21T12:00:00Z'', ''p@zrb-2025-05-17T12:00:00Z'']
     policy_now \<lparr>recent = 1, weekly_for_days = 7, monthly_for_days = 60\<rparr> =
   Ok ([(''p@zrb-2025-05-17T12:00:00Z'', Yearly), (''p@zrb-2026-05-21T12:00:00Z'', Daily)], [''p@zrb-2025-05-21T12:00:00Z''])"
  "apply_policy gregorian [''p@zrb-2026-05-21T12:00:00Z'', ''p@zrb-2026-05-12T12:00:00Z'', ''p@zrb-2026-04-12T12:00:00Z'',
       ''p@zrb-2025-04-17T12:00:00Z'']
     policy_now \<lparr>recent = 1, weekly_for_days = 30, monthly_for_days = 365\<rparr> =
   Ok ([(''p@zrb-2025-04-17T12:00:00Z'', Yearly), (''p@zrb-2026-04-12T12:00:00Z'', Monthly),
        (''p@zrb-2026-05-12T12:00:00Z'', Weekly), (''p@zrb-2026-05-21T12:00:00Z'', Daily)], [])"
  by (simp_all add: apply_policy_def parsed_sorted_def policy_parses cutoff_def policy_now_def day_nanos_def
      less_eq_datetime_def less_datetime_def retain_loop_def retain_step_def retain_init_def calendar_eval Let_def)

section \<open>Pruning\<close>

text \<open>The tests of \<open>src/ops/prune.rs\<close>; the clock stands at \<open>n\<close>.\<close>

lemma resume_decision_tests:
  "resume_decision False None (DateTime n) (Some 3) = Idle"
  "resume_decision False (Some (DateTime (n - 5 * day_nanos))) (DateTime n) (Some 3) = Idle"
  "resume_decision True None (DateTime n) (Some 3) = Wait"
  "resume_decision True None (DateTime n) None = Wait"
  "resume_decision True (Some (DateTime (n - 2 * day_nanos))) (DateTime n) (Some 3) = Wait"
  "resume_decision True (Some (DateTime (n - 3 * day_nanos))) (DateTime n) (Some 3) = Expire"
  "resume_decision True (Some (DateTime (n - 5 * day_nanos))) (DateTime n) (Some 3) = Expire"
  "resume_decision True (Some (DateTime (n + 9999 * day_nanos))) (DateTime n) None = Expire"
  by (simp_all add: resume_decision_def signed_duration_since_def day_nanos_def)

lemma zrb_holds_tests:
  "zrb_holds_from_tags [] = []"
  "zrb_holds_from_tags [''manual'', ''other-tool:data''] = []"
  "zrb_holds_from_tags [''zrb:primary'', ''zrb:offsite'', ''manual''] = [''zrb:primary'', ''zrb:offsite'']"
  "zrb_holds_from_tags [''zrb:received''] = [''zrb:received'']"
  by (simp_all add: zrb_holds_from_tags_def)

lemma classify_candidates_tests:
  "classify_candidates [''tank/data@zrb-A'', ''tank/data@zrb-B''] [] = ([''tank/data@zrb-A'', ''tank/data@zrb-B''], [])"
  "classify_candidates [''tank/data@zrb-A''] [(''tank/data@zrb-A'', [''zrb:backup''])] =
     ([], [(''tank/data@zrb-A'', ''zrb:backup'')])"
  "classify_candidates [''tank/data@zrb-A''] [(''tank/data@zrb-A'', [''manual''])] = ([''tank/data@zrb-A''], [])"
  "classify_candidates [''tank/data@zrb-A''] [(''tank/data@zrb-A'', [''zrb:primary'', ''zrb:offsite''])] =
     ([], [(''tank/data@zrb-A'', ''zrb:primary''), (''tank/data@zrb-A'', ''zrb:offsite'')])"
  "classify_candidates [''tank/data@zrb-A'', ''tank/data@zrb-B'', ''tank/data@zrb-C'']
       [(''tank/data@zrb-B'', [''zrb:backup''])] =
     ([''tank/data@zrb-A'', ''tank/data@zrb-C''], [(''tank/data@zrb-B'', ''zrb:backup'')])"
  by (simp_all add: classify_candidates_def zrb_holds_from_tags_def tags_of_def Let_def)

section \<open>The answers of zfs\<close>

text \<open>The tests of \<open>src/zfs/client.rs\<close>; what \<open>serde_json\<close> makes of the text is given.\<close>

definition listing :: "string list \<Rightarrow> zfs_json" where
  "listing xs = \<lparr>zo_datasets = map (\<lambda>x. (x, \<lparr>di_properties = []\<rparr>)) xs\<rparr>"

definition property :: "string \<Rightarrow> string \<Rightarrow> zfs_json" where
  "property name v = \<lparr>zo_datasets = [(''tank/data'', \<lparr>di_properties = [(name, \<lparr>pv_value = v\<rparr>)]\<rparr>)]\<rparr>"

lemmas client_eval = decode_list_json_def decode_discover_json_def decode_property_json_def parse_json_def
  discover_key_def listing_def property_def map_token_value_def map_since_value_def List.map_filter_def

lemma list_json_tests:
  assumes "parse_zfs_json S t0 = Inr (listing [])"
    and "parse_zfs_json S t2 = Inr (listing [''tank/home@zrb-2026-01-02T00:00:00Z'', ''tank/home@zrb-2026-01-01T00:00:00Z''])"
    and "parse_zfs_json S tm = Inr (listing [''tank/home@manual-backup'', ''tank/data@nightly''])"
    and "parse_zfs_json S tx = Inr (listing [''tank/home@manual'', ''tank/home@zrb-2026-01-01T00:00:00Z''])"
  shows "decode_list_json S t0 = Inr []"
    "decode_list_json S t2 = Inr [''tank/home@zrb-2026-01-02T00:00:00Z'', ''tank/home@zrb-2026-01-01T00:00:00Z'']"
    "decode_discover_json S tm = Inr []"
    "decode_discover_json S t2 = Inr [''tank/home'']"
    "decode_discover_json S tx = Inr [''tank/home'']"
  using assms by (simp_all add: client_eval)

lemma property_json_tests:
  assumes "parse_zfs_json S t0 = Inr (listing [])"
    and "parse_zfs_json S tok = Inr (property ''receive_resume_token'' ''1-abc'')"
    and "parse_zfs_json S tnone = Inr (property ''receive_resume_token'' ''none'')"
    and "parse_zfs_json S tdash = Inr (property ''receive_resume_token'' ''-'')"
  shows "decode_property_json S tok ''receive_resume_token'' ''tank/data'' = Inr (Some ''1-abc'')"
    "decode_property_json S t0 ''receive_resume_token'' ''tank/data'' = Inr None"
    "decode_property_json S tok ''receive_resume_token'' ''tank/other'' = Inr None"
    "map_sum id map_token_value (decode_property_json S tnone ''receive_resume_token'' ''tank/data'') = Inr None"
    "map_sum id map_token_value (decode_property_json S tdash ''receive_resume_token'' ''tank/data'') = Inr None"
    "map_sum id map_token_value (decode_property_json S tok ''receive_resume_token'' ''tank/data'') = Inr (Some ''1-abc'')"
  using assms by (simp_all add: client_eval)

text \<open>The output of \<open>zfs holds -H\<close>.\<close>

definition holds_text :: "(string \<times> string) list \<Rightarrow> string" where
  "holds_text xs = concat (map (\<lambda>(x, t). x @ [tab] @ t @ [tab] @ ''date'' @ [newline]) xs)"

lemmas holds_eval = holds_text_def parse_holds_output_def parse_held_snapshots_for_tag_def List.map_filter_def

lemma holds_output_tests:
  "parse_holds_output [] = []"
  "parse_holds_output (holds_text [(''tank/data@snap1'', ''zrb:primary'')]) = [''zrb:primary'']"
  "parse_holds_output (holds_text [(''tank/data@snap1'', ''zrb:primary''), (''tank/data@snap2'', ''zrb:offsite'')]) =
     [''zrb:primary'', ''zrb:offsite'']"
  "parse_holds_output (holds_text [(''tank/data@snap1'', ''zrb:primary''), (''tank/data@snap1'', ''zrb:offsite'')]) =
     [''zrb:primary'', ''zrb:offsite'']"
  "parse_held_snapshots_for_tag [] ''zrb:primary'' = []"
  "parse_held_snapshots_for_tag
     (holds_text [(''tank/data@snap-A'', ''zrb:primary''), (''tank/data@snap-B'', ''zrb:primary'')]) ''zrb:primary'' =
     [''tank/data@snap-A'', ''tank/data@snap-B'']"
  "parse_held_snapshots_for_tag
     (holds_text [(''tank/data@snap-A'', ''zrb:primary''), (''tank/data@snap-B'', ''zrb:offsite'')]) ''zrb:primary'' =
     [''tank/data@snap-A'']"
  by code_simp+

section \<open>Sending\<close>

text \<open>The tests of \<open>decide_transfer\<close> and \<open>collect_tasks\<close> in \<open>src/ops/send.rs\<close>.\<close>

definition test_hello :: "string option \<Rightarrow> string option \<Rightarrow> server_hello" where
  "test_hello head token = \<lparr>sh_version = CARGO_PKG_VERSION, sh_head = head, sh_resume_token = token\<rparr>"

lemma decide_transfer_tests:
  "decide_transfer (test_hello (Some ''backup/data@zrb-2026-01-10T00:00:00Z'') (Some ''tok''))
     [''tank/data@zrb-2026-01-10T00:00:00Z''] ''tank/data@zrb-2026-01-10T00:00:00Z'' = Ok AlreadyUpToDate"
  "decide_transfer (test_hello (Some ''backup/data@zrb-2026-01-01T00:00:00Z'') (Some ''tok''))
     [''tank/data@zrb-2026-01-01T00:00:00Z'', ''tank/data@zrb-2026-01-10T00:00:00Z'']
     ''tank/data@zrb-2026-01-10T00:00:00Z'' = Ok (ResumeSend ''tok'')"
  "decide_transfer (test_hello (Some ''backup/data@zrb-2026-01-10T00:00:00Z'') None)
     [''tank/data@zrb-2026-01-10T00:00:00Z''] ''tank/data@zrb-2026-01-10T00:00:00Z'' = Ok AlreadyUpToDate"
  "decide_transfer (test_hello None None)
     [''tank/data@zrb-2026-01-01T00:00:00Z''] ''tank/data@zrb-2026-01-01T00:00:00Z'' = Ok FullSend"
  "decide_transfer (test_hello (Some ''backup/data@zrb-2026-01-01T00:00:00Z'') None)
     [''tank/data@zrb-2026-01-01T00:00:00Z'', ''tank/data@zrb-2026-01-10T00:00:00Z'']
     ''tank/data@zrb-2026-01-10T00:00:00Z'' = Ok (IncrementalSend ''tank/data@zrb-2026-01-01T00:00:00Z'')"
  "decide_transfer (test_hello (Some ''backup/data@zrb-2026-01-20T00:00:00Z'') None)
     [''tank/data@zrb-2026-01-01T00:00:00Z''] ''tank/data@zrb-2026-01-25T00:00:00Z'' =
     Err (diverged ''zrb-2026-01-20T00:00:00Z'')"
  by (simp_all add: decide_transfer_def test_hello_def suffix_of_def)

lemma collect_tasks_tests:
  fixes cfg :: remote_config
  defines "targets \<equiv> [(''primary'', ''backup/home''), (''secondary'', ''offsite/home'')]"
    and "remotes \<equiv> [(''primary'', cfg), (''secondary'', cfg)]"
  shows "collect_tasks targets (Some [''primary'']) remotes = Ok [(''primary'', cfg, ''backup/home'')]"
    "collect_tasks targets None remotes = Ok [(''primary'', cfg, ''backup/home''), (''secondary'', cfg, ''offsite/home'')]"
    "collect_tasks [(''ghost'', ''backup/home'')] None [] = Err (Message ''remote 'ghost' not in config'')"
  by (simp_all add: targets_def remotes_def)

section \<open>The command line\<close>

text \<open>The tests of \<open>src/main.rs\<close> and \<open>src/ops/list.rs\<close> that do not parse arguments.\<close>

lemma version_tests:
  "parse_zfs_version_line ''zfs-2.3.0-1'' = Inr (2, 3, 0)"
  "parse_zfs_version_line ''zfs-2.2.99-1'' = Inr (2, 2, 99)"
  "parse_zfs_version_line ''zfs-2.3.7-1'' = Inr (2, 3, 7)"
  "parse_zfs_version_line ''zfs-3.0.0-1'' = Inr (3, 0, 0)"
  "parse_zfs_version_line ''zfs-2.3.7-0ubuntu1'' = Inr (2, 3, 7)"
  "parse_zfs_version_line ''zfs-2.2.2-0ubuntu9.4'' = Inr (2, 2, 2)"
  "isl (parse_zfs_version_line ''not-a-version'')" "isl (parse_zfs_version_line ''zfs-bad'')"
  by (simp_all add: parse_zfs_version_line_def strip_prefix_def parse_uint_def digit_val_def u32_max_def Let_def)

lemma dataset_argument_tests:
  "validate_dataset ''/something'' \<noteq> Ok ()" "validate_dataset ''tank/home'' = Ok ()" "validate_dataset ''tank'' = Ok ()"
  "sc_datasets config = [(''tank/home'', a), (''tank/documents'', b)] \<Longrightarrow>
     resolve_datasets [] config = [''tank/documents'', ''tank/home'']"
  "resolve_datasets [''tank/home''] config = [''tank/home'']"
  by (simp_all add: validate_dataset_def resolve_datasets_def source_configured_datasets_def)

lemma datasets_matching_tests:
  "datasets_matching [''tanker/docs''] ''tank'' = []"
  "datasets_matching [''tank''] ''tank'' = [''tank'']"
  "datasets_matching [''tank/home'', ''tank/home/sub'', ''tank/docs'', ''other/data''] ''tank'' =
     [''tank/home'', ''tank/home/sub'', ''tank/docs'']"
  by (simp_all add: datasets_matching_def)

section \<open>The terminal interface\<close>

text \<open>The tests of \<open>src/tui.rs\<close>: a session is a list of events and keys.\<close>

datatype played = Ev send_event | Key tui_key

definition play :: "played list \<Rightarrow> tui_app \<Rightarrow> tui_app" where
  "play = fold (\<lambda>x. case x of Ev e \<Rightarrow> handle_send_event 0 e | Key k \<Rightarrow> handle_key k)"

lemmas play_eval = play_def tui_new_def for_transfer_def for_transfer_with_tokens_def new_row_def on_row_def
  handle_key_def skip_all_active_def is_pending_def is_failed_def build_cancel_map_def cancel_token_def
  progress_row_def

lemma countdown_tests:
  "ta_state tui_new = Countdown 5"
  "ta_state (play [Ev (CountdownTick 3)] tui_new) = Countdown 3"
  "ta_state (play [Ev (CountdownTick 0)] tui_new) = Transferring"
  "ta_state (play [Key KAny] tui_new) = Aborted"
  "ta_state (play [Ev (CountdownTick 0), Key KAny] tui_new) = Transferring"
  "ta_state (play [Ev CountdownAborted] tui_new) = Aborted"
  "ta_state (play [Key KAny, Ev (CountdownTick 2)] tui_new) = Aborted"
  "ta_state (play [Ev (CountdownTick 0), Ev AllDone] tui_new) = Summary"
  by (simp_all add: play_eval)

text \<open>The states of the rows.\<close>

definition row_states :: "played list \<Rightarrow> string list \<Rightarrow> row_state list" where
  "row_states xs names = map rr_state (ta_remotes (play xs (for_transfer names)))"

lemma row_tests:
  "row_states [] [''primary'', ''secondary''] = [Waiting, Waiting]"
  "row_states [Ev (RemoteStarted ''primary'' 1024)] [''primary''] = [Active 0 1024 (Fin 0) None]"
  "row_states [Ev (RemoteProgress ''ghost'' 100)] [''primary''] = [Waiting]"
  "row_states [Ev (RemoteStarted ''primary'' 100), Ev (RemoteCompleted ''primary'' (Fin (3 / 2)) 100)] [''primary''] =
     [Done 100 (Fin (3 / 2))]"
  "row_states [Ev (RemoteStarted ''primary'' 100), Ev (RemoteFailed ''primary'' ''connection reset'')] [''primary''] =
     [Failed ''connection reset'']"
  "row_states [Ev (RemoteSkipped ''primary'')] [''primary''] = [Skipped]"
  "row_states [Ev (RemoteUpToDate ''primary'')] [''primary''] = [UpToDate]"
  "row_states [Ev (RemoteStarted ''primary'' 100), Ev (RemoteStarted ''secondary'' 100), Key KSkip]
     [''primary'', ''secondary''] = [Skipped, Active 0 100 (Fin 0) None]"
  "row_states [Ev (RemoteStarted ''primary'' 100), Ev (RemoteStarted ''secondary'' 100), Key KQuit]
     [''primary'', ''secondary''] = [Skipped, Skipped]"
  "row_states [Ev (RemoteCompleted ''primary'' (Fin 1) 100), Ev (RemoteStarted ''secondary'' 100), Key KQuit]
     [''primary'', ''secondary''] = [Done 100 (Fin 1), Skipped]"
  by (simp_all add: row_states_def play_eval)

lemma focus_tests:
  "map (\<lambda>ks. ta_focused (play (map Key ks) (for_transfer [''a'', ''b'', ''c''])))
     [[], [KDown], [KDown, KDown], [KDown, KDown, KDown], [KDown, KDown, KDown, KUp],
      [KDown, KDown, KDown, KUp, KUp], [KDown, KDown, KDown, KUp, KUp, KUp]] = [0, 1, 2, 2, 1, 0, 0]"
  by (simp add: play_eval)

lemma summary_tests:
  "ta_state (play [Ev (RemoteStarted ''r'' 100), Key KSkip] (for_transfer [''r''])) = Summary"
  "ta_state (play [Ev AllDone, Key KAny] (for_transfer [''r''])) = Exiting"
  "ta_summary_countdown (play [Ev AllDone] (for_transfer [''r''])) = SUMMARY_TIMEOUT_OK_SECS"
  "ta_summary_countdown (play [Ev (RemoteFailed ''r'' ''connection reset''), Ev AllDone] (for_transfer [''r''])) =
     SUMMARY_TIMEOUT_FAIL_SECS"
  "ta_summary_countdown (play [Ev (RemoteSkipped ''r''), Ev AllDone] (for_transfer [''r''])) = SUMMARY_TIMEOUT_OK_SECS"
  "ta_state (play [Ev AllDone, Ev SummaryTick, Ev SummaryTick, Ev SummaryTick, Ev SummaryTick,
     Ev SummaryTick, Ev SummaryTick, Ev SummaryTick, Ev SummaryTick, Ev SummaryTick, Ev SummaryTick] (for_transfer [''r''])) = Exiting"
  "ta_state (play [Ev AllDone, Ev SummaryTick, Ev SummaryTick, Ev SummaryTick, Ev SummaryTick,
     Ev SummaryTick, Ev SummaryTick, Ev SummaryTick, Ev SummaryTick, Ev SummaryTick] (for_transfer [''r''])) = Summary"
  "ta_state (play [Ev SummaryTick] (for_transfer [''r''])) = Transferring"
  "summary_title (play [Ev (RemoteUpToDate ''r''), Ev AllDone] (for_transfer [''r''])) = '' Backup Complete ''"
  "summary_title (play [Ev (RemoteSkipped ''r''), Ev AllDone] (for_transfer [''r''])) = '' Backup Finished ''"
  by (simp_all add: play_eval SUMMARY_TIMEOUT_OK_SECS_def SUMMARY_TIMEOUT_FAIL_SECS_def sat_sub_def
      Let_def summary_title_def any_bad_def)

lemma token_tests:
  "ta_tokens (play [Ev (RemoteStarted ''primary'' 100), Ev (RemoteStarted ''secondary'' 100), Key KSkip]
     (for_transfer [''primary'', ''secondary''])) = [(''primary'', True), (''secondary'', False)]"
  "ta_tokens (play [Ev (RemoteStarted ''primary'' 100), Ev (RemoteStarted ''secondary'' 100), Key KQuit]
     (for_transfer [''primary'', ''secondary''])) = [(''primary'', True), (''secondary'', True)]"
  "ta_tokens (play [Ev (RemoteStarted ''primary'' 100), Key KSkip] (for_transfer [''primary''])) = [(''primary'', True)]"
  by (simp_all add: play_eval)

end
